(* ===== verification/Op_Prelude.thy ===== *)
theory Op_Prelude
  imports Main "HOL-Library.Word" "HOL-Library.Finite_Map" "HOL-Library.List_Lexorder"
    "HOL-Library.Char_ord" "HOL-Library.Sublist" "HOL-Library.Product_Lexorder"
begin

text \<open>
  Shared vocabulary of the development.

  \<^item> A Rust \<^verbatim>\<open>String\<close> is its UTF-8 byte sequence, a HOL \<^typ>\<open>string\<close>, so that
    \<^verbatim>\<open>len()\<close> is \<^const>\<open>length\<close> and \<^verbatim>\<open>Ord\<close> is the bytewise lexicographic order of
    the library theory List\_Lexorder.
  \<^item> A \<^verbatim>\<open>HashMap\<close> is a finite map; where the code iterates over one, the model
    iterates in ascending key order (\<open>fm_entries\<close>).
  \<^item> A \<^verbatim>\<open>u64\<close> is a natural number; \<open>sat_add\<close> writes out \<^verbatim>\<open>saturating_add\<close>, and
    \<^verbatim>\<open>saturating_sub\<close> is the truncated subtraction of \<^typ>\<open>nat\<close>.
  \<^item> A \<^verbatim>\<open>Result\<close> is a sum type, \<open>Inl\<close> the error.
\<close>

named_theorems op_defs \<open>definitions unfolded by the component proofs\<close>

section \<open>Types\<close>

type_synonym byte = "8 word"
type_synonym bytes = "8 word list"
type_synonym u64 = nat

section \<open>Integers\<close>

definition u64_max :: nat where
  "u64_max = 2 ^ 64 - 1"

definition sat_add :: "u64 \<Rightarrow> u64 \<Rightarrow> u64" where
  "sat_add a b = min (a + b) u64_max"

lemma sat_add_code [code]: "sat_add a b = nat (min (int a + int b) 18446744073709551615)"
  by (simp add: sat_add_def u64_max_def min_def nat_int_add)

lemma sat_add_exact: "a + b \<le> u64_max \<Longrightarrow> sat_add a b = a + b"
  by (simp add: sat_add_def)

lemma sat_add_le [simp]: "sat_add a b \<le> u64_max"
  by (simp add: sat_add_def)

lemma sat_add_ge: "a \<le> u64_max \<Longrightarrow> a \<le> sat_add a b"
  by (simp add: sat_add_def)

section \<open>Orderings\<close>

datatype ordering = Less | Equal | Greater

definition cmp_of :: "'a::linorder \<Rightarrow> 'a \<Rightarrow> ordering" where
  "cmp_of a b = (if a < b then Less else if a = b then Equal else Greater)"

fun then_ord :: "ordering \<Rightarrow> ordering \<Rightarrow> ordering" where
  "then_ord Equal o2 = o2"
| "then_ord o1 _ = o1"

lemma cmp_of_Equal [simp]: "cmp_of a b = Equal \<longleftrightarrow> a = b"
  and cmp_of_Less [simp]: "cmp_of a b = Less \<longleftrightarrow> a < b"
  and cmp_of_Greater [simp]: "cmp_of a b = Greater \<longleftrightarrow> b < a"
  by (auto simp: cmp_of_def)

section \<open>Results\<close>

text \<open>\<open>traverse\<close> is \<^verbatim>\<open>iter().map(f).collect::<Result<Vec<_>, _>>()\<close>: the first error wins.\<close>

fun traverse :: "('a \<Rightarrow> 'e + 'b) \<Rightarrow> 'a list \<Rightarrow> 'e + 'b list" where
  "traverse f [] = Inr []"
| "traverse f (x # xs) =
     (case f x of
        Inl e \<Rightarrow> Inl e
      | Inr y \<Rightarrow> (case traverse f xs of Inl e \<Rightarrow> Inl e | Inr ys \<Rightarrow> Inr (y # ys)))"

text \<open>\<^verbatim>\<open>Result::map\<close>.\<close>

fun map_ok :: "('a \<Rightarrow> 'b) \<Rightarrow> 'e + 'a \<Rightarrow> 'e + 'b" where
  "map_ok f (Inl e) = Inl e"
| "map_ok f (Inr x) = Inr (f x)"

text \<open>The operator \<^verbatim>\<open>?\<close>: go on with the value, return the error.\<close>

fun and_then :: "'e + 'a \<Rightarrow> ('a \<Rightarrow> 'e + 'b) \<Rightarrow> 'e + 'b" where
  "and_then (Inl e) f = Inl e"
| "and_then (Inr x) f = f x"

fun fold_ok :: "('a \<Rightarrow> 's \<Rightarrow> 'e + 's) \<Rightarrow> 'a list \<Rightarrow> 's \<Rightarrow> 'e + 's" where
  "fold_ok f [] s = Inr s"
| "fold_ok f (x # xs) s = and_then (f x s) (fold_ok f xs)"

lemma and_then_Inr_iff [simp]: "and_then r f = Inr y \<longleftrightarrow> (\<exists>x. r = Inr x \<and> f x = Inr y)"
  by (cases r) auto

lemma and_then_cong [fundef_cong]:
  "r = r' \<Longrightarrow> (\<And>x. r' = Inr x \<Longrightarrow> f x = f' x) \<Longrightarrow> and_then r f = and_then r' f'"
  by (cases r') auto

lemma fold_ok_invariant:
  "fold_ok f xs s = Inr s' \<Longrightarrow> P s \<Longrightarrow> (\<And>x s s'. x \<in> set xs \<Longrightarrow> P s \<Longrightarrow> f x s = Inr s' \<Longrightarrow> P s') \<Longrightarrow> P s'"
  by (induction xs arbitrary: s) auto

lemma map_ok_Inr_iff [simp]: "map_ok f r = Inr y \<longleftrightarrow> (\<exists>x. r = Inr x \<and> y = f x)"
  by (cases r) auto

lemma map_ok_Inl_iff [simp]: "map_ok f r = Inl e \<longleftrightarrow> r = Inl e"
  by (cases r) auto

lemma traverse_Inr_all:
  "(\<And>x. x \<in> set xs \<Longrightarrow> f x = Inr (g x)) \<Longrightarrow> traverse f xs = Inr (map g xs)"
  by (induction xs) auto

lemma traverse_Inr_iff:
  "traverse f xs = Inr ys \<longleftrightarrow> list_all2 (\<lambda>x y. f x = Inr y) xs ys"
proof (induction xs arbitrary: ys)
  case (Cons x xs)
  then show ?case
    by (auto simp: list_all2_Cons1 Cons.IH [symmetric] split: sum.splits)
qed auto

lemma traverse_mem: "traverse f xs = Inr ys \<Longrightarrow> y \<in> set ys \<Longrightarrow> \<exists>x \<in> set xs. f x = Inr y"
  by (induction xs arbitrary: ys) (auto split: sum.splits)

lemma not_isl_ex: "\<not> isl x \<Longrightarrow> \<exists>y. x = Inr y"
  by (cases x) auto

lemma traverse_append:
  "traverse f (xs @ ys) =
     (case traverse f xs of
        Inl e \<Rightarrow> Inl e
      | Inr us \<Rightarrow> (case traverse f ys of Inl e \<Rightarrow> Inl e | Inr vs \<Rightarrow> Inr (us @ vs)))"
  by (induction xs) (auto split: sum.splits)

section \<open>Strings\<close>

subsection \<open>Decimal rendering\<close>

definition digit :: "nat \<Rightarrow> char" where
  "digit d = char_of (48 + d)"

definition digit_val :: "char \<Rightarrow> nat" where
  "digit_val c = of_char c - 48"

fun dec :: "nat \<Rightarrow> string" where
  "dec n = (if n < 10 then [digit n] else dec (n div 10) @ [digit (n mod 10)])"

declare dec.simps [simp del]

text \<open>The format specification \<^verbatim>\<open>{:0w}\<close>: at least \<open>w\<close> digits, zero padded.\<close>

definition dec_pad :: "nat \<Rightarrow> nat \<Rightarrow> string" where
  "dec_pad w n = replicate (w - length (dec n)) (digit 0) @ dec n"

definition dec_val :: "string \<Rightarrow> nat" where
  "dec_val s = foldl (\<lambda>a c. 10 * a + digit_val c) 0 s"

lemma digit_val_digit [simp]: "d < 10 \<Longrightarrow> digit_val (digit d) = d"
  by (simp add: digit_val_def digit_def)

lemma dec_val_append: "dec_val (xs @ [c]) = 10 * dec_val xs + digit_val c"
  by (simp add: dec_val_def)

lemma dec_val_dec [simp]: "dec_val (dec n) = n"
proof (induction n rule: dec.induct)
  case (1 n)
  show ?case
  proof (cases "n < 10")
    case True
    then have "dec n = [digit n]" by (simp add: dec.simps)
    then show ?thesis using True by (simp add: dec_val_def)
  next
    case False
    then have "dec n = dec (n div 10) @ [digit (n mod 10)]" by (simp add: dec.simps)
    then show ?thesis using 1 False by (simp add: dec_val_append)
  qed
qed

lemma dec_val_zeros: "dec_val (replicate k (digit 0) @ s) = dec_val s"
  by (induction k) (simp_all add: dec_val_def)

lemma dec_val_dec_pad [simp]: "dec_val (dec_pad w n) = n"
  by (simp add: dec_pad_def dec_val_zeros)

lemma dec_pad_inject [simp]: "dec_pad w m = dec_pad w n \<longleftrightarrow> m = n"
  by (metis dec_val_dec_pad)

lemma dec_inject [simp]: "dec m = dec n \<longleftrightarrow> m = n"
  by (metis dec_val_dec)

lemma digit_bounds: "d < 10 \<Longrightarrow> CHR ''0'' \<le> digit d \<and> digit d \<le> CHR ''9''"
  by (simp add: digit_def less_eq_char_def)

lemma set_dec: "set (dec n) \<subseteq> {c. CHR ''0'' \<le> c \<and> c \<le> CHR ''9''}"
proof (induction n rule: dec.induct)
  case (1 n)
  have "dec n = (if n < 10 then [digit n] else dec (n div 10) @ [digit (n mod 10)])"
    by (rule dec.simps)
  then show ?case using 1 digit_bounds [of n] digit_bounds [of "n mod 10"]
    by (cases "n < 10") auto
qed

lemma dec_not_Nil [simp]: "dec n \<noteq> []"
  by (subst dec.simps) simp

lemma set_dec_pad: "set (dec_pad w n) \<subseteq> {c. CHR ''0'' \<le> c \<and> c \<le> CHR ''9''}"
  using set_dec [of n] digit_bounds [of 0] by (auto simp: dec_pad_def split: if_splits)

lemma length_dec_pad: "w \<le> length (dec_pad w n)"
  by (simp add: dec_pad_def)

subsection \<open>White space and letter case\<close>

text \<open>
  \<^verbatim>\<open>str::trim\<close> strips the characters with the Unicode property White\_Space; they are
  listed by their UTF-8 encodings.
\<close>

definition white_space :: "string list" where
  "white_space =
     map (\<lambda>b. [char_of (b :: nat)]) [9, 10, 11, 12, 13, 32] @
     map (\<lambda>b. map char_of (b :: nat list))
       [[0xC2, 0x85], [0xC2, 0xA0], [0xE1, 0x9A, 0x80],
        [0xE2, 0x80, 0x80], [0xE2, 0x80, 0x81], [0xE2, 0x80, 0x82], [0xE2, 0x80, 0x83],
        [0xE2, 0x80, 0x84], [0xE2, 0x80, 0x85], [0xE2, 0x80, 0x86], [0xE2, 0x80, 0x87],
        [0xE2, 0x80, 0x88], [0xE2, 0x80, 0x89], [0xE2, 0x80, 0x8A], [0xE2, 0x80, 0xA8],
        [0xE2, 0x80, 0xA9], [0xE2, 0x80, 0xAF], [0xE2, 0x81, 0x9F], [0xE3, 0x80, 0x80]]"

definition strip_one :: "string list \<Rightarrow> string \<Rightarrow> string option" where
  "strip_one ws s =
     (case List.find (\<lambda>w. take (length w) s = w) ws of
        None \<Rightarrow> None
      | Some w \<Rightarrow> Some (drop (length w) s))"

function strip_all :: "string list \<Rightarrow> string \<Rightarrow> string" where
  "strip_all ws s =
     (case strip_one ws s of
        None \<Rightarrow> s
      | Some s' \<Rightarrow> if length s' < length s then strip_all ws s' else s)"
  by pat_completeness auto
termination strip_all
  by (relation "measure (\<lambda>(ws, s). length s)") auto

declare strip_all.simps [simp del]

definition trim_start :: "string \<Rightarrow> string" where
  "trim_start = strip_all white_space"

definition trim_end :: "string \<Rightarrow> string" where
  "trim_end s = rev (strip_all (map rev white_space) (rev s))"

definition trim :: "string \<Rightarrow> string" where
  "trim s = trim_end (trim_start s)"

text \<open>Texts of printable ASCII characters have nothing to trim.\<close>

definition printable :: "char set" where
  "printable = {c. 32 < (of_char c :: nat) \<and> (of_char c :: nat) < 128}"

lemma no_strip:
  assumes "\<forall>w \<in> set ws. w \<noteq> [] \<and> hd w \<notin> C" "s = [] \<or> hd s \<in> C"
  shows "strip_all ws s = s"
proof -
  have "take (length w) s \<noteq> w" if "w \<in> set ws" for w
  proof
    assume "take (length w) s = w"
    moreover have "w \<noteq> []" "hd w \<notin> C" using assms(1) that by auto
    ultimately show False using assms(2) by (cases s; cases w) auto
  qed
  then have "strip_one ws s = None"
    by (simp add: strip_one_def find_None_iff split: option.splits)
  then show ?thesis by (simp add: strip_all.simps [of ws s])
qed

lemma white_space_not_printable:
  "\<forall>w \<in> set white_space. w \<noteq> [] \<and> hd w \<notin> printable"
  "\<forall>w \<in> set (map rev white_space). w \<noteq> [] \<and> hd w \<notin> printable"
  by (simp_all add: white_space_def printable_def)

lemma trim_printable: "set s \<subseteq> printable \<Longrightarrow> trim s = s"
proof -
  assume s: "set s \<subseteq> printable"
  have h: "t = [] \<or> hd t \<in> printable" if "set t \<subseteq> printable" for t
    using that by (cases t) auto
  have "trim_start s = s" unfolding trim_start_def
    by (rule no_strip [OF white_space_not_printable(1) h [OF s]])
  moreover have "strip_all (map rev white_space) (rev s) = rev s"
    by (rule no_strip [OF white_space_not_printable(2) h]) (simp add: s)
  ultimately show ?thesis by (simp add: trim_def trim_end_def)
qed

definition ascii_lower_char :: "char \<Rightarrow> char" where
  "ascii_lower_char c =
     (let n = (of_char c :: nat) in if 65 \<le> n \<and> n \<le> 90 then char_of (n + 32) else c)"

definition to_ascii_lowercase :: "string \<Rightarrow> string" where
  "to_ascii_lowercase = map ascii_lower_char"

definition eq_ignore_ascii_case :: "string \<Rightarrow> string \<Rightarrow> bool" where
  "eq_ignore_ascii_case a b \<longleftrightarrow> to_ascii_lowercase a = to_ascii_lowercase b"

text \<open>\<^verbatim>\<open>char::is_control\<close> is the Unicode category Cc: U+0000--U+001F and U+007F--U+009F.\<close>

fun has_control :: "string \<Rightarrow> bool" where
  "has_control [] = False"
| "has_control (c # cs) =
     (let n = (of_char c :: nat) in
        n < 32 \<or> n = 127 \<or>
        (n = 0xC2 \<and> cs \<noteq> [] \<and> 0x80 \<le> (of_char (hd cs) :: nat) \<and> (of_char (hd cs) :: nat) \<le> 0x9F) \<or>
        has_control cs)"

section \<open>Finite maps\<close>

definition fm_keys :: "('k::linorder, 'v) fmap \<Rightarrow> 'k list" where
  "fm_keys m = sorted_list_of_fset (fmdom m)"

definition fm_entries :: "('k::linorder, 'v) fmap \<Rightarrow> ('k \<times> 'v) list" where
  "fm_entries m = map (\<lambda>k. (k, the (fmlookup m k))) (fm_keys m)"

definition fm_values :: "('k::linorder, 'v) fmap \<Rightarrow> 'v list" where
  "fm_values m = map snd (fm_entries m)"

definition fm_contains :: "('k, 'v) fmap \<Rightarrow> 'k \<Rightarrow> bool" where
  "fm_contains m k \<longleftrightarrow> fmlookup m k \<noteq> None"

definition fm_size :: "('k, 'v) fmap \<Rightarrow> nat" where
  "fm_size m = fcard (fmdom m)"

definition fmupd_all :: "('v \<Rightarrow> 'k) \<Rightarrow> 'v list \<Rightarrow> ('k, 'v) fmap \<Rightarrow> ('k, 'v) fmap" where
  "fmupd_all key vs m = fold (\<lambda>v. fmupd (key v) v) vs m"

definition fmdrop_list :: "'k list \<Rightarrow> ('k, 'v) fmap \<Rightarrow> ('k, 'v) fmap" where
  "fmdrop_list ks m = fold fmdrop ks m"

lemma fm_keys_code [code]: "fm_keys (fmap_of_list xs) = sort (remdups (map fst xs))"
proof -
  have "fset (fmdom (fmap_of_list xs)) = set (map fst xs)"
    by (simp add: fmdom_of_list fset_of_list.rep_eq)
  then show ?thesis
    by (simp add: fm_keys_def sorted_list_of_fset.rep_eq sorted_list_of_set_sort_remdups del: set_map)
qed

lemma set_fm_keys [simp]: "set (fm_keys m) = fset (fmdom m)"
  by (simp add: fm_keys_def)

lemma sorted_fm_keys [simp]: "sorted (fm_keys m)"
  and distinct_fm_keys [simp]: "distinct (fm_keys m)"
  by (simp_all add: fm_keys_def sorted_list_of_fset.rep_eq)

lemma map_fst_fm_entries [simp]: "map fst (fm_entries m) = fm_keys m"
  by (simp add: fm_entries_def comp_def)

lemma fm_entries_iff [simp]: "(k, v) \<in> set (fm_entries m) \<longleftrightarrow> fmlookup m k = Some v"
  by (auto simp: fm_entries_def fmlookup_dom_iff image_iff)

lemma distinct_fm_entries [simp]: "distinct (fm_entries m)"
  by (metis distinct_fm_keys distinct_map map_fst_fm_entries)

lemma set_fm_values: "v \<in> set (fm_values m) \<longleftrightarrow> (\<exists>k. fmlookup m k = Some v)"
  by (auto simp: fm_values_def image_iff Bex_def)

lemma length_fm_keys [simp]: "length (fm_keys m) = fm_size m"
  by (simp add: fm_keys_def fm_size_def sorted_list_of_fset.rep_eq fcard.rep_eq)

lemma fm_contains_iff: "fm_contains m k \<longleftrightarrow> k |\<in>| fmdom m"
  by (simp add: fm_contains_def fmlookup_dom_iff)

lemma fm_entries_of_sorted:
  assumes "sorted_wrt (<) (map fst es)"
  shows "fm_entries (fmap_of_list es) = es"
proof -
  have d: "distinct (map fst es)" and s: "sorted (map fst es)"
    using assms by (auto simp: strict_sorted_iff)
  have "fset (fmdom (fmap_of_list es)) = set (map fst es)"
    by (simp add: fmdom_of_list fset_of_list.rep_eq)
  then have "fm_keys (fmap_of_list es) = map fst es"
    by (simp add: fm_keys_def sorted_list_of_fset.rep_eq del: set_map)
      (metis d s sorted_distinct_set_unique sorted_list_of_set.distinct_sorted_key_list_of_set
        sorted_list_of_set.set_sorted_key_list_of_set sorted_list_of_set.sorted_sorted_key_list_of_set
        List.finite_set map_ident)
  moreover have "the (fmlookup (fmap_of_list es) k) = v" if "(k, v) \<in> set es" for k v
    using that d by (simp add: fmlookup_of_list)
  ultimately show ?thesis
    by (auto simp: fm_entries_def comp_def intro!: map_idI)
qed

lemma map_of_fm_entries: "map_of (fm_entries m) k = fmlookup m k"
proof (cases "fmlookup m k")
  case None
  then show ?thesis
    by (auto simp: map_of_eq_None_iff)
next
  case (Some v)
  have "distinct (map fst (fm_entries m))"
    by simp
  with Some show ?thesis
    by (simp add: map_of_eq_Some_iff)
qed

lemma fmap_of_list_fm_entries [simp]: "fmap_of_list (fm_entries m) = m"
  by (rule fmap_ext) (simp add: fmlookup_of_list map_of_fm_entries)

lemma fmlookup_fmupd_all:
  "fmlookup (fmupd_all key vs m) k =
     (case List.find (\<lambda>v. key v = k) (rev vs) of Some v \<Rightarrow> Some v | None \<Rightarrow> fmlookup m k)"
  by (induction vs rule: rev_induct) (auto simp: fmupd_all_def)

lemma fmlookup_fmdrop_list [simp]:
  "fmlookup (fmdrop_list ks m) k = (if k \<in> set ks then None else fmlookup m k)"
  by (induction ks arbitrary: m) (auto simp: fmdrop_list_def)

section \<open>Lists\<close>

lemma find_Some_key: "List.find P xs = Some x \<Longrightarrow> P x \<and> x \<in> set xs"
  by (metis find_Some_iff nth_mem)

lemma find_rev_None: "List.find P (rev xs) = None \<longleftrightarrow> (\<forall>x\<in>set xs. \<not> P x)"
  by (auto simp: find_None_iff)

end
