(* ===== verification/Json.thy ===== *)
theory Json
  imports Op_Prelude
begin

text \<open>
  The \<^verbatim>\<open>serde_json::Value\<close> documents carry, and the \<^verbatim>\<open>f64\<close> numbers they are compared as.
  An object is serde\_json's default map (a \<^verbatim>\<open>BTreeMap\<close>), an association list in ascending
  key order.
\<close>

section \<open>Floating point numbers\<close>

text \<open>
  A finite \<^verbatim>\<open>f64\<close> is a rational number; the two zeros are kept apart because they print
  differently.  Comparison is IEEE 754: the zeros are equal, NaN is unordered.
\<close>

datatype f64 = Fin rat | NegZero | PosInf | NegInf | NaN

fun f64_pos :: "f64 \<Rightarrow> (int \<times> rat) option" where
  "f64_pos (Fin q) = Some (0, q)"
| "f64_pos NegZero = Some (0, 0)"
| "f64_pos PosInf = Some (1, 0)"
| "f64_pos NegInf = Some (-1, 0)"
| "f64_pos NaN = None"

definition f64_partial_cmp :: "f64 \<Rightarrow> f64 \<Rightarrow> ordering option" where
  "f64_partial_cmp a b =
     (case (f64_pos a, f64_pos b) of (Some p, Some q) \<Rightarrow> Some (cmp_of p q) | _ \<Rightarrow> None)"

definition f64_eq :: "f64 \<Rightarrow> f64 \<Rightarrow> bool" where
  "f64_eq a b \<longleftrightarrow> f64_partial_cmp a b = Some Equal"

definition f64_finite :: "f64 \<Rightarrow> bool" where
  "f64_finite x \<longleftrightarrow> (case x of Fin _ \<Rightarrow> True | NegZero \<Rightarrow> True | _ \<Rightarrow> False)"

text \<open>The integer to \<^verbatim>\<open>f64\<close> conversion rounds to 53 significant bits, ties to even.\<close>

fun bit_len :: "nat \<Rightarrow> nat" where
  "bit_len n = (if n = 0 then 0 else Suc (bit_len (n div 2)))"

declare bit_len.simps [simp del]

definition round53 :: "nat \<Rightarrow> nat" where
  "round53 n =
     (if n < 2 ^ 53 then n
      else let k = bit_len n - 53; q = n div 2 ^ k; r = n mod 2 ^ k; h = 2 ^ (k - 1)
           in if h < r \<or> (r = h \<and> odd q) then (q + 1) * 2 ^ k else q * 2 ^ k)"

definition f64_of_nat :: "nat \<Rightarrow> f64" where
  "f64_of_nat n = Fin (of_nat (round53 n))"

definition f64_of_int :: "int \<Rightarrow> f64" where
  "f64_of_int i = Fin (if i < 0 then - of_nat (round53 (nat (- i))) else of_nat (round53 (nat i)))"

definition f64_of_bool :: "bool \<Rightarrow> f64" where
  "f64_of_bool b = (if b then Fin 1 else Fin 0)"

section \<open>Values\<close>

datatype num = PosInt nat | NegInt int | Float f64

fun num_as_f64 :: "num \<Rightarrow> f64" where
  "num_as_f64 (PosInt n) = f64_of_nat n"
| "num_as_f64 (NegInt i) = f64_of_int i"
| "num_as_f64 (Float x) = x"

datatype json =
    JNull
  | JBool bool
  | JNumber num
  | JString string
  | JArray "json list"
  | JObject "(string \<times> json) list"

type_synonym attrs = "(string, json) fmap"

fun as_str :: "json \<Rightarrow> string option" where
  "as_str (JString s) = Some s"
| "as_str _ = None"

fun as_bool :: "json \<Rightarrow> bool option" where
  "as_bool (JBool b) = Some b"
| "as_bool _ = None"

fun as_f64 :: "json \<Rightarrow> f64 option" where
  "as_f64 (JNumber n) = Some (num_as_f64 n)"
| "as_f64 _ = None"

fun as_array :: "json \<Rightarrow> json list option" where
  "as_array (JArray a) = Some a"
| "as_array _ = None"

fun as_object :: "json \<Rightarrow> (string \<times> json) list option" where
  "as_object (JObject obj) = Some obj"
| "as_object _ = None"

definition jget :: "string \<Rightarrow> (string \<times> json) list \<Rightarrow> json option" where
  "jget k obj = map_of obj k"

text \<open>\<^verbatim>\<open>Map::insert\<close>: the entry keeps its place in key order.\<close>

fun jinsert :: "string \<Rightarrow> json \<Rightarrow> (string \<times> json) list \<Rightarrow> (string \<times> json) list" where
  "jinsert k v [] = [(k, v)]"
| "jinsert k v ((k', v') # rest) =
     (if k < k' then (k, v) # (k', v') # rest
      else if k = k' then (k, v) # rest
      else (k', v') # jinsert k v rest)"

definition obj_ok :: "(string \<times> json) list \<Rightarrow> bool" where
  "obj_ok obj \<longleftrightarrow> sorted_wrt (<) (map fst obj)"

lemma jget_jinsert: "obj_ok obj \<Longrightarrow> jget k (jinsert k' v obj) = (if k = k' then Some v else jget k obj)"
  by (induction k' v obj rule: jinsert.induct) (auto simp: jget_def obj_ok_def)

lemma fst_jinsert: "fst ` set (jinsert k v obj) = insert k (fst ` set obj)"
  by (induction k v obj rule: jinsert.induct) auto

lemma obj_ok_jinsert: "obj_ok obj \<Longrightarrow> obj_ok (jinsert k v obj)"
proof (induction k v obj rule: jinsert.induct)
  case (2 k v k' v' rest)
  have "\<forall>x \<in> fst ` set (jinsert k v rest). k' < x" if "k' < k" "obj_ok ((k', v') # rest)"
    using that by (simp add: fst_jinsert) (auto simp: obj_ok_def)
  then show ?case using 2 by (auto simp: obj_ok_def)
qed (simp add: obj_ok_def)

section \<open>Comparison laws\<close>

lemma f64_partial_cmp_Some: "f64_partial_cmp a b = Some r \<Longrightarrow> a \<noteq> NaN \<and> b \<noteq> NaN"
  by (cases a; cases b) (auto simp: f64_partial_cmp_def)

lemma f64_eq_refl [simp]: "f64_eq a a \<longleftrightarrow> a \<noteq> NaN"
  by (cases a) (auto simp: f64_eq_def f64_partial_cmp_def)

lemma f64_eq_Fin [simp]: "f64_eq (Fin p) (Fin q) \<longleftrightarrow> p = q"
  by (simp add: f64_eq_def f64_partial_cmp_def)

lemma f64_partial_cmp_Fin [simp]: "f64_partial_cmp (Fin p) (Fin q) = Some (cmp_of p q)"
  by (simp add: f64_partial_cmp_def cmp_of_def)

lemma f64_eq_sym: "f64_eq a b \<longleftrightarrow> f64_eq b a"
  by (auto simp: f64_eq_def f64_partial_cmp_def split: option.splits)

lemma f64_eq_pos: "f64_eq a b \<longleftrightarrow> f64_pos a \<noteq> None \<and> f64_pos a = f64_pos b"
  by (auto simp: f64_eq_def f64_partial_cmp_def split: option.splits)

end
