(* ===== verification/Models.thy ===== *)
theory Models
  imports Json
begin

text \<open>
  The data types the components share (\<^verbatim>\<open>src/models.rs\<close>), the error values the fallible
  operations return, and the validation of document ids.
\<close>

section \<open>Errors\<close>

text \<open>
  An \<^verbatim>\<open>anyhow::Error\<close> is inspected by the code in two ways only: \<^verbatim>\<open>is_corrupt_error\<close> asks for
  a \<^verbatim>\<open>WalCorrupt\<close>, and the S3 layer asks for an error code.  Every other error is the text of
  its \<^verbatim>\<open>anyhow!\<close> or \<^verbatim>\<open>context\<close>.
\<close>

datatype corrupt_reason =
    EmptySegment
  | TruncatedV1 nat
  | CrcMismatch "32 word" "32 word"
  | PayloadDecode
  | LegacyDecode

datatype s3_error = PreconditionFailed | NoSuchKey | NotFound | NoSuchBucket | OtherS3 string

datatype error =
    WalCorrupt "u64 option" corrupt_reason
  | S3Failed s3_error
  | ErrMsg string

type_synonym 'a res = "error + 'a"

section \<open>Constants and documents\<close>

definition ROOT_PREFIX :: string where
  "ROOT_PREFIX = ''openpuffer/''"

definition MAX_DOC_ID_BYTES :: nat where
  "MAX_DOC_ID_BYTES = 255"

definition validate_doc_id :: "string \<Rightarrow> string + unit" where
  "validate_doc_id i =
     (if i = [] then Inl ''document id must not be empty''
      else if MAX_DOC_ID_BYTES < length i then Inl ''document id exceeds maximum length of 255 bytes''
      else if CHR ''/'' \<in> set i \<or> char_of (92 :: nat) \<in> set i \<or> char_of (0 :: nat) \<in> set i
        then Inl ''document id must not contain path separators or null bytes''
      else Inr ())"

record document =
  doc_id :: string
  attributes :: attrs

type_synonym docs = "(string, document) fmap"

definition namespace_prefix :: "string \<Rightarrow> string" where
  "namespace_prefix ns = ROOT_PREFIX @ ns @ ''/''"

text \<open>A document map is keyed by the documents' own ids.\<close>

definition docs_ok :: "docs \<Rightarrow> bool" where
  "docs_ok m \<longleftrightarrow> fmpred (\<lambda>k d. doc_id d = k) m"

section \<open>Write statistics\<close>

record write_stats =
  rows_upserted :: u64
  rows_patched :: u64
  rows_deleted :: u64
  upserted_ids :: "string list option"
  deleted_ids :: "string list option"
  rows_remaining :: "bool option"

definition rows_affected :: "write_stats \<Rightarrow> u64" where
  "rows_affected s = rows_upserted s + rows_patched s + rows_deleted s"

definition sat_mul :: "u64 \<Rightarrow> u64 \<Rightarrow> u64" where
  "sat_mul a b = min (a * b) u64_max"

definition stats_billable_logical_bytes_written :: "write_stats \<Rightarrow> u64" where
  "stats_billable_logical_bytes_written s = sat_mul (rows_affected s) 64"

lemma docs_ok_iff: "docs_ok m \<longleftrightarrow> (\<forall>k d. fmlookup m k = Some d \<longrightarrow> doc_id d = k)"
  by (auto simp: docs_ok_def fmpred_iff)

lemma docs_ok_empty [simp]: "docs_ok fmempty"
  by (simp add: docs_ok_iff)

lemma docs_ok_fmupd [simp]: "docs_ok m \<Longrightarrow> docs_ok (fmupd (doc_id d) d m)"
  by (simp add: docs_ok_iff)

lemma docs_ok_fmdrop_list [simp]: "docs_ok m \<Longrightarrow> docs_ok (fmdrop_list ks m)"
  by (simp add: docs_ok_iff)

lemma docs_ok_fmupd_all [simp]: "docs_ok m \<Longrightarrow> docs_ok (fmupd_all doc_id ds m)"
  by (induction ds arbitrary: m) (simp_all add: fmupd_all_def)

end
