(* ===== verification/Wal.thy ===== *)
theory Wal
  imports Models
begin

text \<open>
  The write-ahead log (\<^verbatim>\<open>src/wal.rs\<close>): the entry format and its CRC framing, the corruption
  policy, the application of an entry to a document map, and the delta the indexer takes from
  a range of entries.

  bincode, serde\_json's text format and crc32fast are third-party code: they are the fields
  of a \<open>codec\<close> record that every operation takes, and the laws the proofs rely on are the
  assumptions of the locale \<open>wal_codec\<close>.
\<close>

unbundle bit_operations_syntax

section \<open>Entries\<close>

record wal_upsert =
  wu_id :: string
  wu_attributes :: bytes

record wal_patch =
  wp_id :: string
  wp_attributes :: bytes

record wal_entry =
  upserts :: "wal_upsert list"
  patches :: "wal_patch list"
  deletes :: "string list"

record wal_snapshot =
  snap_seq :: u64
  snap_docs :: "document list"

text \<open>A serialiser may fail (\<^verbatim>\<open>None\<close>), a parser rejects malformed input.\<close>

record codec =
  attrs_to_vec :: "attrs \<Rightarrow> bytes option"
  attrs_from_slice :: "bytes \<Rightarrow> attrs option"
  entry_serialize :: "wal_entry \<Rightarrow> bytes option"
  entry_deserialize :: "bytes \<Rightarrow> wal_entry option"
  snapshot_to_vec :: "wal_snapshot \<Rightarrow> bytes option"
  snapshot_from_slice :: "bytes \<Rightarrow> wal_snapshot option"
  crc32 :: "bytes \<Rightarrow> 32 word"

definition document_to_upsert :: "'z codec_scheme \<Rightarrow> document \<Rightarrow> wal_upsert res" where
  "document_to_upsert cd d =
     (case attrs_to_vec cd (attributes d) of
        None \<Rightarrow> Inl (ErrMsg ''encode attributes'')
      | Some b \<Rightarrow> Inr \<lparr>wu_id = doc_id d, wu_attributes = b\<rparr>)"

definition document_to_patch :: "'z codec_scheme \<Rightarrow> document \<Rightarrow> wal_patch res" where
  "document_to_patch cd d =
     (case attrs_to_vec cd (attributes d) of
        None \<Rightarrow> Inl (ErrMsg ''encode patch attributes'')
      | Some b \<Rightarrow> Inr \<lparr>wp_id = doc_id d, wp_attributes = b\<rparr>)"

definition wal_upsert_to_document :: "'z codec_scheme \<Rightarrow> wal_upsert \<Rightarrow> document res" where
  "wal_upsert_to_document cd u =
     (case attrs_from_slice cd (wu_attributes u) of
        None \<Rightarrow> Inl (ErrMsg ''decode attributes'')
      | Some a \<Rightarrow> Inr \<lparr>doc_id = wu_id u, attributes = a\<rparr>)"

definition wal_patch_to_document :: "'z codec_scheme \<Rightarrow> wal_patch \<Rightarrow> document res" where
  "wal_patch_to_document cd p =
     (case attrs_from_slice cd (wp_attributes p) of
        None \<Rightarrow> Inl (ErrMsg ''decode patch attributes'')
      | Some a \<Rightarrow> Inr \<lparr>doc_id = wp_id p, attributes = a\<rparr>)"

definition from_write ::
  "'z codec_scheme \<Rightarrow> document list \<Rightarrow> document list \<Rightarrow> string list \<Rightarrow> wal_entry res" where
  "from_write cd ups pats dels =
     (case traverse (document_to_upsert cd) ups of
        Inl e \<Rightarrow> Inl e
      | Inr us \<Rightarrow>
         (case traverse (document_to_patch cd) pats of
            Inl e \<Rightarrow> Inl e
          | Inr ps \<Rightarrow> Inr \<lparr>upserts = us, patches = ps, deletes = dels\<rparr>))"

definition into_documents :: "'z codec_scheme \<Rightarrow> wal_entry \<Rightarrow> document list res" where
  "into_documents cd e = traverse (wal_upsert_to_document cd) (upserts e)"

definition patch_documents :: "'z codec_scheme \<Rightarrow> wal_entry \<Rightarrow> document list res" where
  "patch_documents cd e = traverse (wal_patch_to_document cd) (patches e)"

definition merge_document_attributes :: "document \<Rightarrow> document \<Rightarrow> document" where
  "merge_document_attributes d p =
     d\<lparr>attributes := fold (\<lambda>(k, v). fmupd k v) (fm_entries (attributes p)) (attributes d)\<rparr>"

section \<open>Object keys\<close>

definition wal_key :: "string \<Rightarrow> u64 \<Rightarrow> string" where
  "wal_key ns s = ROOT_PREFIX @ ns @ ''/wal/'' @ dec_pad 8 s @ ''.bin''"

definition snapshot_key :: "string \<Rightarrow> string" where
  "snapshot_key ns = ROOT_PREFIX @ ns @ ''/wal/snapshot.bin''"

section \<open>Snapshots\<close>

definition snapshot_from_docs :: "u64 \<Rightarrow> docs \<Rightarrow> wal_snapshot" where
  "snapshot_from_docs s docs = \<lparr>snap_seq = s, snap_docs = fm_values docs\<rparr>"

definition snapshot_into_docs :: "wal_snapshot \<Rightarrow> docs" where
  "snapshot_into_docs snap = fmupd_all doc_id (snap_docs snap) fmempty"

definition encode_snapshot :: "'z codec_scheme \<Rightarrow> wal_snapshot \<Rightarrow> bytes res" where
  "encode_snapshot cd snap =
     (case snapshot_to_vec cd snap of
        None \<Rightarrow> Inl (ErrMsg ''encode WalSnapshot'') | Some b \<Rightarrow> Inr b)"

definition decode_snapshot :: "'z codec_scheme \<Rightarrow> bytes \<Rightarrow> wal_snapshot res" where
  "decode_snapshot cd b =
     (case snapshot_from_slice cd b of
        None \<Rightarrow> Inl (ErrMsg ''decode WalSnapshot'') | Some snap \<Rightarrow> Inr snap)"

section \<open>Framing\<close>

definition WAL_FORMAT_CRC32 :: byte where
  "WAL_FORMAT_CRC32 = 1"

definition CRC32_TRAILER_LEN :: nat where
  "CRC32_TRAILER_LEN = 4"

definition to_le_bytes :: "32 word \<Rightarrow> bytes" where
  "to_le_bytes w = [ucast w, ucast (drop_bit 8 w), ucast (drop_bit 16 w), ucast (drop_bit 24 w)]"

fun from_le_bytes :: "bytes \<Rightarrow> 32 word" where
  "from_le_bytes [] = 0"
| "from_le_bytes (b # bs) = ucast b OR push_bit 8 (from_le_bytes bs)"

datatype wal_corrupt_policy = Fail | Skip

definition policy_from_env_str :: "string \<Rightarrow> wal_corrupt_policy" where
  "policy_from_env_str s = (if to_ascii_lowercase (trim s) = ''skip'' then Skip else Fail)"

definition is_corrupt_error :: "error \<Rightarrow> bool" where
  "is_corrupt_error e \<longleftrightarrow> (case e of WalCorrupt _ _ \<Rightarrow> True | _ \<Rightarrow> False)"

definition encode :: "'z codec_scheme \<Rightarrow> wal_entry \<Rightarrow> bytes res" where
  "encode cd e =
     (case entry_serialize cd e of
        None \<Rightarrow> Inl (ErrMsg ''encode WalEntry payload'')
      | Some payload \<Rightarrow> Inr (WAL_FORMAT_CRC32 # payload @ to_le_bytes (crc32 cd payload)))"

definition decode_crc32_format :: "'z codec_scheme \<Rightarrow> bytes \<Rightarrow> u64 option \<Rightarrow> wal_entry res" where
  "decode_crc32_format cd b s =
     (if length b < 1 + CRC32_TRAILER_LEN + 1 then Inl (WalCorrupt s (TruncatedV1 (length b)))
      else let payload = take (length b - CRC32_TRAILER_LEN - 1) (drop 1 b);
               stored_crc = from_le_bytes (drop (length b - CRC32_TRAILER_LEN) b);
               computed_crc = crc32 cd payload
           in if stored_crc \<noteq> computed_crc then Inl (WalCorrupt s (CrcMismatch stored_crc computed_crc))
              else (case entry_deserialize cd payload of
                      None \<Rightarrow> Inl (WalCorrupt s PayloadDecode) | Some e \<Rightarrow> Inr e))"

definition decode_segment :: "'z codec_scheme \<Rightarrow> bytes \<Rightarrow> u64 option \<Rightarrow> wal_entry res" where
  "decode_segment cd b s =
     (if b = [] then Inl (WalCorrupt s EmptySegment)
      else if hd b = WAL_FORMAT_CRC32 \<and> 1 + CRC32_TRAILER_LEN < length b
        then (case decode_crc32_format cd b s of
                Inr e \<Rightarrow> Inr e
              | Inl err \<Rightarrow>
                  if is_corrupt_error err
                  then (case entry_deserialize cd b of Some e \<Rightarrow> Inr e | None \<Rightarrow> Inl err)
                  else Inl err)
      else (case entry_deserialize cd b of
              Some e \<Rightarrow> Inr e | None \<Rightarrow> Inl (WalCorrupt s LegacyDecode)))"

definition decode :: "'z codec_scheme \<Rightarrow> bytes \<Rightarrow> wal_entry res" where
  "decode cd b = decode_segment cd b None"

definition decode_segment_with_policy ::
  "'z codec_scheme \<Rightarrow> bytes \<Rightarrow> u64 \<Rightarrow> wal_corrupt_policy \<Rightarrow> wal_entry option res" where
  "decode_segment_with_policy cd b s policy =
     (case decode_segment cd b (Some s) of
        Inr e \<Rightarrow> Inr (Some e)
      | Inl err \<Rightarrow>
          if is_corrupt_error err
          then (case policy of Fail \<Rightarrow> Inl err | Skip \<Rightarrow> Inr None)
          else Inl err)"

section \<open>Application\<close>

text \<open>
  \<^verbatim>\<open>apply_entry\<close> mutates the map it is given; when a later phase fails the earlier phases
  stay applied, so the model returns the map together with the result.
\<close>

definition patch_doc :: "document \<Rightarrow> docs \<Rightarrow> docs" where
  "patch_doc p docs =
     (case fmlookup docs (doc_id p) of
        None \<Rightarrow> docs
      | Some d \<Rightarrow> fmupd (doc_id p) (merge_document_attributes d p) docs)"

definition apply_entry :: "'z codec_scheme \<Rightarrow> docs \<Rightarrow> wal_entry \<Rightarrow> docs \<times> unit res" where
  "apply_entry cd docs e =
     (let d1 = fmdrop_list (deletes e) docs in
      case into_documents cd e of
        Inl err \<Rightarrow> (d1, Inl err)
      | Inr ups \<Rightarrow>
         (let d2 = fmupd_all doc_id ups d1 in
          case patch_documents cd e of
            Inl err \<Rightarrow> (d2, Inl err)
          | Inr pats \<Rightarrow> (fold patch_doc pats d2, Inr ())))"

text \<open>Returns the advanced baseline and, on success, the upserts and deletes of the range.\<close>

fun collect_delta_loop ::
  "'z codec_scheme \<Rightarrow> docs \<Rightarrow> docs \<Rightarrow> string list \<Rightarrow> wal_entry list \<Rightarrow>
   docs \<times> ((string \<times> document) list \<times> string list) res" where
  "collect_delta_loop cd baseline ups dels [] = (baseline, Inr (fm_entries ups, dels))"
| "collect_delta_loop cd baseline ups dels (e # es) =
     (let dels' = dels @ deletes e;
          ids = map wu_id (upserts e) @ map wp_id (patches e)
      in case apply_entry cd baseline e of
           (baseline', Inl err) \<Rightarrow> (baseline', Inl err)
         | (baseline', Inr _) \<Rightarrow>
             collect_delta_loop cd baseline'
               (fold (\<lambda>i m. case fmlookup baseline' i of None \<Rightarrow> m | Some d \<Rightarrow> fmupd i d m) ids ups)
               dels' es)"

definition collect_index_delta ::
  "'z codec_scheme \<Rightarrow> docs \<Rightarrow> wal_entry list \<Rightarrow>
   docs \<times> ((string \<times> document) list \<times> string list) res" where
  "collect_index_delta cd baseline es = collect_delta_loop cd baseline fmempty [] es"

section \<open>Specification of an entry's effect\<close>

text \<open>
  What an entry means once its rows are decoded, and its effect on one id: a delete drops the
  document, the last upsert of the id replaces it, and the patches of the id are merged in
  order into the document that is then there.
\<close>

record batch =
  b_upserts :: "document list"
  b_patches :: "document list"
  b_deletes :: "string list"

definition apply_batch :: "docs \<Rightarrow> batch \<Rightarrow> docs" where
  "apply_batch docs b =
     fold patch_doc (b_patches b) (fmupd_all doc_id (b_upserts b) (fmdrop_list (b_deletes b) docs))"

definition decodes_to :: "'z codec_scheme \<Rightarrow> wal_entry \<Rightarrow> batch \<Rightarrow> bool" where
  "decodes_to cd e b \<longleftrightarrow>
     into_documents cd e = Inr (b_upserts b) \<and> patch_documents cd e = Inr (b_patches b) \<and>
     deletes e = b_deletes b"

definition merge_attrs :: "document \<Rightarrow> document \<Rightarrow> document" where
  "merge_attrs p d = d\<lparr>attributes := attributes d ++\<^sub>f attributes p\<rparr>"

definition row_after :: "batch \<Rightarrow> string \<Rightarrow> document option \<Rightarrow> document option" where
  "row_after b k cur =
     map_option (fold merge_attrs (filter (\<lambda>p. doc_id p = k) (b_patches b)))
       (case List.find (\<lambda>d. doc_id d = k) (rev (b_upserts b)) of
          Some d \<Rightarrow> Some d
        | None \<Rightarrow> if k \<in> set (b_deletes b) then None else cur)"

locale wal_codec =
  fixes cd :: "'z codec_scheme"
  assumes attrs_rt: "attrs_to_vec cd a = Some ab \<Longrightarrow> attrs_from_slice cd ab = Some a"
    and entry_rt: "entry_serialize cd e = Some eb \<Longrightarrow> entry_deserialize cd eb = Some e"
    and entry_len: "entry_serialize cd e = Some eb \<Longrightarrow> 24 \<le> length eb"
    and snapshot_rt: "snapshot_to_vec cd sn = Some sb \<Longrightarrow> snapshot_from_slice cd sb = Some sn"

section \<open>Applying entries\<close>

lemma fold_fmupd_entries:
  "distinct (map fst es) \<Longrightarrow>
   fmlookup (fold (\<lambda>(k, v). fmupd k v) es m) k =
     (case map_of es k of Some v \<Rightarrow> Some v | None \<Rightarrow> fmlookup m k)"
proof (induction es arbitrary: m)
  case (Cons x es)
  then show ?case
    by (cases x; cases "map_of es k")
      (auto simp: map_of_eq_None_iff [symmetric] dest: map_of_SomeD)
qed simp

lemma merge_document_attributes_eq: "merge_document_attributes d p = merge_attrs p d"
proof -
  have "fold (\<lambda>(k, v). fmupd k v) (fm_entries (attributes p)) (attributes d) =
        attributes d ++\<^sub>f attributes p"
    by (rule fmap_ext)
      (auto simp: fold_fmupd_entries map_of_fm_entries fmlookup_dom_iff split: option.splits)
  then show ?thesis
    by (simp add: merge_document_attributes_def merge_attrs_def)
qed

lemma doc_id_merge_attrs [simp]: "doc_id (merge_attrs p d) = doc_id d"
  by (simp add: merge_attrs_def)

lemma lookup_patch_doc:
  "fmlookup (patch_doc p m) k =
     (if doc_id p = k then map_option (merge_attrs p) (fmlookup m k) else fmlookup m k)"
  by (auto simp: patch_doc_def merge_document_attributes_eq split: option.splits)

lemma lookup_fold_patch_doc:
  "fmlookup (fold patch_doc ps m) k =
     map_option (fold merge_attrs (filter (\<lambda>p. doc_id p = k) ps)) (fmlookup m k)"
  by (induction ps arbitrary: m) (auto simp: lookup_patch_doc option.map_comp comp_def option.map_id)

lemma lookup_apply_batch: "fmlookup (apply_batch m b) k = row_after b k (fmlookup m k)"
  by (simp add: apply_batch_def row_after_def lookup_fold_patch_doc fmlookup_fmupd_all
      split: option.splits)

lemma apply_entry_batch: "decodes_to cd e b \<Longrightarrow> apply_entry cd m e = (apply_batch m b, Inr ())"
  by (simp add: apply_entry_def apply_batch_def decodes_to_def)

lemma docs_ok_patch_doc [simp]: "docs_ok m \<Longrightarrow> docs_ok (patch_doc p m)"
  by (auto simp: docs_ok_iff lookup_patch_doc)

lemma docs_ok_fold_patch_doc [simp]: "docs_ok m \<Longrightarrow> docs_ok (fold patch_doc ps m)"
  by (induction ps arbitrary: m) auto

lemma docs_ok_apply_batch [simp]: "docs_ok m \<Longrightarrow> docs_ok (apply_batch m b)"
  by (simp add: apply_batch_def)

lemma docs_ok_apply_entry: "docs_ok m \<Longrightarrow> docs_ok (fst (apply_entry cd m e))"
  by (auto simp: apply_entry_def Let_def split: sum.splits)

lemma snapshot_docs_inverse:
  assumes "docs_ok m"
  shows "snapshot_into_docs (snapshot_from_docs s m) = m"
proof (rule fmap_ext)
  fix k
  show "fmlookup (snapshot_into_docs (snapshot_from_docs s m)) k = fmlookup m k"
  proof (cases "List.find (\<lambda>v. doc_id v = k) (rev (fm_values m))")
    case None
    have "fmlookup m k \<noteq> Some d" for d
    proof
      assume a: "fmlookup m k = Some d"
      then have "d \<in> set (fm_values m)" "doc_id d = k"
        using assms by (auto simp: set_fm_values docs_ok_iff)
      with None show False by (simp add: find_rev_None)
    qed
    then have "fmlookup m k = None" by blast
    with None show ?thesis
      by (simp add: snapshot_into_docs_def snapshot_from_docs_def fmlookup_fmupd_all)
  next
    case (Some d)
    then have "doc_id d = k" "\<exists>j. fmlookup m j = Some d"
      by (auto dest: find_Some_key simp: set_fm_values)
    then have "fmlookup m k = Some d"
      using assms by (auto simp: docs_ok_iff)
    with Some show ?thesis
      by (simp add: snapshot_into_docs_def snapshot_from_docs_def fmlookup_fmupd_all)
  qed
qed

section \<open>Framing and corruption\<close>

lemma low_byte_split: "ucast (ucast w :: byte) OR push_bit 8 (drop_bit 8 w) = (w :: 32 word)"
proof (rule bit_word_eqI)
  fix n :: nat
  have "8 + (n - 8) = n" if "\<not> n < 8"
    using that by arith
  then show "bit (ucast (ucast w :: byte) OR push_bit 8 (drop_bit 8 w)) n \<longleftrightarrow> bit w n"
    if "n < LENGTH(32)"
    using that by (cases "n < 8") (auto simp: bit_simps)
qed

lemma high_byte: "ucast (ucast (drop_bit 24 w) :: byte) = drop_bit 24 (w :: 32 word)"
  by (rule bit_word_eqI) (auto simp: bit_simps dest: bit_imp_le_length)

lemma from_le_bytes_to_le_bytes [simp]: "from_le_bytes (to_le_bytes w) = w"
  using low_byte_split [of w] low_byte_split [of "drop_bit 8 w"] low_byte_split [of "drop_bit 16 w"]
  by (simp add: to_le_bytes_def high_byte)

lemma to_le_bytes_four: "to_le_bytes (from_le_bytes [a, b, c, d]) = [a, b, c, d]"
  unfolding to_le_bytes_def list.inject from_le_bytes.simps
  by (intro conjI bit_word_eqI) (auto simp: bit_simps dest: bit_imp_le_length)

lemma to_le_bytes_from_le_bytes: "length t = 4 \<Longrightarrow> to_le_bytes (from_le_bytes t) = t"
proof -
  assume "length t = 4"
  then have "\<exists>a b c d. t = [a, b, c, d]"
    by (auto simp: length_Suc_conv numeral_eq_Suc)
  then show "to_le_bytes (from_le_bytes t) = t"
    by (elim exE) (simp only: to_le_bytes_four)
qed

lemma length_to_le_bytes [simp]: "length (to_le_bytes w) = 4"
  by (simp add: to_le_bytes_def)

text \<open>
  Decoding of a frame with the version byte: the payload is accepted when its CRC matches and
  it deserialises; otherwise the whole object is tried as a legacy segment.
\<close>

lemma decode_crc32_frame:
  assumes "p \<noteq> []" "length t = 4"
  shows "decode_crc32_format cd (v # p @ t) s =
    (if from_le_bytes t \<noteq> crc32 cd p then Inl (WalCorrupt s (CrcMismatch (from_le_bytes t) (crc32 cd p)))
     else case entry_deserialize cd p of None \<Rightarrow> Inl (WalCorrupt s PayloadDecode) | Some e \<Rightarrow> Inr e)"
proof -
  have "4 - length t = 0" "length p \<noteq> 0" using assms by simp_all
  then show ?thesis
    using assms by (simp add: decode_crc32_format_def CRC32_TRAILER_LEN_def Let_def)
qed

lemma decode_segment_frame:
  assumes "p \<noteq> []" "length t = 4"
  shows "decode_segment cd (WAL_FORMAT_CRC32 # p @ t) s =
    (case decode_crc32_format cd (WAL_FORMAT_CRC32 # p @ t) s of
       Inr e \<Rightarrow> Inr e
     | Inl err \<Rightarrow> (case entry_deserialize cd (WAL_FORMAT_CRC32 # p @ t) of Some e \<Rightarrow> Inr e | None \<Rightarrow> Inl err))"
  using assms
  by (simp add: decode_segment_def CRC32_TRAILER_LEN_def decode_crc32_frame is_corrupt_error_def
      split: option.splits)

lemma decode_segment_corrupt_error: "decode_segment cd b s = Inl err \<Longrightarrow> \<exists>r. err = WalCorrupt s r"
  by (auto simp: decode_segment_def decode_crc32_format_def Let_def split: if_splits option.splits sum.splits)

lemma decode_segment_with_policy_cases:
  "decode_segment_with_policy cd b s policy =
     (case decode_segment cd b (Some s) of
        Inr e \<Rightarrow> Inr (Some e)
      | Inl err \<Rightarrow> (case policy of Fail \<Rightarrow> Inl err | Skip \<Rightarrow> Inr None))"
  by (auto simp: decode_segment_with_policy_def is_corrupt_error_def split: sum.splits
      dest!: decode_segment_corrupt_error)

context wal_codec
begin

lemma decode_segment_encode: "encode cd e = Inr b \<Longrightarrow> decode_segment cd b s = Inr e"
proof -
  assume "encode cd e = Inr b"
  then obtain p where p: "entry_serialize cd e = Some p"
    and b: "b = WAL_FORMAT_CRC32 # p @ to_le_bytes (crc32 cd p)"
    by (auto simp: encode_def split: option.splits)
  have "p \<noteq> []" using entry_len [OF p] by auto
  then show ?thesis
    by (simp add: b decode_segment_frame decode_crc32_frame entry_rt [OF p])
qed

lemma upserts_rt: "traverse (document_to_upsert cd) ds = Inr us \<Longrightarrow> traverse (wal_upsert_to_document cd) us = Inr ds"
  by (induction ds arbitrary: us)
    (auto simp: document_to_upsert_def wal_upsert_to_document_def attrs_rt split: sum.splits option.splits)

lemma patches_rt: "traverse (document_to_patch cd) ds = Inr us \<Longrightarrow> traverse (wal_patch_to_document cd) us = Inr ds"
  by (induction ds arbitrary: us)
    (auto simp: document_to_patch_def wal_patch_to_document_def attrs_rt split: sum.splits option.splits)

lemma from_write_decodes:
  "from_write cd ups pats dels = Inr e \<Longrightarrow>
   decodes_to cd e \<lparr>b_upserts = ups, b_patches = pats, b_deletes = dels\<rparr>"
  by (auto simp: from_write_def decodes_to_def into_documents_def patch_documents_def
      upserts_rt patches_rt split: sum.splits)

lemma decode_encode_snapshot: "encode_snapshot cd sn = Inr b \<Longrightarrow> decode_snapshot cd b = Inr sn"
  by (auto simp: encode_snapshot_def decode_snapshot_def snapshot_rt split: option.splits)

end

section \<open>Object keys do not collide\<close>

lemma wal_key_inject: "wal_key ns s = wal_key ns s' \<longleftrightarrow> s = s'"
  by (simp add: wal_key_def)

lemma wal_key_neq_snapshot [simp]: "wal_key ns s \<noteq> snapshot_key ns" "snapshot_key ns \<noteq> wal_key ns s"
proof -
  have "dec_pad 8 s @ ''.bin'' \<noteq> ''snapshot.bin''"
  proof
    assume "dec_pad 8 s @ ''.bin'' = ''snapshot.bin''"
    then have "dec_pad 8 s = ''snapshot''" by simp
    then have "CHR ''s'' \<in> set (dec_pad 8 s)" by simp
    then show False using set_dec_pad [of 8 s] by (auto simp: less_eq_char_def)
  qed
  then show "wal_key ns s \<noteq> snapshot_key ns" "snapshot_key ns \<noteq> wal_key ns s"
    by (auto simp: wal_key_def snapshot_key_def)
qed

section \<open>Index deltas\<close>

text \<open>
  The indexes consume a delta by removing the deletes and then adding the upserts;
  \<open>delta_row\<close> is the document they end up with for an id.
\<close>

definition delta_row :: "docs \<Rightarrow> docs \<Rightarrow> string list \<Rightarrow> string \<Rightarrow> document option" where
  "delta_row old ups dels k =
     (case fmlookup ups k of
        Some d \<Rightarrow> Some d
      | None \<Rightarrow> if k \<in> set dels then None else fmlookup old k)"

definition delta_matches :: "docs \<Rightarrow> docs \<Rightarrow> string list \<Rightarrow> docs \<Rightarrow> bool" where
  "delta_matches old ups dels new \<longleftrightarrow>
     (\<forall>k. delta_row old ups dels k = fmlookup new k \<or>
          (fmlookup new k = None \<and> fmlookup ups k \<noteq> None))"

lemma lookup_touch_fold:
  "fmlookup (fold (\<lambda>i m. case fmlookup b i of None \<Rightarrow> m | Some d \<Rightarrow> fmupd i d m) ids ups) k =
     (if k \<in> set ids \<and> fmlookup b k \<noteq> None then fmlookup b k else fmlookup ups k)"
  by (induction ids arbitrary: ups) (auto split: option.splits)

lemma traverse_ids:
  assumes "\<And>x d. f x = Inr d \<Longrightarrow> doc_id d = g x" "traverse f xs = Inr ds"
  shows "map doc_id ds = map g xs"
  using assms(2) by (induction xs arbitrary: ds) (auto split: sum.splits dest: assms(1))

lemma wal_upsert_to_document_id: "wal_upsert_to_document cd u = Inr d \<Longrightarrow> doc_id d = wu_id u"
  by (auto simp: wal_upsert_to_document_def split: option.splits)

lemma wal_patch_to_document_id: "wal_patch_to_document cd u = Inr d \<Longrightarrow> doc_id d = wp_id u"
  by (auto simp: wal_patch_to_document_def split: option.splits)

lemma decodes_to_upsert_ids: "decodes_to cd e b \<Longrightarrow> map wu_id (upserts e) = map doc_id (b_upserts b)"
  using traverse_ids [of "wal_upsert_to_document cd" wu_id "upserts e" "b_upserts b"]
  by (simp add: decodes_to_def into_documents_def wal_upsert_to_document_id)

lemma decodes_to_patch_ids: "decodes_to cd e b \<Longrightarrow> map wp_id (patches e) = map doc_id (b_patches b)"
  using traverse_ids [of "wal_patch_to_document cd" wp_id "patches e" "b_patches b"]
  by (simp add: decodes_to_def patch_documents_def wal_patch_to_document_id)

lemma decodes_to_deletes: "decodes_to cd e b \<Longrightarrow> deletes e = b_deletes b"
  by (simp add: decodes_to_def)

lemmas decodes_to_facts = apply_entry_batch decodes_to_upsert_ids decodes_to_patch_ids decodes_to_deletes

lemma row_after_None:
  "row_after b k cur = None \<longleftrightarrow>
     k \<notin> doc_id ` set (b_upserts b) \<and> (k \<in> set (b_deletes b) \<or> cur = None)"
  by (auto simp: row_after_def find_rev_None dest!: find_Some_key split: option.splits)

lemma row_after_untouched:
  assumes "k \<notin> doc_id ` set (b_upserts b)" "k \<notin> doc_id ` set (b_patches b)"
  shows "row_after b k cur = (if k \<in> set (b_deletes b) then None else cur)"
proof -
  have "List.find (\<lambda>d. doc_id d = k) (rev (b_upserts b)) = None"
    using assms(1) by (auto simp: find_rev_None)
  moreover have "filter (\<lambda>p. doc_id p = k) (b_patches b) = []"
    using assms(2) by (auto simp: filter_empty_conv)
  ultimately show ?thesis by (simp add: row_after_def option.map_id)
qed

lemma delta_matches_step:
  assumes "delta_matches old ups dels m"
    and "ids = map doc_id (b_upserts b) @ map doc_id (b_patches b)"
    and "\<And>k. fmlookup ups' k =
        (if k \<in> set ids \<and> fmlookup (apply_batch m b) k \<noteq> None
         then fmlookup (apply_batch m b) k else fmlookup ups k)"
  shows "delta_matches old ups' (dels @ b_deletes b) (apply_batch m b)"
  unfolding delta_matches_def
proof
  fix k
  have P: "delta_row old ups dels k = fmlookup m k \<or> (fmlookup m k = None \<and> fmlookup ups k \<noteq> None)"
    using assms(1) by (simp add: delta_matches_def)
  show "delta_row old ups' (dels @ b_deletes b) k = fmlookup (apply_batch m b) k \<or>
        (fmlookup (apply_batch m b) k = None \<and> fmlookup ups' k \<noteq> None)"
  proof (cases "k \<in> set ids \<and> fmlookup (apply_batch m b) k \<noteq> None")
    case True
    then show ?thesis by (auto simp: delta_row_def assms(3))
  next
    case False
    then have u: "fmlookup ups' k = fmlookup ups k" by (auto simp: assms(3))
    show ?thesis
    proof (cases "fmlookup (apply_batch m b) k")
      case None
      then have "k \<in> set (b_deletes b) \<or> fmlookup m k = None"
        by (simp add: lookup_apply_batch row_after_None)
      with P show ?thesis by (auto simp: delta_row_def u None split: option.splits if_splits)
    next
      case (Some d)
      with False have "k \<notin> set ids" by simp
      then have "fmlookup (apply_batch m b) k = (if k \<in> set (b_deletes b) then None else fmlookup m k)"
        by (simp add: assms(2) lookup_apply_batch row_after_untouched)
      with P Some show ?thesis
        by (auto simp: delta_row_def u split: option.splits if_splits)
    qed
  qed
qed

lemma collect_delta_loop_matches:
  assumes "list_all2 (decodes_to cd) es bs" "delta_matches old ups dels m"
  shows "\<exists>ups'. collect_delta_loop cd m ups dels es =
           (foldl apply_batch m bs, Inr (fm_entries ups', dels @ concat (map b_deletes bs))) \<and>
         delta_matches old ups' (dels @ concat (map b_deletes bs)) (foldl apply_batch m bs)"
  using assms
proof (induction es arbitrary: bs m ups dels)
  case (Cons e es)
  from Cons.prems(1) obtain b bs' where bs: "bs = b # bs'" and b: "decodes_to cd e b"
    and rest: "list_all2 (decodes_to cd) es bs'"
    by (auto simp: list_all2_Cons1)
  let ?ids = "map doc_id (b_upserts b) @ map doc_id (b_patches b)"
  let ?m = "apply_batch m b"
  let ?ups = "fold (\<lambda>i u. case fmlookup ?m i of None \<Rightarrow> u | Some d \<Rightarrow> fmupd i d u) ?ids ups"
  have "delta_matches old ?ups (dels @ b_deletes b) ?m"
    by (rule delta_matches_step [OF Cons.prems(2) refl lookup_touch_fold])
  from Cons.IH [OF rest this] show ?case
    by (simp add: bs decodes_to_facts [OF b])
qed auto

end
