(* ===== verification/Reference_Codec.thy ===== *)
theory Reference_Codec
  imports Wal
begin

text \<open>
  A concrete codec: the bincode 1.x layout for log entries (little-endian 64-bit lengths), a
  tagged prefix encoding in the place of JSON text, and an exclusive-or checksum in the place
  of CRC32.  It satisfies the laws of \<open>wal_codec\<close>, so the properties stated for an arbitrary
  codec are not vacuous; no property is stated about this codec itself.
\<close>

unbundle bit_operations_syntax

section \<open>Prefix encodings\<close>

type_synonym 'a decoder = "bytes \<Rightarrow> ('a \<times> bytes) option"

definition decodes :: "('a \<Rightarrow> bytes) \<Rightarrow> 'a decoder \<Rightarrow> bool" where
  "decodes en de \<longleftrightarrow> (\<forall>x r. de (en x @ r) = Some (x, r))"

definition en_nat :: "nat \<Rightarrow> bytes" where
  "en_nat n = replicate n 1 @ [0]"

fun de_nat :: "nat decoder" where
  "de_nat [] = None"
| "de_nat (b # bs) =
     (if b = 0 then Some (0, bs)
      else (case de_nat bs of None \<Rightarrow> None | Some (n, r) \<Rightarrow> Some (Suc n, r)))"

definition byte_of :: "char \<Rightarrow> byte" where
  "byte_of c = of_nat (of_char c)"

definition char_of_byte :: "byte \<Rightarrow> char" where
  "char_of_byte b = char_of (unat b)"

definition en_str :: "string \<Rightarrow> bytes" where
  "en_str s = en_nat (length s) @ map byte_of s"

definition de_str :: "string decoder" where
  "de_str bs =
     (case de_nat bs of
        None \<Rightarrow> None
      | Some (n, r) \<Rightarrow> if n \<le> length r then Some (map char_of_byte (take n r), drop n r) else None)"

definition en_list :: "('a \<Rightarrow> bytes) \<Rightarrow> 'a list \<Rightarrow> bytes" where
  "en_list en xs = en_nat (length xs) @ concat (map en xs)"

fun de_items :: "'a decoder \<Rightarrow> nat \<Rightarrow> 'a list decoder" where
  "de_items de 0 bs = Some ([], bs)"
| "de_items de (Suc n) bs =
     (case de bs of
        None \<Rightarrow> None
      | Some (x, r) \<Rightarrow> (case de_items de n r of None \<Rightarrow> None | Some (xs, r') \<Rightarrow> Some (x # xs, r')))"

definition de_list :: "'a decoder \<Rightarrow> 'a list decoder" where
  "de_list de bs = (case de_nat bs of None \<Rightarrow> None | Some (n, r) \<Rightarrow> de_items de n r)"

definition en_pair :: "('a \<Rightarrow> bytes) \<Rightarrow> ('b \<Rightarrow> bytes) \<Rightarrow> 'a \<times> 'b \<Rightarrow> bytes" where
  "en_pair ea eb p = ea (fst p) @ eb (snd p)"

definition de_pair :: "'a decoder \<Rightarrow> 'b decoder \<Rightarrow> ('a \<times> 'b) decoder" where
  "de_pair da db bs =
     (case da bs of
        None \<Rightarrow> None
      | Some (a, r) \<Rightarrow> (case db r of None \<Rightarrow> None | Some (b, r') \<Rightarrow> Some ((a, b), r')))"

definition en_opt :: "('a \<Rightarrow> bytes) \<Rightarrow> 'a option \<Rightarrow> bytes" where
  "en_opt en x = (case x of None \<Rightarrow> [0] | Some y \<Rightarrow> 1 # en y)"

definition de_opt :: "'a decoder \<Rightarrow> 'a option decoder" where
  "de_opt de bs =
     (case bs of
        [] \<Rightarrow> None
      | b # r \<Rightarrow> if b = 0 then Some (None, r)
                else (case de r of None \<Rightarrow> None | Some (x, r') \<Rightarrow> Some (Some x, r')))"

definition en_int :: "int \<Rightarrow> bytes" where
  "en_int i = (if i < 0 then 1 # en_nat (nat (- i)) else 0 # en_nat (nat i))"

definition de_int :: "int decoder" where
  "de_int bs =
     (case bs of
        [] \<Rightarrow> None
      | b # r \<Rightarrow> (case de_nat r of
                    None \<Rightarrow> None
                  | Some (n, r') \<Rightarrow> Some (if b = 1 then - int n else int n, r')))"

definition en_rat :: "rat \<Rightarrow> bytes" where
  "en_rat q = en_pair en_int en_int (quotient_of q)"

definition de_rat :: "rat decoder" where
  "de_rat bs =
     (case de_pair de_int de_int bs of
        None \<Rightarrow> None
      | Some ((a, b), r) \<Rightarrow> Some (of_int a / of_int b, r))"

fun en_num :: "num \<Rightarrow> bytes" where
  "en_num (PosInt n) = 0 # en_nat n"
| "en_num (NegInt i) = 1 # en_int i"
| "en_num (Float (Fin q)) = 2 # en_rat q"
| "en_num (Float NegZero) = [3]"
| "en_num (Float PosInf) = [4]"
| "en_num (Float NegInf) = [5]"
| "en_num (Float NaN) = [6]"

definition de_num :: "num decoder" where
  "de_num bs =
     (case bs of
        [] \<Rightarrow> None
      | t # r \<Rightarrow>
          if t = 0 then map_option (\<lambda>(n, r'). (PosInt n, r')) (de_nat r)
          else if t = 1 then map_option (\<lambda>(i, r'). (NegInt i, r')) (de_int r)
          else if t = 2 then map_option (\<lambda>(q, r'). (Float (Fin q), r')) (de_rat r)
          else Some (Float (if t = 3 then NegZero else if t = 4 then PosInf
                            else if t = 5 then NegInf else NaN), r))"

fun en_json :: "json \<Rightarrow> bytes" where
  "en_json JNull = [0]"
| "en_json (JBool b) = (if b then [1] else [2])"
| "en_json (JNumber n) = 3 # en_num n"
| "en_json (JString s) = 4 # en_str s"
| "en_json (JArray []) = [5]"
| "en_json (JArray (x # xs)) = 6 # en_json x @ en_json (JArray xs)"
| "en_json (JObject []) = [7]"
| "en_json (JObject ((k, v) # obj)) = 8 # en_str k @ en_json v @ en_json (JObject obj)"

fun de_json :: "nat \<Rightarrow> json decoder" where
  "de_json 0 bs = None"
| "de_json (Suc n) [] = None"
| "de_json (Suc n) (t # r) =
     (if t = 0 then Some (JNull, r)
      else if t = 1 then Some (JBool True, r)
      else if t = 2 then Some (JBool False, r)
      else if t = 3 then map_option (\<lambda>(x, r'). (JNumber x, r')) (de_num r)
      else if t = 4 then map_option (\<lambda>(x, r'). (JString x, r')) (de_str r)
      else if t = 5 then Some (JArray [], r)
      else if t = 6 then
        (case de_json n r of
           None \<Rightarrow> None
         | Some (x, r') \<Rightarrow>
             (case de_json n r' of
                Some (JArray xs, r'') \<Rightarrow> Some (JArray (x # xs), r'')
              | _ \<Rightarrow> None))
      else if t = 7 then Some (JObject [], r)
      else
        (case de_str r of
           None \<Rightarrow> None
         | Some (k, r0) \<Rightarrow>
             (case de_json n r0 of
                None \<Rightarrow> None
              | Some (v, r') \<Rightarrow>
                  (case de_json n r' of
                     Some (JObject obj, r'') \<Rightarrow> Some (JObject ((k, v) # obj), r'')
                   | _ \<Rightarrow> None))))"

definition de_json_all :: "json decoder" where
  "de_json_all bs = de_json (length bs) bs"

definition en_attrs :: "attrs \<Rightarrow> bytes" where
  "en_attrs a = en_list (en_pair en_str en_json) (fm_entries a)"

definition de_attrs :: "attrs decoder" where
  "de_attrs bs = map_option (\<lambda>(es, r). (fmap_of_list es, r)) (de_list (de_pair de_str de_json_all) bs)"

definition en_doc :: "document \<Rightarrow> bytes" where
  "en_doc d = en_pair en_str en_attrs (doc_id d, attributes d)"

definition de_doc :: "document decoder" where
  "de_doc bs =
     map_option (\<lambda>((i, a), r). (\<lparr>doc_id = i, attributes = a\<rparr>, r)) (de_pair de_str de_attrs bs)"

definition en_snapshot :: "wal_snapshot \<Rightarrow> bytes" where
  "en_snapshot s = en_pair en_nat (en_list en_doc) (snap_seq s, snap_docs s)"

definition de_snapshot :: "wal_snapshot decoder" where
  "de_snapshot bs =
     map_option (\<lambda>((n, ds), r). (\<lparr>snap_seq = n, snap_docs = ds\<rparr>, r)) (de_pair de_nat (de_list de_doc) bs)"

definition whole :: "'a decoder \<Rightarrow> bytes \<Rightarrow> 'a option" where
  "whole de bs = (case de bs of Some (x, []) \<Rightarrow> Some x | _ \<Rightarrow> None)"

section \<open>The bincode layout of log entries\<close>

fun le_bytes :: "nat \<Rightarrow> nat \<Rightarrow> bytes" where
  "le_bytes 0 n = []"
| "le_bytes (Suc k) n = of_nat (n mod 256) # le_bytes k (n div 256)"

fun le_val :: "bytes \<Rightarrow> nat" where
  "le_val [] = 0"
| "le_val (b # bs) = unat b + 256 * le_val bs"

definition bin_len :: "nat \<Rightarrow> bytes" where
  "bin_len n = le_bytes 8 n"

definition bin_unlen :: "nat decoder" where
  "bin_unlen bs = (if 8 \<le> length bs then Some (le_val (take 8 bs), drop 8 bs) else None)"

definition bin_vec :: "('a \<Rightarrow> bytes) \<Rightarrow> 'a list \<Rightarrow> bytes" where
  "bin_vec en xs = bin_len (length xs) @ concat (map en xs)"

definition bin_unvec :: "'a decoder \<Rightarrow> 'a list decoder" where
  "bin_unvec de bs = (case bin_unlen bs of None \<Rightarrow> None | Some (n, r) \<Rightarrow> de_items de n r)"

definition de_byte :: "byte decoder" where
  "de_byte bs = (case bs of [] \<Rightarrow> None | b # r \<Rightarrow> Some (b, r))"

definition de_char :: "char decoder" where
  "de_char bs = (case bs of [] \<Rightarrow> None | b # r \<Rightarrow> Some (char_of_byte b, r))"

definition bin_str :: "string \<Rightarrow> bytes" where
  "bin_str = bin_vec (\<lambda>c. [byte_of c])"

definition bin_row :: "string \<times> bytes \<Rightarrow> bytes" where
  "bin_row = en_pair bin_str (bin_vec (\<lambda>b. [b]))"

definition bin_unrow :: "(string \<times> bytes) decoder" where
  "bin_unrow = de_pair (bin_unvec de_char) (bin_unvec de_byte)"

definition bin_entry :: "wal_entry \<Rightarrow> bytes" where
  "bin_entry e =
     bin_vec bin_row (map (\<lambda>u. (wu_id u, wu_attributes u)) (upserts e)) @
     bin_vec bin_row (map (\<lambda>p. (wp_id p, wp_attributes p)) (patches e)) @
     bin_vec bin_str (deletes e)"

definition bin_unentry :: "bytes \<Rightarrow> wal_entry option" where
  "bin_unentry bs =
     (case de_pair (bin_unvec bin_unrow) (de_pair (bin_unvec bin_unrow) (bin_unvec (bin_unvec de_char))) bs of
        None \<Rightarrow> None
      | Some ((us, ps, ds), r) \<Rightarrow>
          Some \<lparr>upserts = map (\<lambda>(i, a). \<lparr>wu_id = i, wu_attributes = a\<rparr>) us,
                patches = map (\<lambda>(i, a). \<lparr>wp_id = i, wp_attributes = a\<rparr>) ps,
                deletes = ds\<rparr>)"

definition len64 :: "'a list \<Rightarrow> bool" where
  "len64 xs \<longleftrightarrow> int (length xs) < 2 ^ 64"

definition row64 :: "string \<times> bytes \<Rightarrow> bool" where
  "row64 r \<longleftrightarrow> len64 (fst r) \<and> len64 (snd r)"

definition entry64 :: "wal_entry \<Rightarrow> bool" where
  "entry64 e \<longleftrightarrow>
     len64 (upserts e) \<and> len64 (patches e) \<and> len64 (deletes e) \<and>
     list_all (\<lambda>u. row64 (wu_id u, wu_attributes u)) (upserts e) \<and>
     list_all (\<lambda>p. row64 (wp_id p, wp_attributes p)) (patches e) \<and>
     list_all len64 (deletes e)"

definition xor_sum :: "bytes \<Rightarrow> 32 word" where
  "xor_sum bs = fold (\<lambda>b s. s XOR ucast b) bs 0"

definition ref_codec :: codec where
  "ref_codec =
     \<lparr>attrs_to_vec = (\<lambda>a. Some (en_attrs a)), attrs_from_slice = whole de_attrs,
      entry_serialize = (\<lambda>e. if entry64 e then Some (bin_entry e) else None),
      entry_deserialize = bin_unentry,
      snapshot_to_vec = (\<lambda>s. Some (en_snapshot s)), snapshot_from_slice = whole de_snapshot,
      crc32 = xor_sum\<rparr>"

section \<open>Round trips\<close>

named_theorems codec_rt \<open>round trips of the prefix encodings\<close>

lemma decodesD: "decodes en de \<Longrightarrow> de (en x @ r) = Some (x, r)"
  by (simp add: decodes_def)

lemma whole_decodes: "decodes en de \<Longrightarrow> whole de (en x) = Some x"
  using decodesD [of en de x "[]"] by (simp add: whole_def)

lemma decodes_nat [codec_rt]: "decodes en_nat de_nat"
proof -
  have "de_nat (replicate n 1 @ 0 # r) = Some (n, r)" for n r
    by (induction n) auto
  then show ?thesis by (simp add: decodes_def en_nat_def)
qed

lemma char_of_byte_of [simp]: "char_of_byte (byte_of c) = c"
proof -
  have "unat (of_nat (of_char c) :: byte) = of_char c"
    by (simp add: unat_of_nat)
  then show ?thesis by (simp add: byte_of_def char_of_byte_def)
qed

lemma decodes_str [codec_rt]: "decodes en_str de_str"
  by (simp add: decodes_def en_str_def de_str_def decodesD [OF decodes_nat] comp_def)

lemma decodes_list [codec_rt]: "decodes en de \<Longrightarrow> decodes (en_list en) (de_list de)"
proof -
  assume d: "decodes en de"
  have "de_items de (length xs) (concat (map en xs) @ r) = Some (xs, r)" for xs r
    by (induction xs) (simp_all add: decodesD [OF d])
  then show ?thesis
    by (simp add: decodes_def en_list_def de_list_def decodesD [OF decodes_nat])
qed

lemma decodes_pair [codec_rt]: "decodes ea da \<Longrightarrow> decodes eb db \<Longrightarrow> decodes (en_pair ea eb) (de_pair da db)"
  by (simp add: decodes_def en_pair_def de_pair_def)

lemma decodes_opt [codec_rt]: "decodes en de \<Longrightarrow> decodes (en_opt en) (de_opt de)"
  by (simp add: decodes_def en_opt_def de_opt_def split: option.splits)

lemma decodes_int [codec_rt]: "decodes en_int de_int"
  by (simp add: decodes_def en_int_def de_int_def decodesD [OF decodes_nat])

lemma decodes_rat [codec_rt]: "decodes en_rat de_rat"
proof -
  have "(case quotient_of q of (a, b) \<Rightarrow> of_int a / of_int b) = q" for q :: rat
    using quotient_of_div [of q] by (cases "quotient_of q") simp
  then show ?thesis
    by (auto simp: decodes_def en_rat_def de_rat_def decodesD [OF decodes_pair [OF decodes_int decodes_int]]
        split: prod.splits dest: quotient_of_div [symmetric])
qed

lemma decodes_num [codec_rt]: "decodes en_num de_num"
  unfolding decodes_def
proof (intro allI)
  fix x r
  show "de_num (en_num x @ r) = Some (x, r)"
    by (cases x rule: en_num.cases)
      (simp_all add: de_num_def decodesD [OF decodes_nat] decodesD [OF decodes_int] decodesD [OF decodes_rat])
qed

lemma de_json_en_json: "length (en_json j) \<le> n \<Longrightarrow> de_json n (en_json j @ r) = Some (j, r)"
proof (induction j arbitrary: n r rule: en_json.induct)
  case (2 b)
  then obtain m where "n = Suc m" by (cases n) (auto split: if_splits)
  then show ?case by simp
next
  case (3 x)
  then obtain m where "n = Suc m" by (cases n) auto
  then show ?case by (simp add: decodesD [OF decodes_num])
next
  case (6 x xs)
  then obtain m where "n = Suc m" by (cases n) auto
  with 6 show ?case by simp
next
  case (8 k v obj)
  then obtain m where "n = Suc m" by (cases n) auto
  with 8 show ?case by (simp add: decodesD [OF decodes_str])
next
  case (4 s)
  then obtain m where "n = Suc m" by (cases n) auto
  then show ?case by (simp add: decodesD [OF decodes_str])
qed (auto dest!: Suc_le_D)

lemma decodes_json [codec_rt]: "decodes en_json de_json_all"
  by (simp add: decodes_def de_json_all_def de_json_en_json)

lemma decodes_attrs [codec_rt]: "decodes en_attrs de_attrs"
  by (simp add: decodes_def en_attrs_def de_attrs_def
      decodesD [OF decodes_list [OF decodes_pair [OF decodes_str decodes_json]]])

lemma decodes_doc [codec_rt]: "decodes en_doc de_doc"
  by (simp add: decodes_def en_doc_def de_doc_def decodesD [OF decodes_pair [OF decodes_str decodes_attrs]])

lemma decodes_snapshot [codec_rt]: "decodes en_snapshot de_snapshot"
  by (simp add: decodes_def en_snapshot_def de_snapshot_def
      decodesD [OF decodes_pair [OF decodes_nat decodes_list [OF decodes_doc]]])

lemma length_le_bytes [simp]: "length (le_bytes k n) = k"
  by (induction k arbitrary: n) auto

lemma le_val_le_bytes: "n < 256 ^ k \<Longrightarrow> le_val (le_bytes k n) = n"
proof (induction k arbitrary: n)
  case (Suc k)
  have "n div 256 < 256 ^ k"
    using Suc.prems by (simp add: less_mult_imp_div_less mult.commute)
  then have "le_val (le_bytes k (n div 256)) = n div 256"
    by (rule Suc.IH)
  moreover have "unat (of_nat (n mod 256) :: byte) = n mod 256"
    by (simp add: unat_of_nat)
  ultimately show ?case by simp
qed simp

lemma bin_unlen_len: "n < 2 ^ 64 \<Longrightarrow> bin_unlen (bin_len n @ r) = Some (n, r)"
  by (simp add: bin_unlen_def bin_len_def le_val_le_bytes)

lemma len64_iff: "len64 xs \<longleftrightarrow> length xs < 2 ^ 64"
  by (simp add: len64_def flip: of_nat_less_iff)

lemma bin_unvec_vec:
  assumes "\<And>x r. x \<in> set xs \<Longrightarrow> de (en x @ r) = Some (x, r)" "len64 xs"
  shows "bin_unvec de (bin_vec en xs @ r) = Some (xs, r)"
proof -
  have "de_items de (length xs) (concat (map en xs) @ r) = Some (xs, r)"
    using assms(1) by (induction xs) auto
  then show ?thesis
    using assms(2) by (simp add: bin_unvec_def bin_vec_def bin_unlen_len len64_iff)
qed

lemma bin_unvec_str: "len64 s \<Longrightarrow> bin_unvec de_char (bin_str s @ r) = Some (s, r)"
  unfolding bin_str_def by (rule bin_unvec_vec) (auto simp: de_char_def)

lemma bin_unrow_row: "row64 p \<Longrightarrow> bin_unrow (bin_row p @ r) = Some (p, r)"
  using bin_unvec_vec [of "snd p" de_byte "\<lambda>b. [b]"]
  by (simp add: bin_unrow_def bin_row_def en_pair_def de_pair_def bin_unvec_str row64_def de_byte_def)

lemma bin_unentry_entry: "entry64 e \<Longrightarrow> bin_unentry (bin_entry e) = Some e"
proof -
  assume e: "entry64 e"
  let ?us = "map (\<lambda>u. (wu_id u, wu_attributes u)) (upserts e)"
  let ?ps = "map (\<lambda>p. (wp_id p, wp_attributes p)) (patches e)"
  have us: "bin_unvec bin_unrow (bin_vec bin_row ?us @ r) = Some (?us, r)" for r
    by (rule bin_unvec_vec) (use e in \<open>auto simp: entry64_def bin_unrow_row list_all_iff len64_def\<close>)
  have ps: "bin_unvec bin_unrow (bin_vec bin_row ?ps @ r) = Some (?ps, r)" for r
    by (rule bin_unvec_vec) (use e in \<open>auto simp: entry64_def bin_unrow_row list_all_iff len64_def\<close>)
  have ds: "bin_unvec (bin_unvec de_char) (bin_vec bin_str (deletes e) @ r) = Some (deletes e, r)" for r
    by (rule bin_unvec_vec) (use e in \<open>auto simp: entry64_def bin_unvec_str list_all_iff\<close>)
  have eta: "(\<lambda>x. \<lparr>wu_id = wu_id x, wu_attributes = wu_attributes x\<rparr>) = (\<lambda>x. x)"
    "(\<lambda>x. \<lparr>wp_id = wp_id x, wp_attributes = wp_attributes x\<rparr>) = (\<lambda>x. x)"
    by auto
  show ?thesis
    using ds [of "[]"] by (simp add: bin_unentry_def bin_entry_def de_pair_def us ps comp_def eta)
qed

lemma length_bin_entry: "24 \<le> length (bin_entry e)"
  by (simp add: bin_entry_def bin_vec_def bin_len_def)

interpretation ref: wal_codec ref_codec
  by unfold_locales
    (auto simp: ref_codec_def bin_unentry_entry length_bin_entry split: if_splits
      intro: whole_decodes [OF decodes_attrs] whole_decodes [OF decodes_snapshot])

end
