(* ===== verification/Wal_Correct.thy ===== *)
theory Wal_Correct
  imports Reference_Codec
begin

text \<open>
  Properties of the write-ahead log: what a write logs is what replay applies, a damaged byte
  of a segment is noticed, and the delta handed to the indexes describes the documents after
  the range of entries.
\<close>

unbundle bit_operations_syntax

section \<open>Helper lemmas\<close>

text \<open>A checksum that notices a change of any single byte, as CRC32 does.\<close>

definition detects_byte_change :: "(bytes \<Rightarrow> 32 word) \<Rightarrow> bool" where
  "detects_byte_change h \<longleftrightarrow> (\<forall>p i v. i < length p \<longrightarrow> v \<noteq> p ! i \<longrightarrow> h (p[i := v]) \<noteq> h p)"

lemma xor_fold:
  "fold (\<lambda>b s. s XOR ucast b) bs (x XOR y) = x XOR fold (\<lambda>b s. s XOR (ucast (b :: byte) :: 32 word)) bs y"
  by (induction bs arbitrary: y) (simp_all add: xor.assoc)

lemma xor_sum_Cons: "xor_sum (b # bs) = ucast b XOR xor_sum bs"
  using xor_fold [of bs "ucast b" 0] by (simp add: xor_sum_def)

lemma ucast_xor_neq_0: "v \<noteq> u \<Longrightarrow> (ucast v XOR ucast u :: 32 word) \<noteq> 0" for u v :: byte
proof
  assume "v \<noteq> u" and a: "ucast v XOR ucast u = (0 :: 32 word)"
  have uc: "(ucast (ucast w :: 32 word) :: byte) = w" for w :: byte
    by (rule bit_word_eqI) (simp add: bit_simps)
  have "(ucast v :: 32 word) = (ucast v XOR ucast u) XOR ucast u" by (simp add: xor.assoc)
  also have "\<dots> = ucast u" by (simp add: a)
  finally have "v = u" by (metis uc)
  with \<open>v \<noteq> u\<close> show False ..
qed

lemma xor_sum_update:
  "i < length p \<Longrightarrow> xor_sum (p[i := v]) = xor_sum p XOR (ucast v XOR ucast (p ! i))"
  by (induction p arbitrary: i) (auto simp: xor_sum_Cons nth_Cons ac_simps split: nat.splits)

lemma xor_sum_detects: "detects_byte_change xor_sum"
  unfolding detects_byte_change_def
proof (intro allI impI notI)
  fix p i v
  assume i: "i < length p" "v \<noteq> p ! i" and eq: "xor_sum (p[i := v]) = xor_sum p"
  have "xor_sum p XOR (ucast v XOR ucast (p ! i)) = xor_sum p"
    using eq by (simp add: xor_sum_update i)
  then have "ucast v XOR ucast (p ! i) = (0 :: 32 word)"
    using xor.assoc [of "xor_sum p" "xor_sum p" "ucast v XOR ucast (p ! i)"] by simp
  with ucast_xor_neq_0 [OF i(2)] show False ..
qed

lemma update_frame_cases:
  assumes "0 < i" "i < length (w # p @ t)" "v \<noteq> (w # p @ t) ! i"
  obtains (payload) j where "(w # p @ t)[i := v] = w # p[j := v] @ t" "j < length p" "v \<noteq> p ! j"
  | (trailer) j where "(w # p @ t)[i := v] = w # p @ t[j := v]" "j < length t" "v \<noteq> t ! j"
proof -
  obtain j where i: "i = Suc j" using assms(1) by (cases i) auto
  show thesis
  proof (cases "j < length p")
    case True
    show ?thesis
      by (rule payload [of j]) (use True assms i in \<open>auto simp: list_update_append nth_append\<close>)
  next
    case False
    show ?thesis
      by (rule trailer [of "j - length p"])
        (use False assms i in \<open>auto simp: list_update_append nth_append\<close>)
  qed
qed

lemma frame_mismatch_corrupt:
  assumes "p \<noteq> []" "length t = 4" "from_le_bytes t \<noteq> crc32 cd p"
    and "entry_deserialize cd (WAL_FORMAT_CRC32 # p @ t) = None"
  shows "decode_segment cd (WAL_FORMAT_CRC32 # p @ t) s =
    Inl (WalCorrupt s (CrcMismatch (from_le_bytes t) (crc32 cd p)))"
  using assms by (simp add: decode_segment_frame decode_crc32_frame)

section \<open>Properties\<close>



text \<open>
  C16. A stored segment in which one byte after the version byte has changed is never taken
  for a valid checksummed segment: unless the whole object happens to parse as a legacy
  segment, decoding reports corruption with the segment's number, which the default policy
  turns into an error and the skip policy into a skipped segment.
\<close>

theorem changed_byte_is_corrupt:
  assumes "wal_codec cd" and "detects_byte_change (crc32 cd)"
    and "encode cd e = Inr b" and "0 < i" "i < length b" "v \<noteq> b ! i"
    and "entry_deserialize cd (b[i := v]) = None"
  shows "(\<exists>r. decode_segment_with_policy cd (b[i := v]) s Fail = Inl (WalCorrupt (Some s) r)) \<and>
         decode_segment_with_policy cd (b[i := v]) s Skip = Inr None"
proof -
  obtain p where p: "entry_serialize cd e = Some p"
    and b: "b = WAL_FORMAT_CRC32 # p @ to_le_bytes (crc32 cd p)"
    using assms(3) by (auto simp: encode_def split: option.splits)
  have ne: "p \<noteq> []"
    using wal_codec.entry_len [OF assms(1) p] by auto
  note frame = assms(4) assms(5) [unfolded b] assms(6) [unfolded b]
  have "\<exists>r. decode_segment cd (b[i := v]) (Some s) = Inl (WalCorrupt (Some s) r)"
    using frame
  proof (cases rule: update_frame_cases)
    case (payload j)
    then have "crc32 cd (p[j := v]) \<noteq> crc32 cd p"
      using assms(2) by (auto simp: detects_byte_change_def)
    then show ?thesis
      unfolding b payload(1)
      using frame_mismatch_corrupt [of "p[j := v]" "to_le_bytes (crc32 cd p)" cd "Some s"] ne
        assms(7) [unfolded b payload(1)]
      by simp
  next
    case (trailer j)
    let ?t = "(to_le_bytes (crc32 cd p))[j := v]"
    have "?t \<noteq> to_le_bytes (crc32 cd p)"
    proof
      assume "?t = to_le_bytes (crc32 cd p)"
      then have "?t ! j = to_le_bytes (crc32 cd p) ! j" by (rule arg_cong)
      then show False using trailer(2,3) by simp
    qed
    then have "from_le_bytes ?t \<noteq> crc32 cd p"
      using to_le_bytes_from_le_bytes [of ?t] by auto
    then show ?thesis
      unfolding b trailer(1)
      using frame_mismatch_corrupt [of p ?t cd "Some s"] ne assms(7) [unfolded b trailer(1)]
      by simp
  qed
  then obtain r where "decode_segment cd (b[i := v]) (Some s) = Inl (WalCorrupt (Some s) r)" ..
  then show ?thesis
    by (simp add: decode_segment_with_policy_cases)
qed

theorem changed_byte_is_corrupt_witness:
  "\<exists>b. encode ref_codec \<lparr>upserts = [], patches = [], deletes = [''x'']\<rparr> = Inr b \<and>
     (\<exists>r. decode_segment_with_policy ref_codec (b[33 := 0]) 7 Fail = Inl (WalCorrupt (Some 7) r)) \<and>
     decode_segment_with_policy ref_codec (b[33 := 0]) 7 Skip = Inr None"
proof -
  let ?e = "\<lparr>upserts = [], patches = [], deletes = [''x'']\<rparr>"
  have "\<not> isl (encode ref_codec ?e)"
    by code_simp
  then obtain b where b: "encode ref_codec ?e = Inr b"
    using not_isl_ex by blast
  have "33 < length (projr (encode ref_codec ?e)) \<and> 0 \<noteq> projr (encode ref_codec ?e) ! 33 \<and>
      entry_deserialize ref_codec ((projr (encode ref_codec ?e))[33 := 0]) = None"
    by code_simp
  then have "33 < length b" "0 \<noteq> b ! 33" "entry_deserialize ref_codec (b[33 := 0]) = None"
    by (simp_all add: b)
  moreover have "detects_byte_change (crc32 ref_codec)"
    by (simp add: ref_codec_def xor_sum_detects)
  ultimately show ?thesis
    using changed_byte_is_corrupt [OF ref.wal_codec_axioms _ b, of 33 0 7] b by simp
qed

text \<open>
  C25. For a range of decodable entries the index delta is computed without error and the
  baseline is advanced to the documents after the range.  Removing the delta's deletes from
  the old documents and adding its upserts gives, for every id, the document after the range;
  the only exception is an id the range wrote and deleted in a later entry, which the delta
  still upserts.
\<close>

theorem index_delta_describes_range:
  assumes "list_all2 (decodes_to cd) es bs"
  shows "\<exists>ups. collect_index_delta cd old es =
           (foldl apply_batch old bs, Inr (fm_entries ups, concat (map b_deletes bs))) \<and>
         delta_matches old ups (concat (map b_deletes bs)) (foldl apply_batch old bs)"
proof -
  have "delta_matches old fmempty [] old"
    by (simp add: delta_matches_def delta_row_def)
  from collect_delta_loop_matches [OF assms this] show ?thesis
    by (simp add: collect_index_delta_def)
qed

theorem index_delta_describes_range_witness:
  "\<exists>ups. collect_index_delta ref_codec fmempty
      [\<lparr>upserts = [\<lparr>wu_id = ''x'', wu_attributes = [0]\<rparr>], patches = [], deletes = []\<rparr>,
       \<lparr>upserts = [], patches = [], deletes = [''y'']\<rparr>] =
     (foldl apply_batch fmempty
        [\<lparr>b_upserts = [\<lparr>doc_id = ''x'', attributes = fmempty\<rparr>], b_patches = [], b_deletes = []\<rparr>,
         \<lparr>b_upserts = [], b_patches = [], b_deletes = [''y'']\<rparr>],
      Inr (fm_entries ups, [''y'']))"
proof -
  have "attrs_from_slice ref_codec [0] = Some fmempty"
    by (simp add: ref_codec_def whole_def de_attrs_def de_list_def)
  then have "list_all2 (decodes_to ref_codec)
      [\<lparr>upserts = [\<lparr>wu_id = ''x'', wu_attributes = [0]\<rparr>], patches = [], deletes = []\<rparr>,
       \<lparr>upserts = [], patches = [], deletes = [''y'']\<rparr>]
      [\<lparr>b_upserts = [\<lparr>doc_id = ''x'', attributes = fmempty\<rparr>], b_patches = [], b_deletes = []\<rparr>,
       \<lparr>b_upserts = [], b_patches = [], b_deletes = [''y'']\<rparr>]"
    by (simp add: decodes_to_def into_documents_def patch_documents_def wal_upsert_to_document_def)
  from index_delta_describes_range [OF this, of fmempty]
  obtain ups where "collect_index_delta ref_codec fmempty
      [\<lparr>upserts = [\<lparr>wu_id = ''x'', wu_attributes = [0]\<rparr>], patches = [], deletes = []\<rparr>,
       \<lparr>upserts = [], patches = [], deletes = [''y'']\<rparr>] =
     (foldl apply_batch fmempty
        [\<lparr>b_upserts = [\<lparr>doc_id = ''x'', attributes = fmempty\<rparr>], b_patches = [], b_deletes = []\<rparr>,
         \<lparr>b_upserts = [], b_patches = [], b_deletes = [''y'']\<rparr>],
      Inr (fm_entries ups, concat (map b_deletes
        [\<lparr>b_upserts = [\<lparr>doc_id = ''x'', attributes = fmempty\<rparr>], b_patches = [], b_deletes = []\<rparr>,
         \<lparr>b_upserts = [], b_patches = [], b_deletes = [''y'']\<rparr>])))"
    by blast
  then show ?thesis by (intro exI [of _ ups]) (simp only: concat.simps list.map batch.simps append.simps)
qed

end
