(* ===== verification/Object_Store.thy ===== *)
theory Object_Store
  imports Models
begin

text \<open>
  The S3 service as the program uses it.  The service is not part of the repository: a
  client is a record of operations over an arbitrary state, and the documented behaviour the
  program relies on is the locale \<open>s3_service\<close>, stated over an abstraction \<open>objs\<close> of the state
  to the objects of the bucket (body and ETag).  The bucket name is fixed and left out.
\<close>

section \<open>Client\<close>

datatype put_cond = Always | IfMatch string | IfNoneMatch

datatype get_result = GetOk bytes "string option" | GetBodyErr | GetErr s3_error

record 's s3_client =
  get_object :: "string \<Rightarrow> 's \<Rightarrow> get_result \<times> 's"
  put_object :: "string \<Rightarrow> bytes \<Rightarrow> put_cond \<Rightarrow> 's \<Rightarrow> (s3_error + string option) \<times> 's"
  delete_object :: "string \<Rightarrow> 's \<Rightarrow> (s3_error + unit) \<times> 's"
  head_object :: "string \<Rightarrow> 's \<Rightarrow> (s3_error + string option) \<times> 's"

type_synonym objects = "string \<Rightarrow> (bytes \<times> string) option"

fun cond_holds :: "put_cond \<Rightarrow> (bytes \<times> string) option \<Rightarrow> bool" where
  "cond_holds Always cur = True"
| "cond_holds (IfMatch tag) cur = (case cur of Some (_, t) \<Rightarrow> t = tag | None \<Rightarrow> False)"
| "cond_holds IfNoneMatch cur = (cur = None)"

locale s3_service =
  fixes S :: "'s s3_client" and objs :: "'s \<Rightarrow> objects"
  assumes get_frame: "get_object S k s = (r, s') \<Longrightarrow> objs s' = objs s"
    and get_ok: "get_object S k s = (GetOk b t, s') \<Longrightarrow> \<exists>tag. t = Some tag \<and> objs s k = Some (b, tag)"
    and get_no_key: "get_object S k s = (GetErr e, s') \<Longrightarrow> e = NoSuchKey \<or> e = NotFound \<Longrightarrow> objs s k = None"
    and put_ok: "put_object S k b c s = (Inr t, s') \<Longrightarrow>
      cond_holds c (objs s k) \<and> (\<exists>tag. objs s' = (objs s)(k \<mapsto> (b, tag)))"
    and put_err: "put_object S k b c s = (Inl e, s') \<Longrightarrow>
      objs s' = objs s \<or>
      (e \<noteq> PreconditionFailed \<and> cond_holds c (objs s k) \<and> (\<exists>tag. objs s' = (objs s)(k \<mapsto> (b, tag))))"
    and delete_any: "delete_object S k s = (d, s') \<Longrightarrow>
      objs s' = (objs s)(k := None) \<or> (d \<noteq> Inr () \<and> objs s' = objs s)"
    and head_frame: "head_object S k s = (h, s') \<Longrightarrow> objs s' = objs s"
    and head_ok: "head_object S k s = (Inr ht, s') \<Longrightarrow> \<exists>b tag. ht = Some tag \<and> objs s k = Some (b, tag)"
    and head_not_found: "head_object S k s = (Inl NotFound, s') \<Longrightarrow> objs s k = None"

text \<open>A service without faults: every request is answered and every satisfied condition accepted.\<close>

locale s3_reliable = s3_service +
  assumes get_some: "objs s k = Some (b, tag) \<Longrightarrow> \<exists>s'. get_object S k s = (GetOk b (Some tag), s')"
    and get_none: "objs s k = None \<Longrightarrow> \<exists>s'. get_object S k s = (GetErr NoSuchKey, s')"
    and put_some: "cond_holds c (objs s k) \<Longrightarrow> \<exists>t s'. put_object S k b c s = (Inr t, s')"
    and delete_some: "\<exists>s'. delete_object S k s = (Inr (), s')"
    and head_some: "objs s k = Some (b, tag) \<Longrightarrow> \<exists>s'. head_object S k s = (Inr (Some tag), s')"
    and head_none: "objs s k = None \<Longrightarrow> \<exists>s'. head_object S k s = (Inl NotFound, s')"

section \<open>An in-memory store\<close>

record mem_store =
  mem_objs :: "(string, bytes \<times> string) fmap"
  mem_next :: nat

definition mem_get :: "string \<Rightarrow> mem_store \<Rightarrow> get_result \<times> mem_store" where
  "mem_get k s =
     (case fmlookup (mem_objs s) k of
        None \<Rightarrow> (GetErr NoSuchKey, s)
      | Some (b, t) \<Rightarrow> (GetOk b (Some t), s))"

definition mem_put ::
  "string \<Rightarrow> bytes \<Rightarrow> put_cond \<Rightarrow> mem_store \<Rightarrow> (s3_error + string option) \<times> mem_store" where
  "mem_put k b c s =
     (if cond_holds c (fmlookup (mem_objs s) k)
      then let t = dec (mem_next s) in
        (Inr (Some t), \<lparr>mem_objs = fmupd k (b, t) (mem_objs s), mem_next = Suc (mem_next s)\<rparr>)
      else (Inl PreconditionFailed, s))"

definition mem_delete :: "string \<Rightarrow> mem_store \<Rightarrow> (s3_error + unit) \<times> mem_store" where
  "mem_delete k s = (Inr (), s\<lparr>mem_objs := fmdrop k (mem_objs s)\<rparr>)"

definition mem_head :: "string \<Rightarrow> mem_store \<Rightarrow> (s3_error + string option) \<times> mem_store" where
  "mem_head k s =
     (case fmlookup (mem_objs s) k of None \<Rightarrow> (Inl NotFound, s) | Some (b, t) \<Rightarrow> (Inr (Some t), s))"

definition mem_s3 :: "mem_store s3_client" where
  "mem_s3 = \<lparr>get_object = mem_get, put_object = mem_put, delete_object = mem_delete,
     head_object = mem_head\<rparr>"

definition mem_view :: "mem_store \<Rightarrow> objects" where
  "mem_view s = fmlookup (mem_objs s)"

definition mem_empty :: mem_store where
  "mem_empty = \<lparr>mem_objs = fmempty, mem_next = 1\<rparr>"

lemma mem_view_upd: "fmlookup (fmupd k v m) = (fmlookup m)(k \<mapsto> v)"
  and mem_view_drop: "fmlookup (fmdrop k m) = (fmlookup m)(k := None)"
  by auto

interpretation mem: s3_reliable mem_s3 mem_view
  by unfold_locales
    (auto simp: mem_s3_def mem_get_def mem_put_def mem_delete_def mem_head_def mem_view_def mem_view_upd
      mem_view_drop Let_def simp del: fmupd_lookup fmlookup_drop split: option.splits if_splits)

end
