(* ===== verification/Schema.thy ===== *)
theory Schema
  imports Models
begin

text \<open>
  Namespace schemas (\<^verbatim>\<open>src/schema.rs\<close> and the schema helpers of \<^verbatim>\<open>src/index/vector.rs\<close>): field
  type predicates, the merge of a write-time schema patch, and the validation and
  normalisation of document attributes.  Date-time and UUID parsing is done by third-party
  crates: a \<open>canon\<close> record holds the two functions.
\<close>

section \<open>Definitions\<close>

datatype vector_element = F32 | F16

definition MAX_VECTOR_FIELDS :: nat where
  "MAX_VECTOR_FIELDS = 2"

definition str_contains :: "string \<Rightarrow> string \<Rightarrow> bool" where
  "str_contains s pat \<longleftrightarrow> list_ex (\<lambda>t. take (length pat) t = pat) (suffixes s)"

text \<open>\<^verbatim>\<open>str::parse::<u32>\<close>: an optional plus sign, decimal digits, no overflow.\<close>

definition is_digit :: "char \<Rightarrow> bool" where
  "is_digit c \<longleftrightarrow> CHR ''0'' \<le> c \<and> c \<le> CHR ''9''"

definition parse_u32 :: "string \<Rightarrow> nat option" where
  "parse_u32 s =
     (let ds = (if s \<noteq> [] \<and> hd s = CHR ''+'' then tl s else s) in
      if ds \<noteq> [] \<and> list_all is_digit ds \<and> int (dec_val ds) < 2 ^ 32 then Some (dec_val ds) else None)"

text \<open>\<^verbatim>\<open>split_once(']')\<close>.\<close>

definition split_once :: "char \<Rightarrow> string \<Rightarrow> (string \<times> string) option" where
  "split_once c s =
     (if c \<in> set s then Some (takeWhile (\<lambda>x. x \<noteq> c) s, tl (dropWhile (\<lambda>x. x \<noteq> c) s)) else None)"

definition parse_vector_type_str :: "string \<Rightarrow> (nat \<times> vector_element) option" where
  "parse_vector_type_str s0 =
     (let s = trim s0 in
      if s = [] \<or> hd s \<noteq> CHR ''['' then None
      else (case split_once (CHR '']'') (tl s) of
              None \<Rightarrow> None
            | Some (dims_str, elem) \<Rightarrow>
                (case parse_u32 dims_str of
                   None \<Rightarrow> None
                 | Some dims \<Rightarrow>
                     if to_ascii_lowercase elem = ''f32'' then Some (dims, F32)
                     else if to_ascii_lowercase elem = ''f16'' then Some (dims, F16)
                     else None)))"

definition parse_vector_type_spec :: "json \<Rightarrow> (nat \<times> vector_element) option" where
  "parse_vector_type_spec spec =
     (case (case spec of
              JString s \<Rightarrow> Some s
            | JObject m \<Rightarrow> Option.bind (jget ''type'' m) as_str
            | _ \<Rightarrow> None) of
        None \<Rightarrow> None
      | Some type_str \<Rightarrow> parse_vector_type_str type_str)"

definition schema_field :: "json \<Rightarrow> string \<Rightarrow> json option" where
  "schema_field sch field = Option.bind (as_object sch) (jget field)"

definition vector_element_for_field :: "json \<Rightarrow> string \<Rightarrow> vector_element" where
  "vector_element_for_field sch field =
     (case Option.bind (schema_field sch field) parse_vector_type_spec of
        None \<Rightarrow> F32 | Some (_, e) \<Rightarrow> e)"

definition vector_dimensions_for_field :: "json \<Rightarrow> string \<Rightarrow> nat option" where
  "vector_dimensions_for_field sch field =
     map_option fst (Option.bind (schema_field sch field) parse_vector_type_spec)"

definition field_is_vector_type_str :: "string \<Rightarrow> bool" where
  "field_is_vector_type_str t \<longleftrightarrow>
     str_contains t ''f32'' \<or> str_contains t ''f16'' \<or> str_contains t ''vector'' \<or> str_contains t ''[]f''"

definition field_is_vector_spec :: "json \<Rightarrow> bool" where
  "field_is_vector_spec spec \<longleftrightarrow>
     (case spec of
        JString s \<Rightarrow> field_is_vector_type_str (to_ascii_lowercase s)
      | JObject m \<Rightarrow>
          (case Option.bind (jget ''type'' m) as_str of
             None \<Rightarrow> False
           | Some t \<Rightarrow> field_is_vector_type_str (to_ascii_lowercase t))
      | _ \<Rightarrow> False)"

definition vector_fields_from_schema :: "json \<Rightarrow> string list" where
  "vector_fields_from_schema sch =
     (case as_object sch of
        None \<Rightarrow> []
      | Some obj \<Rightarrow> map fst (filter (\<lambda>(name, spec). field_is_vector_spec spec) obj))"

definition merge_schema :: "json \<Rightarrow> json \<Rightarrow> json res" where
  "merge_schema existing patch =
     (case as_object patch of
        None \<Rightarrow> Inr existing
      | Some patch_obj \<Rightarrow>
          (let out = (case as_object existing of Some m \<Rightarrow> m | None \<Rightarrow> []);
               merged = JObject (fold (\<lambda>(name, spec). jinsert name spec) patch_obj out)
           in if MAX_VECTOR_FIELDS < length (vector_fields_from_schema merged)
              then Inl (ErrMsg ''namespace schema has too many vector fields'')
              else Inr merged))"

definition type_is_text :: "string \<Rightarrow> bool" where
  "type_is_text t \<longleftrightarrow> str_contains t ''string'' \<or> str_contains t ''text'' \<or> t = ''full_text''"

definition field_full_text_search :: "json \<Rightarrow> bool" where
  "field_full_text_search spec \<longleftrightarrow>
     (case as_object spec of
        Some m \<Rightarrow>
          if Option.bind (jget ''full_text_search'' m) as_bool = Some True then True
          else (case jget ''type'' m of
                  Some (JString t) \<Rightarrow> type_is_text (to_ascii_lowercase t)
                | _ \<Rightarrow> False)
      | None \<Rightarrow>
          (case as_str spec of
             Some s \<Rightarrow> type_is_text (to_ascii_lowercase s)
           | None \<Rightarrow> False))"

definition scalar_type_filterable :: "string \<Rightarrow> bool" where
  "scalar_type_filterable t \<longleftrightarrow>
     str_contains t ''string'' \<or> str_contains t ''bool'' \<or> str_contains t ''int'' \<or>
     str_contains t ''uint'' \<or> str_contains t ''float'' \<or> t = ''number'' \<or> t = ''uuid'' \<or>
     str_contains t ''datetime''"

definition field_filterable :: "json \<Rightarrow> bool" where
  "field_filterable spec \<longleftrightarrow>
     (case as_object spec of
        Some m \<Rightarrow>
          (let flag = Option.bind (jget ''filterable'' m) as_bool in
           if flag = Some False then False
           else if flag = Some True then True
           else if field_is_vector_spec spec then False
           else if field_full_text_search spec then True
           else (case jget ''type'' m of
                   Some (JString t) \<Rightarrow> scalar_type_filterable (to_ascii_lowercase t)
                 | _ \<Rightarrow> False))
      | None \<Rightarrow>
          (case as_str spec of
             Some s \<Rightarrow>
               (let t = to_ascii_lowercase s in
                if field_is_vector_type_str t then False else scalar_type_filterable t)
           | None \<Rightarrow> False))"

definition validate_patch_attributes :: "attrs \<Rightarrow> json \<Rightarrow> string + unit" where
  "validate_patch_attributes attrs sch =
     (case as_object sch of
        None \<Rightarrow> Inr ()
      | Some obj \<Rightarrow>
          (case List.find (\<lambda>key. case jget key obj of
                                   Some spec \<Rightarrow> field_is_vector_spec spec | None \<Rightarrow> False)
                  (fm_keys attrs) of
             Some key \<Rightarrow> Inl (''cannot patch vector field '' @ key)
           | None \<Rightarrow> Inr ()))"

definition field_type_name :: "json \<Rightarrow> string option" where
  "field_type_name spec =
     (case spec of
        JString s \<Rightarrow> Some (to_ascii_lowercase (trim s))
      | JObject m \<Rightarrow>
          map_option (\<lambda>t. to_ascii_lowercase (trim t)) (Option.bind (jget ''type'' m) as_str)
      | _ \<Rightarrow> None)"

definition field_is_datetime_scalar :: "json \<Rightarrow> bool" where
  "field_is_datetime_scalar spec \<longleftrightarrow> field_type_name spec = Some ''datetime''"

definition field_is_uuid_scalar :: "json \<Rightarrow> bool" where
  "field_is_uuid_scalar spec \<longleftrightarrow> field_type_name spec = Some ''uuid''"

definition field_is_uuid_array :: "json \<Rightarrow> bool" where
  "field_is_uuid_array spec \<longleftrightarrow> field_type_name spec = Some ''[]uuid''"

text \<open>
  \<open>rfc3339_utc\<close> parses an RFC 3339 text and prints the instant in the fixed UTC layout;
  \<open>uuid_hyphenated\<close> parses a UUID and prints its lower-case hyphenated form.
\<close>

record canon =
  rfc3339_utc :: "string \<Rightarrow> string option"
  uuid_hyphenated :: "string \<Rightarrow> string option"

definition canonicalize_datetime_str :: "'z canon_scheme \<Rightarrow> string \<Rightarrow> string + string" where
  "canonicalize_datetime_str cn raw =
     (case rfc3339_utc cn (trim raw) of
        None \<Rightarrow> Inl (''invalid datetime '' @ raw) | Some s \<Rightarrow> Inr s)"

definition canonicalize_uuid_str :: "'z canon_scheme \<Rightarrow> string \<Rightarrow> string + string" where
  "canonicalize_uuid_str cn raw =
     (case uuid_hyphenated cn (trim raw) of
        None \<Rightarrow> Inl (''invalid uuid '' @ raw) | Some s \<Rightarrow> Inr s)"

definition normalize_datetime_scalar_value :: "'z canon_scheme \<Rightarrow> json \<Rightarrow> string \<Rightarrow> string + json" where
  "normalize_datetime_scalar_value cn v field =
     (case as_str v of
        None \<Rightarrow> Inl (''datetime value must be a string: '' @ field)
      | Some s \<Rightarrow> map_ok JString (canonicalize_datetime_str cn s))"

definition normalize_uuid_scalar_value :: "'z canon_scheme \<Rightarrow> json \<Rightarrow> string \<Rightarrow> string + json" where
  "normalize_uuid_scalar_value cn v field =
     (case as_str v of
        None \<Rightarrow> Inl (''uuid value must be a string: '' @ field)
      | Some s \<Rightarrow> map_ok JString (canonicalize_uuid_str cn s))"

definition normalize_uuid_array_value :: "'z canon_scheme \<Rightarrow> json \<Rightarrow> string \<Rightarrow> string + json" where
  "normalize_uuid_array_value cn v field =
     (case as_array v of
        None \<Rightarrow> Inl (''[]uuid value must be an array: '' @ field)
      | Some arr \<Rightarrow>
          map_ok JArray
            (traverse (\<lambda>item. case as_str item of
                                None \<Rightarrow> Inl (''[]uuid element must be a string: '' @ field)
                              | Some s \<Rightarrow> map_ok JString (canonicalize_uuid_str cn s)) arr))"

definition normalize_attribute ::
  "'z canon_scheme \<Rightarrow> (string \<times> json) list \<Rightarrow> string \<Rightarrow> json \<Rightarrow> string + json" where
  "normalize_attribute cn obj key v =
     (case jget key obj of
        None \<Rightarrow> Inr v
      | Some spec \<Rightarrow>
          if field_is_datetime_scalar spec then normalize_datetime_scalar_value cn v key
          else if field_is_uuid_scalar spec then normalize_uuid_scalar_value cn v key
          else if field_is_uuid_array spec then normalize_uuid_array_value cn v key
          else Inr v)"

definition validate_and_normalize_document_attributes ::
  "'z canon_scheme \<Rightarrow> attrs \<Rightarrow> json \<Rightarrow> string + attrs" where
  "validate_and_normalize_document_attributes cn attrs sch =
     (case as_object sch of
        None \<Rightarrow> Inr attrs
      | Some obj \<Rightarrow>
          map_ok fmap_of_list
            (traverse (\<lambda>(k, v). map_ok (Pair k) (normalize_attribute cn obj k v)) (fm_entries attrs)))"

section \<open>Merging\<close>

lemma fold_jinsert:
  assumes "obj_ok obj" "distinct (map fst ps)"
  shows "obj_ok (fold (\<lambda>(k, v). jinsert k v) ps obj)"
    and "jget k (fold (\<lambda>(k, v). jinsert k v) ps obj) =
          (case map_of ps k of Some v \<Rightarrow> Some v | None \<Rightarrow> jget k obj)"
proof -
  have "obj_ok (fold (\<lambda>(k, v). jinsert k v) ps obj) \<and>
      jget k (fold (\<lambda>(k, v). jinsert k v) ps obj) =
        (case map_of ps k of Some v \<Rightarrow> Some v | None \<Rightarrow> jget k obj)"
    using assms
  proof (induction ps arbitrary: obj)
    case (Cons p ps)
    obtain n s where p: "p = (n, s)" by (cases p)
    have "map_of ps n = None"
      using Cons.prems(2) by (simp add: p map_of_eq_None_iff)
    then show ?case
      using Cons.IH [of "jinsert n s obj"] Cons.prems
      by (auto simp: p obj_ok_jinsert jget_jinsert split: option.splits)
  qed simp
  then show "obj_ok (fold (\<lambda>(k, v). jinsert k v) ps obj)"
    and "jget k (fold (\<lambda>(k, v). jinsert k v) ps obj) =
          (case map_of ps k of Some v \<Rightarrow> Some v | None \<Rightarrow> jget k obj)"
    by simp_all
qed

lemma obj_ok_distinct: "obj_ok obj \<Longrightarrow> distinct (map fst obj)"
  by (auto simp: obj_ok_def strict_sorted_iff)

lemma merge_schema_object: "merge_schema e p = Inr s \<Longrightarrow> s = e \<or> (\<exists>obj. s = JObject obj)"
  by (auto simp: merge_schema_def Let_def split: option.splits if_splits)

lemma merge_schema_vector_count:
  "merge_schema e p = Inr s \<Longrightarrow> length (vector_fields_from_schema e) \<le> MAX_VECTOR_FIELDS \<Longrightarrow>
   length (vector_fields_from_schema s) \<le> MAX_VECTOR_FIELDS"
  by (auto simp: merge_schema_def Let_def split: option.splits if_splits)

lemma distinct_vector_fields:
  "as_object s = Some obj \<Longrightarrow> obj_ok obj \<Longrightarrow> distinct (vector_fields_from_schema s)"
  by (simp add: vector_fields_from_schema_def distinct_map_filter obj_ok_distinct)

section \<open>Normalisation\<close>

locale canonical_forms =
  fixes cn :: "'z canon_scheme"
  assumes rfc3339_fix: "rfc3339_utc cn s = Some c \<Longrightarrow> rfc3339_utc cn (trim c) = Some c"
    and uuid_fix: "uuid_hyphenated cn s = Some c \<Longrightarrow> uuid_hyphenated cn (trim c) = Some c"
begin

lemma datetime_idem:
  "normalize_datetime_scalar_value cn v f = Inr w \<Longrightarrow> normalize_datetime_scalar_value cn w f = Inr w"
  by (auto simp: normalize_datetime_scalar_value_def canonicalize_datetime_str_def
      split: option.splits dest: rfc3339_fix)

lemma uuid_idem:
  "normalize_uuid_scalar_value cn v f = Inr w \<Longrightarrow> normalize_uuid_scalar_value cn w f = Inr w"
  by (auto simp: normalize_uuid_scalar_value_def canonicalize_uuid_str_def
      split: option.splits dest: uuid_fix)

lemma uuid_array_idem:
  assumes "normalize_uuid_array_value cn v f = Inr w"
  shows "normalize_uuid_array_value cn w f = Inr w"
proof -
  let ?g = "\<lambda>item. case as_str item of
              None \<Rightarrow> Inl (''[]uuid element must be a string: '' @ f)
            | Some s \<Rightarrow> map_ok JString (canonicalize_uuid_str cn s)"
  obtain arr ws where v: "as_array v = Some arr" and ws: "traverse ?g arr = Inr ws" and w: "w = JArray ws"
    using assms by (cases "as_array v"; cases "traverse ?g (the (as_array v))")
      (auto simp: normalize_uuid_array_value_def)
  have "?g y = Inr y" if y: "y \<in> set ws" for y
  proof -
    obtain x where "x \<in> set arr" "?g x = Inr y"
      using traverse_mem [OF ws y] by blast
    then show ?thesis
      by (auto simp: canonicalize_uuid_str_def split: option.splits dest: uuid_fix)
  qed
  then have "traverse ?g ws = Inr (map (\<lambda>y. y) ws)"
    by (rule traverse_Inr_all)
  then show ?thesis by (simp add: w normalize_uuid_array_value_def)
qed

lemma normalize_attribute_idem:
  "normalize_attribute cn obj k v = Inr w \<Longrightarrow> normalize_attribute cn obj k w = Inr w"
  by (auto simp: normalize_attribute_def datetime_idem uuid_idem uuid_array_idem
      split: option.splits if_splits)

lemma normalize_entries_idem:
  assumes "traverse (\<lambda>(k, v). map_ok (Pair k) (normalize_attribute cn obj k v)) es = Inr fs"
  shows "map fst fs = map fst es \<and>
    traverse (\<lambda>(k, v). map_ok (Pair k) (normalize_attribute cn obj k v)) fs = Inr fs"
  using assms
proof (induction es arbitrary: fs)
  case (Cons e es)
  obtain k v where e: "e = (k, v)" by (cases e)
  obtain w fs' where "normalize_attribute cn obj k v = Inr w" "fs = (k, w) # fs'"
    and "traverse (\<lambda>(k, v). map_ok (Pair k) (normalize_attribute cn obj k v)) es = Inr fs'"
    using Cons.prems by (cases "normalize_attribute cn obj k v") (auto simp: e split: sum.splits)
  with Cons.IH show ?case by (simp add: e normalize_attribute_idem)
qed simp

lemma validate_and_normalize_idem:
  assumes "validate_and_normalize_document_attributes cn a sch = Inr b"
  shows "fm_keys b = fm_keys a \<and> validate_and_normalize_document_attributes cn b sch = Inr b"
proof (cases "as_object sch")
  case None
  then show ?thesis using assms by (simp add: validate_and_normalize_document_attributes_def)
next
  case (Some obj)
  let ?f = "\<lambda>(k, v). map_ok (Pair k) (normalize_attribute cn obj k v)"
  obtain fs where fs: "traverse ?f (fm_entries a) = Inr fs" and b: "b = fmap_of_list fs"
    using assms Some
    by (cases "traverse ?f (fm_entries a)") (auto simp: validate_and_normalize_document_attributes_def)
  from normalize_entries_idem [OF fs]
  have keys: "map fst fs = fm_keys a" and again: "traverse ?f fs = Inr fs" by simp_all
  have "fm_entries b = fs"
    unfolding b by (rule fm_entries_of_sorted) (simp add: keys strict_sorted_iff)
  then show ?thesis
    using keys again Some
    by (simp add: validate_and_normalize_document_attributes_def b flip: map_fst_fm_entries)
qed

end

end
