(* ===== verification/Meta.thy ===== *)
theory Meta
  imports Schema
begin

text \<open>
  Namespace metadata (\<^verbatim>\<open>src/meta.rs\<close>): the durable record behind \<^verbatim>\<open>meta.json\<close>, the update a WAL
  commit makes to it, and the invariant \<open>meta_ok\<close> every committed record satisfies.
\<close>

section \<open>Definitions\<close>

definition META_RETRIES :: nat where
  "META_RETRIES = 8"

definition ANN_VERSION_V2 :: nat where
  "ANN_VERSION_V2 = 2"

definition ANN_VERSION_V3 :: nat where
  "ANN_VERSION_V3 = 3"

record vector_field_config =
  vf_name :: string
  vf_dimensions :: nat
  vf_element :: vector_element
  vf_segment_id :: u64
  vf_segment_ids :: "u64 list"

datatype distance_metric = CosineDistance | EuclideanSquared

record namespace_meta =
  index_cursor :: u64
  fts_segment_id :: u64
  fts_segment_ids :: "u64 list"
  vector_segment_id :: u64
  vector_segment_ids :: "u64 list"
  filter_segment_id :: u64
  filter_segment_ids :: "u64 list"
  vector_fields :: "vector_field_config list"
  vector_field :: string
  dimensions :: nat
  wal_commit_seq :: u64
  wal_snapshot_seq :: u64
  schema :: json
  metric :: distance_metric
  preferred_ann_version :: nat

definition metric_name :: "distance_metric \<Rightarrow> string" where
  "metric_name m = (case m of CosineDistance \<Rightarrow> ''cosine_distance'' | EuclideanSquared \<Rightarrow> ''euclidean_squared'')"

definition parse_distance_metric :: "string \<Rightarrow> distance_metric res" where
  "parse_distance_metric s =
     (if s = ''cosine_distance'' then Inr CosineDistance
      else if s = ''euclidean_squared'' then Inr EuclideanSquared
      else Inl (ErrMsg ''invalid distance_metric''))"

definition resolve_distance_metric ::
  "namespace_meta \<Rightarrow> distance_metric option \<Rightarrow> distance_metric res" where
  "resolve_distance_metric m requested =
     (case requested of
        None \<Rightarrow> Inr (metric m)
      | Some r \<Rightarrow>
          if wal_commit_seq m = 0 then Inr r
          else if r = metric m then Inr (metric m)
          else Inl (ErrMsg (''distance_metric '' @ metric_name r @ '' conflicts with namespace '' @
                            metric_name (metric m))))"

definition default_meta :: namespace_meta where
  "default_meta =
     \<lparr>index_cursor = 0, fts_segment_id = 0, fts_segment_ids = [], vector_segment_id = 0,
      vector_segment_ids = [], filter_segment_id = 0, filter_segment_ids = [], vector_fields = [],
      vector_field = [], dimensions = 0, wal_commit_seq = 0, wal_snapshot_seq = 0,
      schema = JObject [], metric = CosineDistance, preferred_ann_version = ANN_VERSION_V2\<rparr>"

definition meta_key :: "string \<Rightarrow> string" where
  "meta_key ns = ROOT_PREFIX @ ns @ ''/meta.json''"

definition next_wal_seq :: "namespace_meta \<Rightarrow> u64" where
  "next_wal_seq m = sat_add (wal_commit_seq m) 1"

definition push_segment_id :: "u64 list \<Rightarrow> u64 \<Rightarrow> u64 list" where
  "push_segment_id ids i =
     (if i = 0 then ids else if ids \<noteq> [] \<and> last ids = i then ids else ids @ [i])"

definition effective_vector_fields :: "namespace_meta \<Rightarrow> vector_field_config list" where
  "effective_vector_fields m =
     (if vector_fields m \<noteq> [] then vector_fields m
      else if vector_field m = [] \<or> dimensions m = 0 then []
      else [\<lparr>vf_name = vector_field m, vf_dimensions = dimensions m, vf_element = F32,
             vf_segment_id = vector_segment_id m, vf_segment_ids = vector_segment_ids m\<rparr>])"

text \<open>\<^verbatim>\<open>iter_mut().find(...)\<close>: the first slot with the name is updated in place.\<close>

fun update_slot ::
  "string \<Rightarrow> (vector_field_config \<Rightarrow> vector_field_config) \<Rightarrow> vector_field_config list \<Rightarrow>
   vector_field_config list" where
  "update_slot n f [] = []"
| "update_slot n f (v # vs) = (if vf_name v = n then f v # vs else v # update_slot n f vs)"

definition hydrate_one :: "json \<Rightarrow> string \<Rightarrow> vector_field_config list \<Rightarrow> vector_field_config list" where
  "hydrate_one sch name vfs =
     (let dims = (case vector_dimensions_for_field sch name of None \<Rightarrow> 0 | Some d \<Rightarrow> d);
          element = vector_element_for_field sch name
      in if list_ex (\<lambda>f. vf_name f = name) vfs
         then update_slot name
                (\<lambda>slot. (if vf_segment_id slot = 0 then slot\<lparr>vf_dimensions := dims\<rparr> else slot)
                          \<lparr>vf_element := element\<rparr>) vfs
         else if length vfs < MAX_VECTOR_FIELDS
         then vfs @ [\<lparr>vf_name = name, vf_dimensions = dims, vf_element = element,
                       vf_segment_id = 0, vf_segment_ids = []\<rparr>]
         else vfs)"

definition hydrate_vector_fields_from_schema :: "namespace_meta \<Rightarrow> namespace_meta" where
  "hydrate_vector_fields_from_schema m =
     m\<lparr>vector_fields :=
         fold (hydrate_one (schema m))
           (take MAX_VECTOR_FIELDS (vector_fields_from_schema (schema m))) (vector_fields m)\<rparr>"

definition sync_legacy_vector_fields :: "namespace_meta \<Rightarrow> namespace_meta" where
  "sync_legacy_vector_fields m =
     (case vector_fields m of
        f # _ \<Rightarrow>
          m\<lparr>vector_field := vf_name f, dimensions := vf_dimensions f,
            vector_segment_id := vf_segment_id f, vector_segment_ids := vf_segment_ids f\<rparr>
      | [] \<Rightarrow>
          if vector_field m \<noteq> [] \<and> 0 < dimensions m then m
          else m\<lparr>vector_field := [], dimensions := 0, vector_segment_id := 0, vector_segment_ids := []\<rparr>)"

definition meta_after_wal_commit_options ::
  "namespace_meta \<Rightarrow> u64 \<Rightarrow> json option \<Rightarrow> distance_metric option \<Rightarrow> namespace_meta res" where
  "meta_after_wal_commit_options m s schema_patch dm =
     (if s \<noteq> sat_add (wal_commit_seq m) 1 then Inl (ErrMsg ''wal seq does not follow commit point'')
      else
        (case (case schema_patch of None \<Rightarrow> Inr (schema m) | Some patch \<Rightarrow> merge_schema (schema m) patch) of
           Inl e \<Rightarrow> Inl e
         | Inr sch \<Rightarrow>
             (let next = sync_legacy_vector_fields
                           (hydrate_vector_fields_from_schema (m\<lparr>wal_commit_seq := s, schema := sch\<rparr>))
              in case resolve_distance_metric m dm of
                   Inl e \<Rightarrow> Inl e
                 | Inr d \<Rightarrow> Inr (next\<lparr>metric := d\<rparr>))))"

definition meta_after_wal_commit_with_schema ::
  "namespace_meta \<Rightarrow> u64 \<Rightarrow> json option \<Rightarrow> namespace_meta res" where
  "meta_after_wal_commit_with_schema m s schema_patch = meta_after_wal_commit_options m s schema_patch None"

definition meta_after_wal_commit :: "namespace_meta \<Rightarrow> u64 \<Rightarrow> namespace_meta res" where
  "meta_after_wal_commit m s = meta_after_wal_commit_options m s None None"

definition vector_index_uses_legacy_paths :: "namespace_meta \<Rightarrow> string \<Rightarrow> bool" where
  "vector_index_uses_legacy_paths m field \<longleftrightarrow>
     vector_fields m = [] \<and> vector_field m = field \<and> 0 < vector_segment_id m"

section \<open>The invariant\<close>

definition legacy_synced :: "namespace_meta \<Rightarrow> bool" where
  "legacy_synced m \<longleftrightarrow>
     (case vector_fields m of
        [] \<Rightarrow> True
      | f # _ \<Rightarrow> vector_field m = vf_name f \<and> dimensions m = vf_dimensions f \<and>
          vector_segment_id m = vf_segment_id f \<and> vector_segment_ids m = vf_segment_ids f)"

definition vector_fields_ok :: "vector_field_config list \<Rightarrow> bool" where
  "vector_fields_ok vfs \<longleftrightarrow> length vfs \<le> MAX_VECTOR_FIELDS \<and> distinct (map vf_name vfs)"

definition meta_ok :: "namespace_meta \<Rightarrow> bool" where
  "meta_ok m \<longleftrightarrow>
     wal_snapshot_seq m \<le> index_cursor m \<and> index_cursor m \<le> wal_commit_seq m \<and>
     wal_commit_seq m \<le> u64_max \<and> vector_fields_ok (vector_fields m) \<and> legacy_synced m"

text \<open>A segment generation chain: increasing, ending in the current id, 0 standing for none.\<close>

definition chain_ok :: "u64 list \<Rightarrow> u64 \<Rightarrow> bool" where
  "chain_ok ids i \<longleftrightarrow> sorted_wrt (<) ids \<and> 0 \<notin> set ids \<and> i = (if ids = [] then 0 else last ids)"

lemma meta_ok_default: "meta_ok default_meta"
  by (simp add: meta_ok_def default_meta_def vector_fields_ok_def legacy_synced_def)

lemma names_update_slot:
  "(\<And>v. vf_name (f v) = vf_name v) \<Longrightarrow> map vf_name (update_slot n f vs) = map vf_name vs"
  by (induction vs) auto

lemma hydrate_one_names:
  "map vf_name (hydrate_one sch n vfs) =
     (if n \<in> set (map vf_name vfs) \<or> MAX_VECTOR_FIELDS \<le> length vfs then map vf_name vfs
      else map vf_name vfs @ [n])"
  by (auto simp: hydrate_one_def Let_def list_ex_iff names_update_slot)

lemma vector_fields_ok_hydrate_one: "vector_fields_ok vfs \<Longrightarrow> vector_fields_ok (hydrate_one sch n vfs)"
proof -
  assume ok: "vector_fields_ok vfs"
  have "length (hydrate_one sch n vfs) = length (map vf_name (hydrate_one sch n vfs))" by simp
  also have "\<dots> \<le> MAX_VECTOR_FIELDS"
    using ok by (subst hydrate_one_names) (simp add: vector_fields_ok_def)
  finally show ?thesis
    using ok by (auto simp: vector_fields_ok_def hydrate_one_names)
qed

lemma vector_fields_ok_hydrate: "vector_fields_ok vfs \<Longrightarrow> vector_fields_ok (fold (hydrate_one sch) ns vfs)"
  by (induction ns arbitrary: vfs) (auto simp: vector_fields_ok_hydrate_one)

lemma legacy_synced_sync: "legacy_synced (sync_legacy_vector_fields m)"
  by (simp add: sync_legacy_vector_fields_def legacy_synced_def split: list.splits)

lemma sync_legacy_frame [simp]:
  "wal_commit_seq (sync_legacy_vector_fields m) = wal_commit_seq m"
  "wal_snapshot_seq (sync_legacy_vector_fields m) = wal_snapshot_seq m"
  "index_cursor (sync_legacy_vector_fields m) = index_cursor m"
  "vector_fields (sync_legacy_vector_fields m) = vector_fields m"
  "schema (sync_legacy_vector_fields m) = schema m"
  "metric (sync_legacy_vector_fields m) = metric m"
  "fts_segment_id (sync_legacy_vector_fields m) = fts_segment_id m"
  "fts_segment_ids (sync_legacy_vector_fields m) = fts_segment_ids m"
  "filter_segment_id (sync_legacy_vector_fields m) = filter_segment_id m"
  "filter_segment_ids (sync_legacy_vector_fields m) = filter_segment_ids m"
  by (auto simp: sync_legacy_vector_fields_def split: list.splits)

lemma hydrate_frame [simp]:
  "wal_commit_seq (hydrate_vector_fields_from_schema m) = wal_commit_seq m"
  "wal_snapshot_seq (hydrate_vector_fields_from_schema m) = wal_snapshot_seq m"
  "index_cursor (hydrate_vector_fields_from_schema m) = index_cursor m"
  "schema (hydrate_vector_fields_from_schema m) = schema m"
  "metric (hydrate_vector_fields_from_schema m) = metric m"
  "fts_segment_id (hydrate_vector_fields_from_schema m) = fts_segment_id m"
  "fts_segment_ids (hydrate_vector_fields_from_schema m) = fts_segment_ids m"
  "filter_segment_id (hydrate_vector_fields_from_schema m) = filter_segment_id m"
  "filter_segment_ids (hydrate_vector_fields_from_schema m) = filter_segment_ids m"
  by (simp_all add: hydrate_vector_fields_from_schema_def)

lemma legacy_synced_metric [simp]: "legacy_synced (m\<lparr>metric := d\<rparr>) = legacy_synced m"
  by (simp add: legacy_synced_def split: list.splits)

lemma vector_fields_ok_hydrate_meta:
  "vector_fields_ok (vector_fields m) \<Longrightarrow> vector_fields_ok (vector_fields (hydrate_vector_fields_from_schema m))"
  by (simp add: hydrate_vector_fields_from_schema_def vector_fields_ok_hydrate)

lemma wal_commit_meta:
  assumes "meta_after_wal_commit_options m s sp dm = Inr m'"
  shows "s = sat_add (wal_commit_seq m) 1" "wal_commit_seq m' = s"
    "wal_snapshot_seq m' = wal_snapshot_seq m" "index_cursor m' = index_cursor m"
    "fts_segment_id m' = fts_segment_id m" "filter_segment_id m' = filter_segment_id m"
    "vector_fields_ok (vector_fields m) \<Longrightarrow> vector_fields_ok (vector_fields m')"
    "legacy_synced m'"
    "resolve_distance_metric m dm = Inr (metric m')"
  using assms
  by (auto simp: meta_after_wal_commit_options_def Let_def legacy_synced_sync
      vector_fields_ok_hydrate_meta split: if_splits option.splits sum.splits)

lemma meta_ok_wal_commit:
  assumes "meta_after_wal_commit_options m s sp dm = Inr m'" "meta_ok m"
  shows "meta_ok m'"
  using assms(2) wal_commit_meta [OF assms(1)] sat_add_ge [of "wal_commit_seq m" 1]
  by (auto simp: meta_ok_def)

lemma push_segment_id_chain:
  assumes "chain_ok ids i" "\<forall>x \<in> set ids. x < j" "0 < j"
  shows "chain_ok (push_segment_id ids j) j"
  using assms by (auto simp: chain_ok_def push_segment_id_def sorted_wrt_append split: if_splits)

end
