(* ===== verification/Retention.thy ===== *)
theory Retention
  imports Meta
begin

text \<open>
  The retention arithmetic of WAL compaction (the pure functions of \<^verbatim>\<open>src/wal_compaction.rs\<close>):
  when to compact, which segments may be deleted, and where replay starts.
\<close>

section \<open>Definitions\<close>

definition WAL_COMPACTION_THRESHOLD :: u64 where
  "WAL_COMPACTION_THRESHOLD = 10"

definition WAL_COMPACT_KEEP :: u64 where
  "WAL_COMPACT_KEEP = 3"

definition should_compact_wal :: "namespace_meta \<Rightarrow> bool" where
  "should_compact_wal m \<longleftrightarrow>
     wal_commit_seq m \<le> index_cursor m \<and> WAL_COMPACTION_THRESHOLD < wal_commit_seq m \<and>
     WAL_COMPACT_KEEP < index_cursor m"

definition needs_wal_compaction :: "namespace_meta \<Rightarrow> bool" where
  "needs_wal_compaction m \<longleftrightarrow> should_compact_wal m \<and> wal_snapshot_seq m < index_cursor m"

definition wal_seqs_to_delete :: "u64 \<Rightarrow> u64 \<Rightarrow> u64 list" where
  "wal_seqs_to_delete cursor keep_k =
     (if cursor \<le> keep_k then [] else let delete_through = cursor - keep_k in [1..<Suc delete_through])"

definition wal_replay_from :: "u64 \<Rightarrow> u64 \<Rightarrow> u64 option" where
  "wal_replay_from snapshot_seq commit_seq =
     (if commit_seq = 0 then None
      else let from = sat_add snapshot_seq 1
           in if commit_seq < from then None else Some (max from 1))"

section \<open>Lemmas\<close>

lemma set_wal_seqs_to_delete: "i \<in> set (wal_seqs_to_delete c k) \<longleftrightarrow> 1 \<le> i \<and> i + k \<le> c"
  by (auto simp: wal_seqs_to_delete_def Let_def)

lemma wal_replay_from_exact:
  assumes "p \<le> c" "c \<le> u64_max" "p < u64_max"
  shows "wal_replay_from p c = (if p < c then Some (Suc p) else None)"
  using assms by (auto simp: wal_replay_from_def sat_add_exact Let_def)

end
