(* ===== verification/Namespace.thy ===== *)
theory Namespace
  imports Wal Object_Store Retention
begin

text \<open>
  The per-namespace log on object storage (\<^verbatim>\<open>src/namespace.rs\<close>): metadata and segment reads with
  their retries, replay, the reconstruction of the document map, and the append protocol
  (segment PUT, then compare-and-swap of \<^verbatim>\<open>meta.json\<close>).  Sleeps and the in-process commit lock
  have no effect on a single run and are left out; interleaved runs are the subject of the
  theory Commit\_Protocol.
\<close>

section \<open>Operations\<close>

record ns_codec = codec +
  meta_to_vec :: "namespace_meta \<Rightarrow> bytes option"
  meta_from_slice :: "bytes \<Rightarrow> namespace_meta option"

text \<open>\<open>retry n f\<close>: up to \<open>n\<close> attempts of a fallible request; the last error is returned.\<close>

fun retry :: "nat \<Rightarrow> ('s \<Rightarrow> 'a res \<times> 's) \<Rightarrow> 's \<Rightarrow> 'a res \<times> 's" where
  "retry 0 f s = (Inl (ErrMsg ''no attempts''), s)"
| "retry (Suc n) f s =
     (case f s of
        (Inr v, s') \<Rightarrow> (Inr v, s')
      | (Inl e, s') \<Rightarrow> if n = 0 then (Inl e, s') else retry n f s')"

definition ends_with :: "string \<Rightarrow> string \<Rightarrow> bool" where
  "ends_with s suf \<longleftrightarrow> length suf \<le> length s \<and> drop (length s - length suf) s = suf"

definition get_meta_json ::
  "'s s3_client \<Rightarrow> 'z ns_codec_scheme \<Rightarrow> string \<Rightarrow> 's \<Rightarrow>
   (namespace_meta \<times> string option) option res \<times> 's" where
  "get_meta_json S cd key s =
     (case get_object S key s of
        (GetOk b etag, s') \<Rightarrow>
          (case meta_from_slice cd b of
             None \<Rightarrow> (Inl (ErrMsg ''parse json object''), s')
           | Some m \<Rightarrow> (Inr (Some (m, etag)), s'))
      | (GetBodyErr, s') \<Rightarrow> (Inl (ErrMsg ''read object body''), s')
      | (GetErr e, s') \<Rightarrow>
          (case e of
             NoSuchKey \<Rightarrow> (Inr None, s')
           | NotFound \<Rightarrow> (Inr None, s')
           | NoSuchBucket \<Rightarrow> (Inl (ErrMsg ''S3 bucket not found''), s')
           | PreconditionFailed \<Rightarrow> (Inl (S3Failed e), s')
           | OtherS3 msg \<Rightarrow>
               if ends_with key ''/meta.json'' \<and>
                  (str_contains msg ''unhandled error'' \<or> str_contains msg ''NotFound'')
               then (Inr None, s') else (Inl (S3Failed e), s')))"

definition get_meta_with_retry ::
  "'s s3_client \<Rightarrow> 'z ns_codec_scheme \<Rightarrow> string \<Rightarrow> 's \<Rightarrow>
   (namespace_meta \<times> string option) option res \<times> 's" where
  "get_meta_with_retry S cd key s = retry 4 (get_meta_json S cd key) s"

definition fetch_meta ::
  "'s s3_client \<Rightarrow> 'z ns_codec_scheme \<Rightarrow> string \<Rightarrow> 's \<Rightarrow>
   (namespace_meta \<times> string option) option res \<times> 's" where
  "fetch_meta S cd ns s = get_meta_with_retry S cd (meta_key ns) s"

definition get_object_bytes_optional ::
  "'s s3_client \<Rightarrow> string \<Rightarrow> 's \<Rightarrow> (bytes \<times> string option) option res \<times> 's" where
  "get_object_bytes_optional S key s =
     (case get_object S key s of
        (GetOk b etag, s') \<Rightarrow> (Inr (Some (b, etag)), s')
      | (GetBodyErr, s') \<Rightarrow> (Inl (ErrMsg ''read object body''), s')
      | (GetErr e, s') \<Rightarrow> if e = NoSuchKey then (Inr None, s') else (Inl (S3Failed e), s'))"

definition get_object_bytes :: "'s s3_client \<Rightarrow> string \<Rightarrow> 's \<Rightarrow> bytes res \<times> 's" where
  "get_object_bytes S key s =
     (case get_object_bytes_optional S key s of
        (Inl e, s') \<Rightarrow> (Inl e, s')
      | (Inr None, s') \<Rightarrow> (Inl (ErrMsg (''object not found: '' @ key)), s')
      | (Inr (Some (b, _)), s') \<Rightarrow> (Inr b, s'))"

definition read_wal_segment :: "'s s3_client \<Rightarrow> string \<Rightarrow> u64 \<Rightarrow> 's \<Rightarrow> bytes res \<times> 's" where
  "read_wal_segment S ns q s = get_object_bytes S (wal_key ns q) s"

definition read_wal_entry ::
  "'s s3_client \<Rightarrow> 'z codec_scheme \<Rightarrow> string \<Rightarrow> u64 \<Rightarrow> 's \<Rightarrow> wal_entry res \<times> 's" where
  "read_wal_entry S cd ns q s =
     (case read_wal_segment S ns q s of
        (Inl e, s') \<Rightarrow> (Inl e, s')
      | (Inr b, s') \<Rightarrow> (decode_segment cd b (Some q), s'))"

fun read_entries ::
  "'s s3_client \<Rightarrow> 'z codec_scheme \<Rightarrow> string \<Rightarrow> u64 list \<Rightarrow> 's \<Rightarrow> wal_entry list res \<times> 's" where
  "read_entries S cd ns [] s = (Inr [], s)"
| "read_entries S cd ns (q # qs) s =
     (case read_wal_entry S cd ns q s of
        (Inl e, s') \<Rightarrow> (Inl e, s')
      | (Inr entry, s') \<Rightarrow>
          (case read_entries S cd ns qs s' of
             (Inl e, s'') \<Rightarrow> (Inl e, s'')
           | (Inr entries, s'') \<Rightarrow> (Inr (entry # entries), s'')))"

definition replay_wal_entries ::
  "'s s3_client \<Rightarrow> 'z codec_scheme \<Rightarrow> string \<Rightarrow> u64 \<Rightarrow> u64 \<Rightarrow> 's \<Rightarrow> wal_entry list res \<times> 's" where
  "replay_wal_entries S cd ns from_seq to_seq s =
     (if from_seq = 0 \<or> to_seq = 0 \<or> to_seq < from_seq then (Inr [], s)
      else read_entries S cd ns [from_seq..<Suc to_seq] s)"

definition read_wal_snapshot ::
  "'s s3_client \<Rightarrow> 'z codec_scheme \<Rightarrow> string \<Rightarrow> 's \<Rightarrow> wal_snapshot option res \<times> 's" where
  "read_wal_snapshot S cd ns s =
     (case get_object_bytes_optional S (snapshot_key ns) s of
        (Inl e, s') \<Rightarrow> (Inl e, s')
      | (Inr None, s') \<Rightarrow> (Inr None, s')
      | (Inr (Some (b, _)), s') \<Rightarrow> (map_ok Some (decode_snapshot cd b), s'))"

text \<open>The document map is mutated in place: it is returned along with the result.\<close>

fun replay_segments ::
  "'s s3_client \<Rightarrow> 'z codec_scheme \<Rightarrow> wal_corrupt_policy \<Rightarrow> string \<Rightarrow> docs \<Rightarrow> u64 list \<Rightarrow> 's \<Rightarrow>
   (docs \<times> unit res) \<times> 's" where
  "replay_segments S cd pol ns docs [] s = ((docs, Inr ()), s)"
| "replay_segments S cd pol ns docs (q # qs) s =
     (case read_wal_segment S ns q s of
        (Inl e, s') \<Rightarrow> ((docs, Inl e), s')
      | (Inr b, s') \<Rightarrow>
          (case decode_segment_with_policy cd b q pol of
             Inl e \<Rightarrow> ((docs, Inl e), s')
           | Inr None \<Rightarrow> replay_segments S cd pol ns docs qs s'
           | Inr (Some entry) \<Rightarrow>
               (case apply_entry cd docs entry of
                  (docs', Inl e) \<Rightarrow> ((docs', Inl e), s')
                | (docs', Inr _) \<Rightarrow> replay_segments S cd pol ns docs' qs s')))"

definition replay_wal_range ::
  "'s s3_client \<Rightarrow> 'z codec_scheme \<Rightarrow> wal_corrupt_policy \<Rightarrow> string \<Rightarrow> docs \<Rightarrow> u64 \<Rightarrow> u64 \<Rightarrow> 's \<Rightarrow>
   (docs \<times> unit res) \<times> 's" where
  "replay_wal_range S cd pol ns docs from_seq to_seq s =
     (if from_seq = 0 \<or> to_seq = 0 \<or> to_seq < from_seq then ((docs, Inr ()), s)
      else replay_segments S cd pol ns docs [from_seq..<Suc to_seq] s)"

definition load_docs_at_wal_commit ::
  "'s s3_client \<Rightarrow> 'z codec_scheme \<Rightarrow> wal_corrupt_policy \<Rightarrow> string \<Rightarrow> namespace_meta \<Rightarrow> 's \<Rightarrow>
   (docs \<times> u64) res \<times> 's" where
  "load_docs_at_wal_commit S cd pol ns m s =
     (let (base, s1) =
        (if 0 < wal_snapshot_seq m
         then (case read_wal_snapshot S cd ns s of
                 (Inl e, s') \<Rightarrow> (Inl e, s')
               | (Inr None, s') \<Rightarrow> (Inr (fmempty, 0), s')
               | (Inr (Some snap), s') \<Rightarrow>
                   if snap_seq snap = wal_snapshot_seq m
                   then (Inr (snapshot_into_docs snap, snap_seq snap), s')
                   else (Inr (fmempty, 0), s'))
         else (Inr (fmempty, 0), s))
      in case base of
           Inl e \<Rightarrow> (Inl e, s1)
         | Inr (docs, last_applied) \<Rightarrow>
             (case wal_replay_from last_applied (wal_commit_seq m) of
                None \<Rightarrow> (Inr (docs, last_applied), s1)
              | Some from_seq \<Rightarrow>
                  (case replay_wal_range S cd pol ns docs from_seq (wal_commit_seq m) s1 of
                     ((docs', Inl e), s2) \<Rightarrow> (Inl e, s2)
                   | ((docs', Inr _), s2) \<Rightarrow> (Inr (docs', wal_commit_seq m), s2))))"

definition docs_at_index_cursor ::
  "'s s3_client \<Rightarrow> 'z codec_scheme \<Rightarrow> wal_corrupt_policy \<Rightarrow> string \<Rightarrow> u64 \<Rightarrow> 's \<Rightarrow> docs res \<times> 's" where
  "docs_at_index_cursor S cd pol ns cursor s =
     (if cursor = 0 then (Inr fmempty, s)
      else
        (case read_wal_snapshot S cd ns s of
           (Inl e, s1) \<Rightarrow> (Inl e, s1)
         | (Inr snap, s1) \<Rightarrow>
             (let (docs, replay_from) =
                (case snap of
                   Some sn \<Rightarrow> if snap_seq sn \<le> cursor then (snapshot_into_docs sn, sat_add (snap_seq sn) 1)
                              else (fmempty, 1)
                 | None \<Rightarrow> (fmempty, 1))
              in if replay_from \<le> cursor
                 then (case replay_wal_range S cd pol ns docs replay_from cursor s1 of
                         ((docs', Inl e), s2) \<Rightarrow> (Inl e, s2)
                       | ((docs', Inr _), s2) \<Rightarrow> (Inr docs', s2))
                 else (Inr docs, s1))))"

definition put_wal_with_retry ::
  "'s s3_client \<Rightarrow> string \<Rightarrow> u64 \<Rightarrow> bytes \<Rightarrow> 's \<Rightarrow> unit res \<times> 's" where
  "put_wal_with_retry S ns q body s =
     retry 4 (\<lambda>s0. case put_object S (wal_key ns q) body Always s0 of
                     (Inl e, s') \<Rightarrow> (Inl (S3Failed e), s')
                   | (Inr _, s') \<Rightarrow> (Inr (), s')) s"

definition cas_cond :: "string option \<Rightarrow> put_cond" where
  "cas_cond etag = (case etag of Some t \<Rightarrow> IfMatch t | None \<Rightarrow> IfNoneMatch)"

text \<open>
  One pass of the loop, in two halves.  The result None is \<^verbatim>\<open>continue\<close>; \<open>again\<close> is
  \<^verbatim>\<open>attempt + 1 < META_RETRIES\<close>.
\<close>

definition commit_meta ::
  "'s s3_client \<Rightarrow> 'z ns_codec_scheme \<Rightarrow> string \<Rightarrow> u64 \<Rightarrow> namespace_meta \<Rightarrow> string option \<Rightarrow> bool \<Rightarrow> 's \<Rightarrow>
   u64 res option \<times> 's" where
  "commit_meta S cd ns q next_meta etag again s =
     (case meta_to_vec cd next_meta of
        None \<Rightarrow> (Some (Inl (ErrMsg ''serialize meta'')), s)
      | Some body \<Rightarrow>
          (case put_object S (meta_key ns) body (cas_cond etag) s of
             (Inr _, s') \<Rightarrow> (Some (Inr q), s')
           | (Inl e, s') \<Rightarrow>
               if e = PreconditionFailed \<and> again
               then (None, snd (delete_object S (wal_key ns q) s'))
               else (Some (Inl (S3Failed e)), s')))"

definition append_attempt ::
  "'s s3_client \<Rightarrow> 'z ns_codec_scheme \<Rightarrow> string \<Rightarrow> wal_entry \<Rightarrow> json option \<Rightarrow> distance_metric option \<Rightarrow>
   bool \<Rightarrow> 's \<Rightarrow> u64 res option \<times> 's" where
  "append_attempt S cd ns entry sp dm again s =
     (case get_meta_with_retry S cd (meta_key ns) s of
        (Inl e, s1) \<Rightarrow> (Some (Inl e), s1)
      | (Inr got, s1) \<Rightarrow>
          (let (m, etag) = (case got of Some me \<Rightarrow> me | None \<Rightarrow> (default_meta, None));
               q = next_wal_seq m
           in case encode cd entry of
                Inl e \<Rightarrow> (Some (Inl e), s1)
              | Inr body \<Rightarrow>
                  (case put_wal_with_retry S ns q body s1 of
                     (Inl e, s2) \<Rightarrow> (Some (Inl e), s2)
                   | (Inr _, s2) \<Rightarrow>
                       (case meta_after_wal_commit_options m q sp dm of
                          Inl e \<Rightarrow> (Some (Inl e), s2)
                        | Inr next_meta \<Rightarrow> commit_meta S cd ns q next_meta etag again s2))))"

fun append_attempts ::
  "'s s3_client \<Rightarrow> 'z ns_codec_scheme \<Rightarrow> string \<Rightarrow> wal_entry \<Rightarrow> json option \<Rightarrow> distance_metric option \<Rightarrow>
   nat \<Rightarrow> 's \<Rightarrow> u64 res \<times> 's" where
  "append_attempts S cd ns entry sp dm 0 s = (Inl (ErrMsg ''meta CAS failed after retries''), s)"
| "append_attempts S cd ns entry sp dm (Suc left) s =
     (case append_attempt S cd ns entry sp dm (0 < left) s of
        (Some r, s') \<Rightarrow> (r, s')
      | (None, s') \<Rightarrow> append_attempts S cd ns entry sp dm left s')"

definition append_wal ::
  "'s s3_client \<Rightarrow> 'z ns_codec_scheme \<Rightarrow> string \<Rightarrow> wal_entry \<Rightarrow> json option \<Rightarrow> distance_metric option \<Rightarrow>
   's \<Rightarrow> u64 res \<times> 's" where
  "append_wal S cd ns entry sp dm s = append_attempts S cd ns entry sp dm META_RETRIES s"

end
