(* ===== verification/Namespace_Log.thy ===== *)
theory Namespace_Log
  imports Namespace
begin

text \<open>
  The abstract view of a namespace: the list of its committed batches.  \<open>ns_rep\<close> relates the
  objects of the bucket to it; reads compute the documents of the log, and an append extends
  the log by one batch.
\<close>

section \<open>Representation\<close>

definition run_log :: "batch list \<Rightarrow> docs" where
  "run_log bs = foldl apply_batch fmempty bs"

definition seg_at :: "'z codec_scheme \<Rightarrow> objects \<Rightarrow> string \<Rightarrow> u64 \<Rightarrow> batch \<Rightarrow> bool" where
  "seg_at cd ob ns i b \<longleftrightarrow>
     (\<exists>body tag e. ob (wal_key ns i) = Some (body, tag) \<and> decode_segment cd body (Some i) = Inr e \<and>
        decodes_to cd e b)"

definition snap_at :: "'z codec_scheme \<Rightarrow> objects \<Rightarrow> string \<Rightarrow> u64 \<Rightarrow> batch list \<Rightarrow> bool" where
  "snap_at cd ob ns p bs \<longleftrightarrow>
     (if p = 0 then ob (snapshot_key ns) = None
      else \<exists>body tag snap. ob (snapshot_key ns) = Some (body, tag) \<and> decode_snapshot cd body = Inr snap \<and>
        snap_seq snap = p \<and> snapshot_into_docs snap = run_log (take p bs))"

definition meta_at :: "'z ns_codec_scheme \<Rightarrow> objects \<Rightarrow> string \<Rightarrow> namespace_meta \<Rightarrow> bool" where
  "meta_at cd ob ns m \<longleftrightarrow>
     (case ob (meta_key ns) of
        None \<Rightarrow> m = default_meta
      | Some (body, _) \<Rightarrow> meta_from_slice cd body = Some m)"

text \<open>
  \<open>p\<close> is the sequence number of the snapshot object, which a compaction that failed between
  its two PUTs leaves ahead of the one recorded in the metadata.  Segments up to
  \<open>wal_snapshot_seq - WAL_COMPACT_KEEP\<close> may be gone.
\<close>

definition ns_rep ::
  "'z ns_codec_scheme \<Rightarrow> objects \<Rightarrow> string \<Rightarrow> namespace_meta \<Rightarrow> u64 \<Rightarrow> batch list \<Rightarrow> bool" where
  "ns_rep cd ob ns m p bs \<longleftrightarrow>
     meta_at cd ob ns m \<and> meta_ok m \<and> wal_commit_seq m = length bs \<and>
     wal_snapshot_seq m \<le> p \<and> p \<le> index_cursor m \<and> snap_at cd ob ns p bs \<and>
     (\<forall>i. wal_snapshot_seq m < i + WAL_COMPACT_KEEP \<and> 1 \<le> i \<and> i \<le> length bs \<longrightarrow>
        seg_at cd ob ns i (bs ! (i - 1)))"

section \<open>Keys\<close>

lemma meta_key_neq [simp]:
  "meta_key ns \<noteq> wal_key ns q" "wal_key ns q \<noteq> meta_key ns"
  "meta_key ns \<noteq> snapshot_key ns" "snapshot_key ns \<noteq> meta_key ns"
  by (simp_all add: meta_key_def wal_key_def snapshot_key_def)

lemma ns_rep_put_wal:
  "ns_rep cd ob ns m p bs \<Longrightarrow> length bs < i \<Longrightarrow> ns_rep cd (ob(wal_key ns i := x)) ns m p bs"
  by (auto simp: ns_rep_def meta_at_def snap_at_def seg_at_def wal_key_inject split: if_splits)

lemma take_log_append: "p \<le> length bs \<Longrightarrow> take p (bs @ cs) = take p bs"
  by simp

lemma ns_rep_le: "ns_rep cd ob ns m p bs \<Longrightarrow> p \<le> length bs \<and> length bs \<le> u64_max"
  by (auto simp: ns_rep_def meta_ok_def)

lemma ns_rep_commit:
  assumes rep: "ns_rep cd ob ns m p bs" and lt: "length bs < u64_max"
    and body: "decode_segment cd body (Some (Suc (length bs))) = Inr e" "decodes_to cd e b"
    and m': "meta_after_wal_commit_options m (Suc (length bs)) sp dm = Inr m'"
    and mb: "meta_from_slice cd mb = Some m'"
    and w: "ob (wal_key ns (Suc (length bs))) = Some (body, tag)"
  shows "ns_rep cd (ob(meta_key ns \<mapsto> (mb, tag'))) ns m' p (bs @ [b])"
proof -
  have p: "p \<le> length bs" using ns_rep_le [OF rep] by simp
  note mm = wal_commit_meta [OF m']
  have "seg_at cd (ob(meta_key ns \<mapsto> (mb, tag'))) ns i ((bs @ [b]) ! (i - 1))"
    if "wal_snapshot_seq m' < i + WAL_COMPACT_KEEP" "1 \<le> i" "i \<le> length (bs @ [b])" for i
  proof (cases "i = Suc (length bs)")
    case True
    then show ?thesis using w body by (auto simp: seg_at_def)
  next
    case False
    then show ?thesis using rep that mm by (auto simp: ns_rep_def seg_at_def nth_append)
  qed
  then show ?thesis
    using rep p meta_ok_wal_commit [OF m'] mm
    by (simp add: ns_rep_def meta_at_def mb snap_at_def split: if_splits)
qed

lemma log_range:
  assumes "c \<le> length bs"
  shows "map (\<lambda>q. bs ! (q - 1)) [Suc p..<Suc c] = drop p (take c bs)"
proof (rule nth_equalityI)
  fix i
  assume "i < length (map (\<lambda>q. bs ! (q - 1)) [Suc p..<Suc c])"
  then have "i < c - p" by (simp del: upt_Suc)
  then show "map (\<lambda>q. bs ! (q - 1)) [Suc p..<Suc c] ! i = drop p (take c bs) ! i"
    using assms by (simp del: upt_Suc)
qed (use assms in \<open>simp del: upt_Suc\<close>)

lemma run_log_split: "p \<le> c \<Longrightarrow> foldl apply_batch (run_log (take p bs)) (drop p (take c bs)) = run_log (take c bs)"
proof -
  assume "p \<le> c"
  then have "take c bs = take p bs @ drop p (take c bs)"
    by (metis append_take_drop_id min.absorb1 take_take)
  then show ?thesis
    unfolding run_log_def by (metis foldl_append)
qed

lemma docs_ok_run_log [simp]: "docs_ok (run_log bs)"
  by (induction bs rule: rev_induct) (simp_all add: run_log_def)

section \<open>Reads and appends against the service\<close>

locale ns_store = s3_service S objs + wal_codec cd
  for S :: "'s s3_client" and objs :: "'s \<Rightarrow> objects" and cd :: "'z ns_codec_scheme" +
  assumes meta_rt: "meta_to_vec cd mt = Some mb \<Longrightarrow> meta_from_slice cd mb = Some mt"
    and no_phantom: "get_object S k s = (GetErr (OtherS3 msg), s') \<Longrightarrow>
      str_contains msg ''unhandled error'' \<or> str_contains msg ''NotFound'' \<Longrightarrow> objs s k = None"
begin

lemma retry_objs:
  assumes "\<And>s r s'. f s = (r, s') \<Longrightarrow> objs s' = objs s" "retry n f s = (r, s')"
  shows "objs s' = objs s"
  using assms(2)
  by (induction n arbitrary: s) (auto split: prod.splits sum.splits if_splits dest: assms(1))

lemma retry_Inr:
  assumes "\<And>s r s'. f s = (r, s') \<Longrightarrow> objs s' = objs s"
    and "\<And>s v s'. f s = (Inr v, s') \<Longrightarrow> P (objs s) v" "retry n f s = (Inr v, s')"
  shows "P (objs s) v"
  using assms(3)
proof (induction n arbitrary: s)
  case (Suc n)
  then show ?case
    using assms(1,2) by (auto split: prod.splits sum.splits if_splits) (metis assms(1))
qed simp

lemma get_meta_json_objs: "get_meta_json S cd k s = (r, s') \<Longrightarrow> objs s' = objs s"
  by (auto simp: get_meta_json_def split: prod.splits get_result.splits option.splits s3_error.splits
      if_splits dest: get_frame)

lemma get_meta_json_Inr:
  "get_meta_json S cd k s = (Inr got, s') \<Longrightarrow>
   (case got of
      None \<Rightarrow> objs s k = None
    | Some (m, et) \<Rightarrow> \<exists>body tag. et = Some tag \<and> objs s k = Some (body, tag) \<and> meta_from_slice cd body = Some m)"
  by (auto simp: get_meta_json_def split: prod.splits get_result.splits option.splits s3_error.splits
      if_splits dest: get_ok get_no_key no_phantom)

lemma get_meta_objs: "get_meta_with_retry S cd k s = (r, s') \<Longrightarrow> objs s' = objs s"
  unfolding get_meta_with_retry_def by (rule retry_objs [OF get_meta_json_objs])

lemma get_meta_Inr:
  assumes "get_meta_with_retry S cd k s = (Inr got, s')"
  shows "case got of
      None \<Rightarrow> objs s k = None
    | Some (m, et) \<Rightarrow> \<exists>body tag. et = Some tag \<and> objs s k = Some (body, tag) \<and> meta_from_slice cd body = Some m"
  using retry_Inr [of "get_meta_json S cd k"
      "\<lambda>ob got. case got of
          None \<Rightarrow> ob k = None
        | Some (m, et) \<Rightarrow> \<exists>body tag. et = Some tag \<and> ob k = Some (body, tag) \<and> meta_from_slice cd body = Some m",
      OF get_meta_json_objs get_meta_json_Inr assms [unfolded get_meta_with_retry_def]] .

lemma get_optional_objs: "get_object_bytes_optional S k s = (r, s') \<Longrightarrow> objs s' = objs s"
  by (auto simp: get_object_bytes_optional_def split: prod.splits get_result.splits if_splits dest: get_frame)

lemma get_optional_Some:
  "get_object_bytes_optional S k s = (Inr (Some (b, t)), s') \<Longrightarrow> \<exists>tag. objs s k = Some (b, tag)"
  by (auto simp: get_object_bytes_optional_def split: prod.splits get_result.splits if_splits dest: get_ok)

lemma get_optional_None: "get_object_bytes_optional S k s = (Inr None, s') \<Longrightarrow> objs s k = None"
  by (auto simp: get_object_bytes_optional_def split: prod.splits get_result.splits if_splits dest: get_no_key)

lemma read_wal_segment_objs: "read_wal_segment S ns q s = (r, s') \<Longrightarrow> objs s' = objs s"
  by (auto simp: read_wal_segment_def get_object_bytes_def split: prod.splits sum.splits option.splits
      dest: get_optional_objs)

lemma read_wal_segment_Inr:
  "read_wal_segment S ns q s = (Inr b, s') \<Longrightarrow> \<exists>tag. objs s (wal_key ns q) = Some (b, tag)"
  by (auto simp: read_wal_segment_def get_object_bytes_def split: prod.splits sum.splits option.splits
      dest: get_optional_Some)

lemma replay_segments_objs:
  "replay_segments S cd pol ns docs qs s = (r, s') \<Longrightarrow> objs s' = objs s"
  by (induction qs arbitrary: docs s)
    (auto split: prod.splits sum.splits option.splits dest: read_wal_segment_objs)

lemma replay_segments_log:
  assumes "\<And>q. q \<in> set qs \<Longrightarrow> seg_at cd (objs s) ns q (f q)"
    and "replay_segments S cd pol ns docs qs s = ((docs', Inr u), s')"
  shows "docs' = foldl apply_batch docs (map f qs)"
  using assms
proof (induction qs arbitrary: docs s)
  case (Cons q qs)
  obtain body tag e where seg: "objs s (wal_key ns q) = Some (body, tag)"
    "decode_segment cd body (Some q) = Inr e" "decodes_to cd e (f q)"
    using Cons.prems(1) [of q] by (auto simp: seg_at_def)
  obtain b s1 where rd: "read_wal_segment S ns q s = (Inr b, s1)"
    using Cons.prems(2) by (auto split: prod.splits sum.splits)
  then have "b = body" "objs s1 = objs s"
    using read_wal_segment_Inr [OF rd] read_wal_segment_objs [OF rd] seg by auto
  moreover have "replay_segments S cd pol ns (apply_batch docs (f q)) qs s1 = ((docs', Inr u), s')"
    using Cons.prems(2) rd seg \<open>b = body\<close>
    by (simp add: decode_segment_with_policy_cases apply_entry_batch)
  ultimately show ?case
    using Cons.IH [of s1 "apply_batch docs (f q)"] Cons.prems(1) by simp
qed simp

lemma replay_range_log:
  assumes "ns_rep cd (objs s) ns m p bs" "wal_snapshot_seq m < Suc a + WAL_COMPACT_KEEP"
    and "a \<le> c" "c \<le> length bs"
    and "replay_wal_range S cd pol ns (run_log (take a bs)) (Suc a) c s = ((docs', Inr u), s')"
  shows "docs' = run_log (take c bs)"
proof (cases "a < c")
  case True
  have segs: "seg_at cd (objs s) ns q (bs ! (q - 1))" if "q \<in> set [Suc a..<Suc c]" for q
    using assms(1,2,4) that by (auto simp: ns_rep_def)
  have "replay_segments S cd pol ns (run_log (take a bs)) [Suc a..<Suc c] s = ((docs', Inr u), s')"
    using assms(5) True by (simp add: replay_wal_range_def del: upt_Suc)
  from replay_segments_log [OF segs this] show ?thesis
    using assms(3,4) by (simp only: log_range run_log_split)
next
  case False
  then show ?thesis using assms(3,5) by (auto simp: replay_wal_range_def split: if_splits)
qed

lemma replay_range_objs: "replay_wal_range S cd pol ns docs a c s = (r, s') \<Longrightarrow> objs s' = objs s"
  by (auto simp: replay_wal_range_def simp del: upt_Suc split: if_splits dest: replay_segments_objs)

lemma read_snapshot_objs: "read_wal_snapshot S cd ns s = (r, s') \<Longrightarrow> objs s' = objs s"
  by (auto simp: read_wal_snapshot_def split: prod.splits sum.splits option.splits dest: get_optional_objs)

lemma read_snapshot_at:
  assumes "read_wal_snapshot S cd ns s = (Inr sn, s')" "snap_at cd (objs s) ns p bs"
  shows "case sn of
      None \<Rightarrow> p = 0
    | Some snap \<Rightarrow> 0 < p \<and> snap_seq snap = p \<and> snapshot_into_docs snap = run_log (take p bs)"
  using assms
  by (auto simp: read_wal_snapshot_def snap_at_def split: prod.splits sum.splits option.splits if_splits
      dest!: get_optional_Some get_optional_None)

text \<open>Loading at the commit point computes the documents of the whole log.\<close>

lemma load_docs_log:
  assumes rep: "ns_rep cd (objs s) ns m p bs" and p: "p = wal_snapshot_seq m \<or> wal_snapshot_seq m = 0"
    and lt: "length bs < u64_max"
    and ld: "load_docs_at_wal_commit S cd pol ns m s = (Inr (docs, lst), s')"
  shows "docs = run_log bs \<and> lst = length bs \<and> objs s' = objs s"
proof -
  let ?q = "wal_snapshot_seq m"
  have le: "?q \<le> length bs" and commit: "wal_commit_seq m = length bs"
    using rep by (auto simp: ns_rep_def meta_ok_def)
  have base: "\<exists>s1. objs s1 = objs s \<and>
      (case wal_replay_from ?q (length bs) of
         None \<Rightarrow> (Inr (run_log (take ?q bs), ?q), s1)
       | Some f \<Rightarrow> (case replay_wal_range S cd pol ns (run_log (take ?q bs)) f (length bs) s1 of
            ((d, Inl e), s2) \<Rightarrow> (Inl e, s2)
          | ((d, Inr _), s2) \<Rightarrow> (Inr (d, length bs), s2))) = (Inr (docs, lst), s')"
  proof (cases "?q = 0")
    case True
    then show ?thesis
      using ld by (intro exI [of _ s]) (simp add: load_docs_at_wal_commit_def commit run_log_def cong: option.case_cong)
  next
    case False
    then have snap: "snap_at cd (objs s) ns ?q bs" using rep p by (auto simp: ns_rep_def)
    obtain sn s1 where rd: "read_wal_snapshot S cd ns s = (Inr sn, s1)"
      using ld False by (auto simp: load_docs_at_wal_commit_def split: prod.splits sum.splits)
    from read_snapshot_at [OF rd snap] False obtain sp where
      "sn = Some sp" "snap_seq sp = ?q" "snapshot_into_docs sp = run_log (take ?q bs)"
      by (auto split: option.splits)
    then show ?thesis
      using ld False read_snapshot_objs [OF rd]
      by (intro exI [of _ s1]) (simp add: load_docs_at_wal_commit_def rd commit cong: option.case_cong)
  qed
  then obtain s1 where ob: "objs s1 = objs s" and r: "(case wal_replay_from ?q (length bs) of
         None \<Rightarrow> (Inr (run_log (take ?q bs), ?q), s1)
       | Some f \<Rightarrow> (case replay_wal_range S cd pol ns (run_log (take ?q bs)) f (length bs) s1 of
            ((d, Inl e), s2) \<Rightarrow> (Inl e, s2)
          | ((d, Inr _), s2) \<Rightarrow> (Inr (d, length bs), s2))) = (Inr (docs, lst), s')" by blast
  show ?thesis
  proof (cases "?q < length bs")
    case True
    have f: "wal_replay_from ?q (length bs) = Some (Suc ?q)"
      using True lt by (subst wal_replay_from_exact) auto
    obtain u where rr: "replay_wal_range S cd pol ns (run_log (take ?q bs)) (Suc ?q) (length bs) s1 =
        ((docs, Inr u), s')" and "lst = length bs"
      using r f by (auto split: prod.splits sum.splits)
    moreover have "docs = run_log (take (length bs) bs)"
      by (rule replay_range_log [OF _ _ _ _ rr]) (use rep ob le in \<open>auto simp: WAL_COMPACT_KEEP_def\<close>)
    ultimately show ?thesis
      using replay_range_objs [OF rr] ob by simp
  next
    case False
    then have "wal_replay_from ?q (length bs) = None"
      using le lt by (subst wal_replay_from_exact) auto
    then show ?thesis using r ob False le by auto
  qed
qed

lemma docs_at_index_cursor_log:
  assumes rep: "ns_rep cd (objs s) ns m p bs" and c: "p \<le> c" "c \<le> length bs" and lt: "length bs < u64_max"
    and ld: "docs_at_index_cursor S cd pol ns c s = (Inr docs, s')"
  shows "docs = run_log (take c bs) \<and> objs s' = objs s"
proof (cases "c = 0")
  case True
  then show ?thesis using ld by (simp add: docs_at_index_cursor_def run_log_def)
next
  case False
  have snap: "snap_at cd (objs s) ns p bs" and pq: "wal_snapshot_seq m \<le> p"
    using rep by (auto simp: ns_rep_def)
  obtain sn s1 where rd: "read_wal_snapshot S cd ns s = (Inr sn, s1)"
    using ld False by (auto simp: docs_at_index_cursor_def split: prod.splits sum.splits)
  note ob = read_snapshot_objs [OF rd]
  have sx: "sat_add p 1 = Suc p" using c lt by (simp add: sat_add_exact)
  have st: "(case sn of
       Some sp \<Rightarrow> if snap_seq sp \<le> c then (snapshot_into_docs sp, sat_add (snap_seq sp) 1) else (fmempty, 1)
     | None \<Rightarrow> (fmempty, 1)) = (run_log (take p bs), Suc p)"
    using read_snapshot_at [OF rd snap] c sx by (auto simp: run_log_def split: option.splits)
  show ?thesis
  proof (cases "p < c")
    case True
    obtain u where rr: "replay_wal_range S cd pol ns (run_log (take p bs)) (Suc p) c s1 = ((docs, Inr u), s')"
      using ld False True by (auto simp: docs_at_index_cursor_def rd st split: prod.splits sum.splits)
    have "docs = run_log (take c bs)"
      by (rule replay_range_log [OF _ _ _ _ rr]) (use rep ob c pq in \<open>auto simp: WAL_COMPACT_KEEP_def\<close>)
    then show ?thesis using replay_range_objs [OF rr] ob by simp
  next
    case no: False
    then show ?thesis
      using ld False c ob by (auto simp: docs_at_index_cursor_def rd st)
  qed
qed

end

end
