(* ===== verification/Namespace_Append.thy ===== *)
theory Namespace_Append
  imports Namespace_Log
begin

text \<open>
  The append protocol against the log of committed batches: whatever requests fail, a run of
  \<^verbatim>\<open>append_wal\<close> leaves the log as it was or extended by the batch, and when it returns a sequence
  number the batch is durable under that number.  With a service that does not fail, appends
  and loads succeed.
\<close>

section \<open>Durability of appends\<close>

definition appended ::
  "'z ns_codec_scheme \<Rightarrow> string \<Rightarrow> namespace_meta \<Rightarrow> u64 \<Rightarrow> batch list \<Rightarrow> json option \<Rightarrow> distance_metric option \<Rightarrow>
   batch \<Rightarrow> objects \<Rightarrow> bool" where
  "appended cd ns m p bs sp dm b ob \<longleftrightarrow>
     (\<exists>m'. meta_after_wal_commit_options m (Suc (length bs)) sp dm = Inr m' \<and> ns_rep cd ob ns m' p (bs @ [b]))"

context ns_store
begin

lemma retry_put:
  assumes "\<And>t r t'. f t = (r, t') \<Longrightarrow>
      (objs t' = objs t \<and> isl r) \<or> (\<exists>tag. objs t' = (objs t)(k \<mapsto> (body, tag)))"
    and "retry n f s = (r, s')"
  shows "(objs s' = objs s \<and> isl r) \<or> (\<exists>tag. objs s' = (objs s)(k \<mapsto> (body, tag)))"
  using assms(2)
proof (induction n arbitrary: s)
  case (Suc n)
  obtain r1 s1 where f: "f s = (r1, s1)" by (cases "f s")
  show ?case
  proof (cases "isl r1 \<and> n \<noteq> 0")
    case True
    then have "retry n f s1 = (r, s')" using Suc.prems f by (auto split: sum.splits)
    from Suc.IH [OF this] assms(1) [OF f] show ?thesis by (metis fun_upd_upd)
  next
    case False
    then have "r1 = r" "s1 = s'" using Suc.prems f by (auto split: sum.splits if_splits)
    then show ?thesis using assms(1) [OF f] by metis
  qed
qed auto

lemma put_wal_outcome:
  assumes "put_wal_with_retry S ns q body s = (r, s')"
  shows "(objs s' = objs s \<and> isl r) \<or> (\<exists>tag. objs s' = (objs s)(wal_key ns q \<mapsto> (body, tag)))"
  by (rule retry_put [OF _ assms [unfolded put_wal_with_retry_def]])
    (auto split: prod.splits sum.splits dest!: put_ok put_err)

lemma fetched_meta:
  assumes "ns_rep cd (objs s) ns m p bs" "get_meta_with_retry S cd (meta_key ns) s = (Inr got, s1)"
  shows "fst (case got of Some me \<Rightarrow> me | None \<Rightarrow> (default_meta, None)) = m"
  using get_meta_Inr [OF assms(2)] assms(1) by (auto simp: ns_rep_def meta_at_def split: option.splits)

lemma next_seq: "ns_rep cd ob ns m p bs \<Longrightarrow> length bs < u64_max \<Longrightarrow> next_wal_seq m = Suc (length bs)"
  by (simp add: next_wal_seq_def ns_rep_def sat_add_exact)

text \<open>The metadata half: the segment is in place and uncommitted.\<close>

lemma commit_meta_log:
  assumes rep: "ns_rep cd (objs s) ns m p bs" and lt: "length bs < u64_max"
    and seg: "objs s (wal_key ns (Suc (length bs))) = Some (body, tag)"
      "encode cd e = Inr body" "decodes_to cd e b"
    and m': "meta_after_wal_commit_options m (Suc (length bs)) sp dm = Inr m'"
    and run: "commit_meta S cd ns (Suc (length bs)) m' etag again s = (r, s')"
  shows "case r of
      None \<Rightarrow> ns_rep cd (objs s') ns m p bs
    | Some (Inr q) \<Rightarrow> q = Suc (length bs) \<and> appended cd ns m p bs sp dm b (objs s')
    | Some (Inl _) \<Rightarrow> ns_rep cd (objs s') ns m p bs \<or> appended cd ns m p bs sp dm b (objs s')"
proof (cases "meta_to_vec cd m'")
  case None
  then show ?thesis using run rep by (auto simp: commit_meta_def)
next
  case (Some mb)
  obtain pr s3 where pr: "put_object S (meta_key ns) mb (cas_cond etag) s = (pr, s3)"
    by (cases "put_object S (meta_key ns) mb (cas_cond etag) s")
  have fin: "appended cd ns m p bs sp dm b ((objs s)(meta_key ns \<mapsto> (mb, t)))" for t
    unfolding appended_def
    using m' ns_rep_commit [OF rep lt decode_segment_encode [OF seg(2)] seg(3) m' meta_rt [OF Some] seg(1)]
    by blast
  have del: "ns_rep cd (objs (snd (delete_object S (wal_key ns (Suc (length bs))) t))) ns m p bs"
    if "objs t = objs s" for t
    using delete_any [of "wal_key ns (Suc (length bs))" t _ "snd (delete_object S (wal_key ns (Suc (length bs))) t)"]
      ns_rep_put_wal [OF rep, of "Suc (length bs)" None] rep that
    by (metis lessI prod.collapse)
  show ?thesis
    using run pr Some fin del rep
    by (cases pr) (auto simp: commit_meta_def split: if_splits dest!: put_ok put_err)
qed

lemma append_attempt_log:
  assumes rep: "ns_rep cd (objs s) ns m p bs" and lt: "length bs < u64_max" and b: "decodes_to cd e b"
    and run: "append_attempt S cd ns e sp dm again s = (r, s')"
  shows "case r of
      None \<Rightarrow> ns_rep cd (objs s') ns m p bs
    | Some (Inr q) \<Rightarrow> q = Suc (length bs) \<and> appended cd ns m p bs sp dm b (objs s')
    | Some (Inl _) \<Rightarrow> ns_rep cd (objs s') ns m p bs \<or> appended cd ns m p bs sp dm b (objs s')"
proof -
  let ?q = "Suc (length bs)"
  obtain g s1 where g: "get_meta_with_retry S cd (meta_key ns) s = (g, s1)"
    by (cases "get_meta_with_retry S cd (meta_key ns) s")
  have rep1: "ns_rep cd (objs s1) ns m p bs" using rep get_meta_objs [OF g] by simp
  show ?thesis
  proof (cases "isl g \<or> isl (encode cd e)")
    case True
    then have "isl (the r) \<and> r \<noteq> None \<and> s' = s1"
      using run g by (auto simp: append_attempt_def Let_def split: sum.splits prod.splits option.splits)
    then show ?thesis using rep1 by (auto split: sum.splits)
  next
    case False
    then obtain got body where g': "get_meta_with_retry S cd (meta_key ns) s = (Inr got, s1)"
      and body: "encode cd e = Inr body"
      using g not_isl_ex [of g] not_isl_ex [of "encode cd e"] by auto
    obtain etag where m0: "(case got of Some me \<Rightarrow> me | None \<Rightarrow> (default_meta, None)) = (m, etag)"
      using fetched_meta [OF rep g'] by (metis prod.collapse)
    obtain w s2 where w: "put_wal_with_retry S ns ?q body s1 = (w, s2)"
      by (cases "put_wal_with_retry S ns ?q body s1")
    have rep2: "ns_rep cd (objs s2) ns m p bs"
      using put_wal_outcome [OF w] ns_rep_put_wal [OF rep1, of ?q] rep1 by auto
    note run' = run [unfolded append_attempt_def g' prod.case sum.case Let_def m0 body next_seq [OF rep lt] w]
    show ?thesis
    proof (cases "isl w \<or> isl (meta_after_wal_commit_options m ?q sp dm)")
      case True
      then have "isl (the r) \<and> r \<noteq> None \<and> s' = s2"
        using run' by (auto split: sum.splits)
      then show ?thesis using rep2 by (auto split: sum.splits)
    next
      case False
      then obtain m' where m': "meta_after_wal_commit_options m ?q sp dm = Inr m'" and w': "w = Inr ()"
        using not_isl_ex [of w] not_isl_ex by (metis (full_types) old.unit.exhaust)
      obtain tag where "objs s2 (wal_key ns ?q) = Some (body, tag)"
        using put_wal_outcome [OF w] False by auto
      then show ?thesis
        using commit_meta_log [OF rep2 lt _ body b m'] run' by (simp add: w' m')
    qed
  qed
qed

lemma append_attempts_log:
  assumes "ns_rep cd (objs s) ns m p bs" "length bs < u64_max" "decodes_to cd e b"
    and "append_attempts S cd ns e sp dm n s = (r, s')"
  shows "case r of
      Inr q \<Rightarrow> q = Suc (length bs) \<and> appended cd ns m p bs sp dm b (objs s')
    | Inl _ \<Rightarrow> ns_rep cd (objs s') ns m p bs \<or> appended cd ns m p bs sp dm b (objs s')"
  using assms
proof (induction n arbitrary: s)
  case (Suc n)
  obtain r1 s1 where at: "append_attempt S cd ns e sp dm (0 < n) s = (r1, s1)"
    by (cases "append_attempt S cd ns e sp dm (0 < n) s")
  show ?case
    using append_attempt_log [OF Suc.prems(1-3) at] Suc.IH [of s1] Suc.prems at
    by (cases r1) auto
qed auto

end

section \<open>A service without faults\<close>

locale ns_store_reliable = ns_store S objs cd + s3_reliable S objs
  for S :: "'s s3_client" and objs :: "'s \<Rightarrow> objects" and cd :: "'z ns_codec_scheme"
begin

lemma retry_first: "f s = (Inr v, s') \<Longrightarrow> 0 < n \<Longrightarrow> retry n f s = (Inr v, s')"
  by (cases n) auto

lemma get_meta_total:
  assumes "ns_rep cd (objs s) ns m p bs"
  shows "\<exists>got etag s1. get_meta_with_retry S cd (meta_key ns) s = (Inr got, s1) \<and>
    (case got of Some me \<Rightarrow> me | None \<Rightarrow> (default_meta, None)) = (m, etag) \<and>
    cond_holds (cas_cond etag) (objs s (meta_key ns))"
proof (cases "objs s (meta_key ns)")
  case None
  obtain s1 where "get_object S (meta_key ns) s = (GetErr NoSuchKey, s1)"
    using get_none [OF None] by blast
  then have "get_meta_json S cd (meta_key ns) s = (Inr None, s1)"
    by (simp add: get_meta_json_def)
  then show ?thesis
    using assms None retry_first [of "get_meta_json S cd (meta_key ns)" s None s1 4]
    by (auto simp: get_meta_with_retry_def ns_rep_def meta_at_def cas_cond_def)
next
  case (Some bt)
  obtain body tag where bt: "bt = (body, tag)" by (cases bt)
  obtain s1 where g: "get_object S (meta_key ns) s = (GetOk body (Some tag), s1)"
    using get_some [of s "meta_key ns" body tag] Some bt by auto
  have "meta_from_slice cd body = Some m"
    using assms Some bt by (simp add: ns_rep_def meta_at_def)
  then have "get_meta_json S cd (meta_key ns) s = (Inr (Some (m, Some tag)), s1)"
    using g by (simp add: get_meta_json_def)
  then show ?thesis
    using Some bt retry_first [of "get_meta_json S cd (meta_key ns)" s "Some (m, Some tag)" s1 4]
    by (auto simp: get_meta_with_retry_def cas_cond_def)
qed

lemma put_wal_total: "\<exists>s'. put_wal_with_retry S ns q body s = (Inr (), s')"
proof -
  obtain t s' where "put_object S (wal_key ns q) body Always s = (Inr t, s')"
    using put_some [of Always s "wal_key ns q" body] by auto
  then show ?thesis
    by (auto simp: put_wal_with_retry_def intro!: exI [of _ s'] retry_first)
qed

lemma append_total:
  assumes rep: "ns_rep cd (objs s) ns m p bs" and lt: "length bs < u64_max"
    and enc: "encode cd e = Inr body"
    and m': "meta_after_wal_commit_options m (Suc (length bs)) sp dm = Inr m'" "meta_to_vec cd m' = Some mb"
  shows "\<exists>s'. append_wal S cd ns e sp dm s = (Inr (Suc (length bs)), s')"
proof -
  obtain got etag s1 where g: "get_meta_with_retry S cd (meta_key ns) s = (Inr got, s1)"
    "(case got of Some me \<Rightarrow> me | None \<Rightarrow> (default_meta, None)) = (m, etag)"
    "cond_holds (cas_cond etag) (objs s (meta_key ns))"
    using get_meta_total [OF rep] by blast
  obtain s2 where w: "put_wal_with_retry S ns (Suc (length bs)) body s1 = (Inr (), s2)"
    using put_wal_total by blast
  have "objs s2 (meta_key ns) = objs s (meta_key ns)"
    using put_wal_outcome [OF w] get_meta_objs [OF g(1)] by auto
  then obtain t s3 where "put_object S (meta_key ns) mb (cas_cond etag) s2 = (Inr t, s3)"
    using put_some [of "cas_cond etag" s2 "meta_key ns" mb] g(3) by auto
  then have "append_attempt S cd ns e sp dm again s = (Some (Inr (Suc (length bs))), s3)" for again
    by (simp add: append_attempt_def g w enc m' next_seq [OF rep lt] commit_meta_def)
  then show ?thesis
    by (simp add: append_wal_def META_RETRIES_def eval_nat_numeral)
qed

lemma read_wal_segment_total:
  "objs s (wal_key ns q) = Some (body, tag) \<Longrightarrow> \<exists>s'. read_wal_segment S ns q s = (Inr body, s')"
  using get_some [of s "wal_key ns q" body tag]
  by (auto simp: read_wal_segment_def get_object_bytes_def get_object_bytes_optional_def)

lemma replay_segments_total:
  assumes "\<And>q. q \<in> set qs \<Longrightarrow> seg_at cd (objs s) ns q (f q)"
  shows "\<exists>docs' s'. replay_segments S cd pol ns docs qs s = ((docs', Inr ()), s')"
  using assms
proof (induction qs arbitrary: docs s)
  case (Cons q qs)
  obtain body tag e where seg: "objs s (wal_key ns q) = Some (body, tag)"
    "decode_segment cd body (Some q) = Inr e" "decodes_to cd e (f q)"
    using Cons.prems [of q] by (auto simp: seg_at_def)
  obtain s1 where rd: "read_wal_segment S ns q s = (Inr body, s1)"
    using read_wal_segment_total [OF seg(1)] by blast
  have "\<exists>docs' s'. replay_segments S cd pol ns (apply_batch docs (f q)) qs s1 = ((docs', Inr ()), s')"
    using Cons.prems read_wal_segment_objs [OF rd] by (intro Cons.IH) simp
  then show ?case
    using rd seg by (simp add: decode_segment_with_policy_cases apply_entry_batch)
qed simp

lemma load_total:
  assumes rep: "ns_rep cd (objs s) ns m p bs" and p: "p = wal_snapshot_seq m" and lt: "length bs < u64_max"
  shows "\<exists>r s'. load_docs_at_wal_commit S cd pol ns m s = (Inr r, s')"
proof -
  have le: "p \<le> length bs" and commit: "wal_commit_seq m = length bs"
    using rep by (auto simp: ns_rep_def meta_ok_def)
  have tail: "\<exists>docs' s'. replay_wal_range S cd pol ns docs (Suc p) (length bs) t = ((docs', Inr ()), s')"
    if "objs t = objs s" for docs t
    using replay_segments_total [of "[Suc p..<Suc (length bs)]" t ns "\<lambda>q. bs ! (q - 1)" pol docs] rep that p
    by (auto simp: replay_wal_range_def ns_rep_def simp del: upt_Suc)
  have "\<exists>docs s1. objs s1 = objs s \<and> load_docs_at_wal_commit S cd pol ns m s =
     (case wal_replay_from p (length bs) of
        None \<Rightarrow> (Inr (docs, p), s1)
      | Some f \<Rightarrow> (case replay_wal_range S cd pol ns docs f (length bs) s1 of
           ((d, Inl e), s2) \<Rightarrow> (Inl e, s2) | ((d, Inr _), s2) \<Rightarrow> (Inr (d, length bs), s2)))"
  proof (cases "p = 0")
    case True
    then show ?thesis
      using p by (intro exI [of _ fmempty] exI [of _ s]) (simp add: load_docs_at_wal_commit_def commit cong: option.case_cong)
  next
    case False
    obtain body tag snap where sn: "objs s (snapshot_key ns) = Some (body, tag)"
      "decode_snapshot cd body = Inr snap" "snap_seq snap = p"
      using rep False by (auto simp: ns_rep_def snap_at_def)
    obtain s1 where g: "get_object S (snapshot_key ns) s = (GetOk body (Some tag), s1)"
      using get_some [OF sn(1)] by blast
    then have "read_wal_snapshot S cd ns s = (Inr (Some snap), s1)"
      by (simp add: read_wal_snapshot_def get_object_bytes_optional_def sn)
    then show ?thesis
      using False p sn get_frame [OF g]
      by (intro exI [of _ "snapshot_into_docs snap"] exI [of _ s1])
        (simp add: load_docs_at_wal_commit_def commit cong: option.case_cong)
  qed
  then obtain docs s1 where ob: "objs s1 = objs s" and ld: "load_docs_at_wal_commit S cd pol ns m s =
     (case wal_replay_from p (length bs) of
        None \<Rightarrow> (Inr (docs, p), s1)
      | Some f \<Rightarrow> (case replay_wal_range S cd pol ns docs f (length bs) s1 of
           ((d, Inl e), s2) \<Rightarrow> (Inl e, s2) | ((d, Inr _), s2) \<Rightarrow> (Inr (d, length bs), s2)))" by blast
  show ?thesis
    using tail [OF ob, of docs] le lt by (auto simp: ld wal_replay_from_exact)
qed

end

end
