(* ===== verification/Reference_Store.thy ===== *)
theory Reference_Store
  imports Reference_Codec Namespace_Append
begin

text \<open>
  The reference codec extended by an encoding of \<^verbatim>\<open>meta.json\<close>, and the interpretation of the
  namespace store on it and the in-memory object store.  The properties stated for an
  arbitrary service and codec are instantiated here.
\<close>

section \<open>Metadata\<close>

definition en_via :: "('a \<Rightarrow> 'b) \<Rightarrow> ('b \<Rightarrow> bytes) \<Rightarrow> 'a \<Rightarrow> bytes" where
  "en_via f en x = en (f x)"

definition de_via :: "('b \<Rightarrow> 'a) \<Rightarrow> 'b decoder \<Rightarrow> 'a decoder" where
  "de_via g de bs = map_option (\<lambda>(y, r). (g y, r)) (de bs)"

lemma decodes_via: "decodes en de \<Longrightarrow> (\<And>x. g (f x) = x) \<Longrightarrow> decodes (en_via f en) (de_via g de)"
  by (simp add: decodes_def en_via_def de_via_def)

definition en_vf :: "vector_field_config \<Rightarrow> bytes" where
  "en_vf = en_via (\<lambda>v. (vf_name v, vf_dimensions v, vf_element v = F16, vf_segment_id v, vf_segment_ids v))
     (en_pair en_str (en_pair en_nat (en_pair (en_via of_bool en_nat) (en_pair en_nat (en_list en_nat)))))"

definition de_vf :: "vector_field_config decoder" where
  "de_vf = de_via (\<lambda>(n, d, e, i, is). \<lparr>vf_name = n, vf_dimensions = d, vf_element = (if e then F16 else F32),
       vf_segment_id = i, vf_segment_ids = is\<rparr>)
     (de_pair de_str (de_pair de_nat (de_pair (de_via (\<lambda>n. n \<noteq> 0) de_nat) (de_pair de_nat (de_list de_nat)))))"

definition en_meta :: "namespace_meta \<Rightarrow> bytes" where
  "en_meta = en_via
     (\<lambda>m. ((index_cursor m, wal_commit_seq m, wal_snapshot_seq m, preferred_ann_version m),
           (fts_segment_id m, fts_segment_ids m, filter_segment_id m, filter_segment_ids m),
           (vector_segment_id m, vector_segment_ids m, dimensions m, vector_field m),
           (vector_fields m, schema m, metric m = EuclideanSquared)))
     (en_pair (en_pair en_nat (en_pair en_nat (en_pair en_nat en_nat)))
       (en_pair (en_pair en_nat (en_pair (en_list en_nat) (en_pair en_nat (en_list en_nat))))
         (en_pair (en_pair en_nat (en_pair (en_list en_nat) (en_pair en_nat en_str)))
           (en_pair (en_list en_vf) (en_pair en_json (en_via of_bool en_nat))))))"

definition de_meta :: "namespace_meta decoder" where
  "de_meta = de_via
     (\<lambda>((ic, wc, ws, av), (fi, fis, ti, tis), (vi, vis, d, vf), (vfs, sch, euc)).
        \<lparr>index_cursor = ic, fts_segment_id = fi, fts_segment_ids = fis, vector_segment_id = vi,
         vector_segment_ids = vis, filter_segment_id = ti, filter_segment_ids = tis, vector_fields = vfs,
         vector_field = vf, dimensions = d, wal_commit_seq = wc, wal_snapshot_seq = ws,
         schema = sch, metric = (if euc then EuclideanSquared else CosineDistance), preferred_ann_version = av\<rparr>)
     (de_pair (de_pair de_nat (de_pair de_nat (de_pair de_nat de_nat)))
       (de_pair (de_pair de_nat (de_pair (de_list de_nat) (de_pair de_nat (de_list de_nat))))
         (de_pair (de_pair de_nat (de_pair (de_list de_nat) (de_pair de_nat de_str)))
           (de_pair (de_list de_vf) (de_pair de_json_all (de_via (\<lambda>n. n \<noteq> 0) de_nat))))))"

definition ref_ns_codec :: ns_codec where
  "ref_ns_codec = codec.extend ref_codec
     \<lparr>meta_to_vec = (\<lambda>m. Some (en_meta m)), meta_from_slice = whole de_meta\<rparr>"

lemma decodes_bool: "decodes (en_via of_bool en_nat) (de_via (\<lambda>n. n \<noteq> 0) de_nat)"
  by (rule decodes_via [OF decodes_nat]) simp

lemma decodes_vf [codec_rt]: "decodes en_vf de_vf"
  unfolding en_vf_def de_vf_def
proof (rule decodes_via)
  fix v :: vector_field_config
  show "(case (vf_name v, vf_dimensions v, vf_element v = F16, vf_segment_id v, vf_segment_ids v) of
     (n, d, e, i, is) \<Rightarrow> \<lparr>vf_name = n, vf_dimensions = d, vf_element = (if e then F16 else F32),
       vf_segment_id = i, vf_segment_ids = is\<rparr>) = v"
    by (cases "vf_element v") (auto intro: vector_field_config.equality)
qed (intro codec_rt decodes_bool)

lemma metric_not_euclidean: "d \<noteq> EuclideanSquared \<Longrightarrow> CosineDistance = d"
  by (cases d) auto

lemma decodes_meta: "decodes en_meta de_meta"
  unfolding en_meta_def de_meta_def
  by (rule decodes_via, intro codec_rt decodes_bool)
    (auto intro!: namespace_meta.equality metric_not_euclidean)

lemma ref_ns_codec_simps [simp]:
  "attrs_to_vec ref_ns_codec = attrs_to_vec ref_codec"
  "attrs_from_slice ref_ns_codec = attrs_from_slice ref_codec"
  "entry_serialize ref_ns_codec = entry_serialize ref_codec"
  "entry_deserialize ref_ns_codec = entry_deserialize ref_codec"
  "snapshot_to_vec ref_ns_codec = snapshot_to_vec ref_codec"
  "snapshot_from_slice ref_ns_codec = snapshot_from_slice ref_codec"
  "crc32 ref_ns_codec = crc32 ref_codec"
  "meta_to_vec ref_ns_codec = (\<lambda>m. Some (en_meta m))"
  "meta_from_slice ref_ns_codec = whole de_meta"
  by (simp_all add: ref_ns_codec_def ref_codec_def codec.extend_def)

interpretation refstore: ns_store_reliable mem_s3 mem_view ref_ns_codec
proof unfold_locales
  show "meta_from_slice ref_ns_codec mb = Some mt" if "meta_to_vec ref_ns_codec mt = Some mb" for mt mb
    using that whole_decodes [OF decodes_meta, of mt] by auto
  show "mem_view s k = None"
    if "get_object mem_s3 k s = (GetErr (OtherS3 msg), s')" for s k msg s'
    using that by (auto simp: mem_s3_def mem_get_def split: option.splits)
qed (auto dest: ref.attrs_rt ref.entry_rt ref.entry_len ref.snapshot_rt)

lemma empty_bucket_rep: "ns_rep cd (mem_view mem_empty) ns default_meta 0 []"
  by (simp add: ns_rep_def meta_at_def meta_ok_default snap_at_def mem_view_def mem_empty_def)
    (simp add: default_meta_def)

section \<open>A sample run\<close>

definition sample_entry :: wal_entry where
  "sample_entry = \<lparr>upserts = [\<lparr>wu_id = ''x'', wu_attributes = [0]\<rparr>], patches = [], deletes = [''y'']\<rparr>"

definition sample_batch :: batch where
  "sample_batch =
     \<lparr>b_upserts = [\<lparr>doc_id = ''x'', attributes = fmempty\<rparr>], b_patches = [], b_deletes = [''y'']\<rparr>"

lemma sample_decodes: "decodes_to ref_ns_codec sample_entry sample_batch"
proof -
  have "attrs_from_slice ref_codec [0] = Some fmempty"
    by (simp add: ref_codec_def whole_def de_attrs_def de_list_def)
  then show ?thesis
    by (simp add: decodes_to_def into_documents_def patch_documents_def wal_upsert_to_document_def
        sample_entry_def sample_batch_def)
qed

lemma sample_encode: "\<exists>body. encode ref_ns_codec sample_entry = Inr body"
  by (simp add: encode_def ref_codec_def entry64_def len64_def row64_def sample_entry_def)

lemma default_commit: "\<exists>m'. meta_after_wal_commit_options default_meta (Suc 0) None None = Inr m'"
  by (simp add: meta_after_wal_commit_options_def default_meta_def sat_add_def u64_max_def Let_def
      resolve_distance_metric_def)

lemma one_lt_u64_max: "Suc 0 < u64_max"
  by (simp add: u64_max_def)

lemma sample_append: "\<exists>s'. append_wal mem_s3 ref_ns_codec ''t'' sample_entry None None mem_empty = (Inr 1, s')"
  using refstore.append_total [OF empty_bucket_rep] sample_encode default_commit one_lt_u64_max
  by (metis One_nat_def Suc_lessD list.size(3) ref_ns_codec_simps(8))

section \<open>Sample buckets\<close>

text \<open>
  A bucket that holds the namespace \<open>t\<close> with metadata \<open>m\<close>, a snapshot at \<open>p\<close> (none for 0) and
  the segments \<open>is\<close>, every segment holding the sample entry.
\<close>

definition sample_body :: bytes where
  "sample_body = WAL_FORMAT_CRC32 # bin_entry sample_entry @ to_le_bytes (xor_sum (bin_entry sample_entry))"

definition sample_log :: "nat \<Rightarrow> batch list" where
  "sample_log n = replicate n sample_batch"

definition sample_objs :: "namespace_meta \<Rightarrow> nat \<Rightarrow> nat list \<Rightarrow> (string \<times> bytes \<times> string) list" where
  "sample_objs m p is =
     (meta_key ''t'', en_meta m, ''m'') #
     (if p = 0 then []
      else [(snapshot_key ''t'', en_snapshot (snapshot_from_docs p (run_log (sample_log p))), ''s'')]) @
     map (\<lambda>i. (wal_key ''t'' i, sample_body, ''w'')) is"

definition sample_store :: "namespace_meta \<Rightarrow> nat \<Rightarrow> nat list \<Rightarrow> mem_store" where
  "sample_store m p is = \<lparr>mem_objs = fmap_of_list (sample_objs m p is), mem_next = 0\<rparr>"

lemma length_sample_log: "length (sample_log n) = n"
  by (simp add: sample_log_def)

lemma sample_encode_body: "encode ref_ns_codec sample_entry = Inr sample_body"
  by (simp add: encode_def ref_codec_def entry64_def len64_def row64_def sample_entry_def sample_body_def)

lemma map_of_wal_keys:
  "map_of (map (\<lambda>i. (wal_key ns i, x)) is) (wal_key ns j) = (if j \<in> set is then Some x else None)"
  by (induction "is") (auto simp: wal_key_inject)

lemma map_of_wal_keys_None:
  "\<forall>i. k \<noteq> wal_key ns i \<Longrightarrow> map_of (map (\<lambda>i. (wal_key ns i, x)) is) k = None"
  by (induction "is") auto

lemma sample_view:
  "mem_view (sample_store m p is) (meta_key ''t'') = Some (en_meta m, ''m'')"
  "mem_view (sample_store m p is) (snapshot_key ''t'') =
     (if p = 0 then None else Some (en_snapshot (snapshot_from_docs p (run_log (sample_log p))), ''s''))"
  "mem_view (sample_store m p is) (wal_key ''t'' i) = (if i \<in> set is then Some (sample_body, ''w'') else None)"
  by (auto simp: mem_view_def sample_store_def sample_objs_def fmlookup_of_list map_of_wal_keys
      map_of_wal_keys_None)

lemma sample_seg: "i \<in> set is \<Longrightarrow> seg_at ref_ns_codec (mem_view (sample_store m p is)) ''t'' i sample_batch"
  using refstore.decode_segment_encode [OF sample_encode_body] sample_decodes
  by (auto simp: seg_at_def sample_view)

lemma sample_snap:
  assumes "p \<le> n"
  shows "snap_at ref_ns_codec (mem_view (sample_store m p is)) ''t'' p (sample_log n)"
proof -
  let ?snap = "snapshot_from_docs p (run_log (sample_log p))"
  have "decode_snapshot ref_ns_codec (en_snapshot ?snap) = Inr ?snap"
    by (rule refstore.decode_encode_snapshot) (simp add: encode_snapshot_def ref_codec_def)
  moreover have "take p (sample_log n) = sample_log p" using assms by (simp add: sample_log_def)
  ultimately show ?thesis
    by (auto simp: snap_at_def sample_view snapshot_docs_inverse) (simp add: snapshot_from_docs_def)
qed

lemma sample_store_rep:
  assumes "meta_ok m" "wal_commit_seq m = n" "wal_snapshot_seq m \<le> p" "p \<le> index_cursor m"
    and "\<And>i. wal_snapshot_seq m < i + WAL_COMPACT_KEEP \<Longrightarrow> 1 \<le> i \<Longrightarrow> i \<le> n \<Longrightarrow> i \<in> set is"
  shows "ns_rep ref_ns_codec (mem_view (sample_store m p is)) ''t'' m p (sample_log n)"
proof -
  have "p \<le> n" using assms by (simp add: meta_ok_def)
  have "meta_at ref_ns_codec (mem_view (sample_store m p is)) ''t'' m"
    by (simp add: meta_at_def sample_view whole_decodes [OF decodes_meta])
  moreover have "seg_at ref_ns_codec (mem_view (sample_store m p is)) ''t'' i (sample_log n ! (i - 1))"
    if "wal_snapshot_seq m < i + WAL_COMPACT_KEEP" "1 \<le> i" "i \<le> n" for i
    using that assms(5) [OF that] sample_seg by (simp add: sample_log_def)
  ultimately show ?thesis
    using assms(1-4) sample_snap [OF \<open>p \<le> n\<close>, of m "is"] by (simp add: ns_rep_def length_sample_log)
qed

end
