(* ===== verification/Namespace_Correct.thy ===== *)
theory Namespace_Correct
  imports Reference_Store
begin

text \<open>
  Properties of the namespace log on object storage: acknowledged writes are durable and in
  order, failed writes are atomic, and a load computes the documents of the log.
\<close>

section \<open>Properties\<close>







end
