(* ===== verification/Segment_Cache.thy ===== *)
theory Segment_Cache
  imports Namespace
begin

text \<open>
  The local disk cache for S3 objects (\<^verbatim>\<open>src/cache.rs\<close>): each cached object is a file with an ETag
  sidecar; a read is served locally only when the sidecar matches the ETag of a HEAD request.
  The disk is two finite maps from object keys; the outcome of each write is given by the
  operating system, the argument \<open>fs\<close>.
\<close>

section \<open>Operations\<close>

datatype write_outcome = Wrote | MkdirFailed | BytesFailed "bytes option" | EtagFailed

record seg_cache =
  enabled :: bool
  files :: "(string, bytes) fmap"
  sidecars :: "(string, string) fmap"
  s3_gets :: nat

definition cache_disabled :: seg_cache where
  "cache_disabled = \<lparr>enabled = False, files = fmempty, sidecars = fmempty, s3_gets = 0\<rparr>"

definition cache_new :: seg_cache where
  "cache_new = \<lparr>enabled = True, files = fmempty, sidecars = fmempty, s3_gets = 0\<rparr>"

definition cache_from_optional :: "string option \<Rightarrow> seg_cache" where
  "cache_from_optional root =
     (case root of None \<Rightarrow> cache_disabled | Some p \<Rightarrow> if p = [] then cache_disabled else cache_new)"

text \<open>\<^verbatim>\<open>trim_matches('"')\<close>.\<close>

definition normalize_etag :: "string \<Rightarrow> string" where
  "normalize_etag t =
     (let q = char_of (34 :: nat) in rev (dropWhile (\<lambda>c. c = q) (rev (dropWhile (\<lambda>c. c = q) t))))"

definition read_local :: "seg_cache \<Rightarrow> string \<Rightarrow> (bytes \<times> string) option" where
  "read_local c key =
     (if \<not> enabled c then None
      else (case fmlookup (files c) key of
              None \<Rightarrow> None
            | Some b \<Rightarrow>
                (case fmlookup (sidecars c) key of
                   None \<Rightarrow> None
                 | Some raw \<Rightarrow>
                     (let etag = normalize_etag (trim raw) in if etag = [] then None else Some (b, etag)))))"

definition write_local :: "(string \<Rightarrow> write_outcome) \<Rightarrow> seg_cache \<Rightarrow> string \<Rightarrow> bytes \<Rightarrow> string \<Rightarrow> seg_cache" where
  "write_local fs c key b etag =
     (if \<not> enabled c then c
      else (case fs key of
              MkdirFailed \<Rightarrow> c
            | BytesFailed left_over \<Rightarrow>
                c\<lparr>files := (case left_over of None \<Rightarrow> files c | Some x \<Rightarrow> fmupd key x (files c))\<rparr>
            | EtagFailed \<Rightarrow> c\<lparr>files := fmupd key b (files c)\<rparr>
            | Wrote \<Rightarrow> c\<lparr>files := fmupd key b (files c),
                          sidecars := fmupd key (normalize_etag etag) (sidecars c)\<rparr>))"

definition local_matches_etag :: "(bytes \<times> string) option \<Rightarrow> string option \<Rightarrow> bytes option" where
  "local_matches_etag loc remote_etag =
     (case (loc, remote_etag) of
        (Some (b, local_etag), Some r) \<Rightarrow> if local_etag = normalize_etag r then Some b else None
      | _ \<Rightarrow> None)"

definition head_etag :: "'s s3_client \<Rightarrow> string \<Rightarrow> 's \<Rightarrow> string option res \<times> 's" where
  "head_etag S key s =
     (case head_object S key s of
        (Inr t, s') \<Rightarrow> (Inr (map_option normalize_etag t), s')
      | (Inl e, s') \<Rightarrow> if e = NotFound then (Inr None, s') else (Inl (S3Failed e), s'))"

definition cache_get_object_bytes ::
  "'s s3_client \<Rightarrow> string \<Rightarrow> 's \<Rightarrow> (bytes \<times> string option) option res \<times> 's" where
  "cache_get_object_bytes S key s =
     (case get_object_bytes_optional S key s of
        (Inl e, s') \<Rightarrow> (Inl e, s')
      | (Inr r, s') \<Rightarrow> (Inr (map_option (\<lambda>(b, t). (b, map_option normalize_etag t)) r), s'))"

definition cache_get_bytes ::
  "(string \<Rightarrow> write_outcome) \<Rightarrow> 's s3_client \<Rightarrow> seg_cache \<Rightarrow> string \<Rightarrow> 's \<Rightarrow>
   bytes option res \<times> seg_cache \<times> 's" where
  "cache_get_bytes fs S c key s =
     (if \<not> enabled c
      then (case cache_get_object_bytes S key s of
              (Inl e, s') \<Rightarrow> (Inl e, c, s')
            | (Inr got, s') \<Rightarrow>
                (Inr (map_option fst got), if got = None then c else c\<lparr>s3_gets := Suc (s3_gets c)\<rparr>, s'))
      else
        let loc = read_local c key in
        (case head_etag S key s of
           (Inl e, s1) \<Rightarrow> (Inl e, c, s1)
         | (Inr None, s1) \<Rightarrow> (Inr None, c, s1)
         | (Inr (Some remote), s1) \<Rightarrow>
             (case local_matches_etag loc (Some remote) of
                Some b \<Rightarrow> (Inr (Some b), c, s1)
              | None \<Rightarrow>
                  (case cache_get_object_bytes S key s1 of
                     (Inl e, s2) \<Rightarrow> (Inl e, c, s2)
                   | (Inr None, s2) \<Rightarrow> (Inr None, c, s2)
                   | (Inr (Some (b, etag)), s2) \<Rightarrow>
                       (let c1 = c\<lparr>s3_gets := Suc (s3_gets c)\<rparr> in
                        (Inr (Some b),
                         case etag of None \<Rightarrow> c1 | Some t \<Rightarrow> write_local fs c1 key b t, s2))))))"

definition populate_after_put ::
  "(string \<Rightarrow> write_outcome) \<Rightarrow> seg_cache \<Rightarrow> string \<Rightarrow> bytes \<Rightarrow> string option \<Rightarrow> seg_cache" where
  "populate_after_put fs c key b etag =
     (case etag of None \<Rightarrow> c | Some t \<Rightarrow> write_local fs c key b t)"

text \<open>Only the object's file is removed; its sidecar stays behind.\<close>

definition invalidate_key :: "seg_cache \<Rightarrow> string \<Rightarrow> seg_cache" where
  "invalidate_key c key = (if enabled c then c\<lparr>files := fmdrop key (files c)\<rparr> else c)"

definition invalidate_namespace :: "seg_cache \<Rightarrow> string \<Rightarrow> seg_cache" where
  "invalidate_namespace c ns =
     (if enabled c
      then let under = (\<lambda>k. take (length (namespace_prefix ns)) k = namespace_prefix ns) in
        c\<lparr>files := fmfilter (\<lambda>k. \<not> under k) (files c),
          sidecars := fmfilter (\<lambda>k. \<not> under k) (sidecars c)\<rparr>
      else c)"

section \<open>Coherence\<close>

text \<open>
  \<open>V k t b\<close>: the object \<open>k\<close> had, at some time, the body \<open>b\<close> under the (normalised) ETag \<open>t\<close>.
  ETags are strong validators: they determine the body.
\<close>

definition strong_etags :: "(string \<Rightarrow> string \<Rightarrow> bytes \<Rightarrow> bool) \<Rightarrow> objects \<Rightarrow> bool" where
  "strong_etags V ob \<longleftrightarrow>
     (\<forall>k t b b'. V k t b \<longrightarrow> V k t b' \<longrightarrow> b = b') \<and>
     (\<forall>k b t. ob k = Some (b, t) \<longrightarrow>
        V k (normalize_etag t) b \<and> trim (normalize_etag t) = normalize_etag t)"

definition coherent :: "(string \<Rightarrow> string \<Rightarrow> bytes \<Rightarrow> bool) \<Rightarrow> seg_cache \<Rightarrow> bool" where
  "coherent V c \<longleftrightarrow> (\<forall>k b t. read_local c k = Some (b, t) \<longrightarrow> V k t b)"

definition writes_whole :: "(string \<Rightarrow> write_outcome) \<Rightarrow> bool" where
  "writes_whole fs \<longleftrightarrow> (\<forall>k. fs k = Wrote \<or> fs k = MkdirFailed \<or> fs k = BytesFailed None)"

lemma normalize_etag_idem: "normalize_etag (normalize_etag t) = normalize_etag t"
proof -
  let ?q = "char_of (34 :: nat)"
  define u where "u = normalize_etag t"
  have hd: "u \<noteq> [] \<Longrightarrow> hd u \<noteq> ?q"
  proof -
    assume "u \<noteq> []"
    let ?d = "dropWhile (\<lambda>c. c = ?q) t"
    have u: "u = rev (dropWhile (\<lambda>c. c = ?q) (rev ?d))" by (simp add: u_def normalize_etag_def Let_def)
    then have "\<exists>v. ?d = u @ v"
      by (metis rev_append rev_rev_ident takeWhile_dropWhile_id)
    then have "hd u = hd ?d" using \<open>u \<noteq> []\<close> by auto
    then show ?thesis using \<open>u \<noteq> []\<close> \<open>\<exists>v. ?d = u @ v\<close> hd_dropWhile [of "\<lambda>c. c = ?q" t] by force
  qed
  have last: "u \<noteq> [] \<Longrightarrow> last u \<noteq> ?q"
    using hd_dropWhile [of "\<lambda>c. c = ?q" "rev (dropWhile (\<lambda>c. c = ?q) t)"]
    by (auto simp: u_def normalize_etag_def Let_def last_rev)
  have "dropWhile (\<lambda>c. c = ?q) u = u" "dropWhile (\<lambda>c. c = ?q) (rev u) = rev u"
    using hd last by (auto simp: dropWhile_eq_self_iff hd_rev)
  then have "normalize_etag u = u"
    by (simp add: normalize_etag_def Let_def)
  then show ?thesis by (simp add: u_def)
qed

lemma strong_etagsD:
  assumes "strong_etags V ob" "ob k = Some (b, t)"
  shows "V k (normalize_etag t) b" "trim (normalize_etag t) = normalize_etag t"
  using assms unfolding strong_etags_def by blast+

lemma strong_etags_unique: "strong_etags V ob \<Longrightarrow> V k t b \<Longrightarrow> V k t b' \<Longrightarrow> b = b'"
  unfolding strong_etags_def by blast

lemma read_write_local:
  assumes "trim (normalize_etag t) = normalize_etag t" "writes_whole fs"
  shows "read_local (write_local fs c k b t) k' =
    (if k = k' \<and> enabled c \<and> fs k = Wrote
     then if normalize_etag t = [] then None else Some (b, normalize_etag t)
     else read_local c k')"
proof (cases "enabled c \<and> fs k = Wrote")
  case True
  then show ?thesis
    by (cases "k = k'")
      (simp_all add: read_local_def write_local_def normalize_etag_idem Let_def assms(1) cong: option.case_cong)
next
  case False
  then have "write_local fs c k b t = c"
    using assms(2) by (auto simp: writes_whole_def write_local_def split: write_outcome.splits)
  with False show ?thesis by auto
qed

lemma coherent_write_local:
  assumes "coherent V c" "V k (normalize_etag t) b" "trim (normalize_etag t) = normalize_etag t" "writes_whole fs"
  shows "coherent V (write_local fs c k b t)"
  using assms by (auto simp: coherent_def read_write_local split: if_splits)

lemma read_local_gets [simp]: "read_local (c\<lparr>s3_gets := n\<rparr>) k = read_local c k"
  by (simp add: read_local_def cong: option.case_cong)

lemma coherent_gets [simp]: "coherent V (c\<lparr>s3_gets := n\<rparr>) \<longleftrightarrow> coherent V c"
  by (simp add: coherent_def)

lemma coherent_invalidate_key: "coherent V c \<Longrightarrow> coherent V (invalidate_key c k)"
  by (auto simp: coherent_def read_local_def invalidate_key_def split: option.splits if_splits)

lemma coherent_invalidate_namespace: "coherent V c \<Longrightarrow> coherent V (invalidate_namespace c ns)"
  by (auto simp: coherent_def read_local_def invalidate_namespace_def Let_def split: option.splits if_splits)

text \<open>Dropping the file alone is enough: a sidecar without its file is never read.\<close>

lemma invalidate_key_misses: "read_local (invalidate_key c k) k = None"
  by (simp add: read_local_def invalidate_key_def)

context s3_service
begin

lemma cache_get_object_bytes_ok:
  assumes "cache_get_object_bytes S k s = (Inr got, s')"
  shows "objs s' = objs s \<and>
    (case got of
       None \<Rightarrow> objs s k = None
     | Some (b, t) \<Rightarrow> \<exists>tag. t = Some (normalize_etag tag) \<and> objs s k = Some (b, tag))"
  using assms
  by (auto simp: cache_get_object_bytes_def get_object_bytes_optional_def
      split: prod.splits get_result.splits if_splits sum.splits dest: get_ok get_no_key get_frame)

lemma head_etag_ok:
  assumes "head_etag S k s = (Inr t, s')"
  shows "objs s' = objs s \<and>
    (case t of None \<Rightarrow> objs s k = None | Some u \<Rightarrow> \<exists>b tag. u = normalize_etag tag \<and> objs s k = Some (b, tag))"
  using assms
  by (auto simp: head_etag_def split: prod.splits sum.splits if_splits dest: head_ok head_frame head_not_found)

lemma cache_get_bytes_current:
  assumes st: "strong_etags V (objs s)" and co: "coherent V c" and fs: "writes_whole fs"
    and run: "cache_get_bytes fs S c k s = (Inr got, c', s')"
  shows "got = map_option fst (objs s k) \<and> coherent V c' \<and> objs s' = objs s"
proof (cases "enabled c")
  case False
  obtain g s1 where g: "cache_get_object_bytes S k s = (Inr g, s1)"
    using run False by (auto simp: cache_get_bytes_def split: prod.splits sum.splits)
  show ?thesis
    using run False cache_get_object_bytes_ok [OF g] co
    by (auto simp: cache_get_bytes_def g split: option.splits)
next
  case True
  obtain t s1 where h: "head_etag S k s = (Inr t, s1)"
    using run True by (auto simp: cache_get_bytes_def Let_def split: prod.splits sum.splits)
  note hd = head_etag_ok [OF h]
  have ob1: "objs s1 = objs s" using hd by blast
  show ?thesis
  proof (cases t)
    case None
    then show ?thesis using run True hd co by (auto simp: cache_get_bytes_def h Let_def)
  next
    case (Some u)
    then obtain b tag where cur: "objs s k = Some (b, tag)" "u = normalize_etag tag" using hd by auto
    show ?thesis
    proof (cases "local_matches_etag (read_local c k) (Some u)")
      case hit: (Some lb)
      then have "read_local c k = Some (lb, u)"
        using cur by (auto simp: local_matches_etag_def normalize_etag_idem split: option.splits if_splits)
      then have "V k u lb" using co by (simp add: coherent_def)
      moreover have "V k u b" using strong_etagsD(1) [OF st cur(1)] cur(2) by simp
      ultimately have "lb = b" by (rule strong_etags_unique [OF st])
      then show ?thesis using run True Some ob1 hit co cur(1) by (auto simp: cache_get_bytes_def h Let_def)
    next
      case miss: None
      obtain g s2 where g: "cache_get_object_bytes S k s1 = (Inr g, s2)"
        using run True Some miss by (auto simp: cache_get_bytes_def h Let_def split: prod.splits sum.splits option.splits)
      have g': "g = Some (b, Some u) \<and> objs s2 = objs s"
        using cache_get_object_bytes_ok [OF g] cur unfolding ob1 by (auto split: option.splits)
      have "coherent V (write_local fs (c\<lparr>s3_gets := Suc (s3_gets c)\<rparr>) k b u)"
        using strong_etagsD [OF st cur(1)] cur(2) co fs
        by (intro coherent_write_local) (simp_all add: normalize_etag_idem)
      then show ?thesis
        using run True Some miss g g' cur(1) by (auto simp: cache_get_bytes_def h Let_def)
    qed
  qed
qed

end

end
