(* ===== verification/Compaction.thy ===== *)
theory Compaction
  imports Namespace_Append Segment_Cache
begin

text \<open>
  WAL compaction (\<^verbatim>\<open>src/wal_compaction.rs\<close>): materialise the documents at the index cursor, write
  the snapshot, record it in \<^verbatim>\<open>meta.json\<close>, delete the segments it covers.  The local cache is
  kept in step.
\<close>

section \<open>Operation\<close>

text \<open>The deletion loop: failed deletes are logged and skipped; the successful ones are counted.\<close>

fun delete_segments ::
  "'s s3_client \<Rightarrow> string \<Rightarrow> u64 list \<Rightarrow> nat \<Rightarrow> seg_cache \<Rightarrow> 's \<Rightarrow> nat \<times> seg_cache \<times> 's" where
  "delete_segments S ns [] deleted c s = (deleted, c, s)"
| "delete_segments S ns (q # qs) deleted c s =
     (case delete_object S (wal_key ns q) s of
        (Inr _, s') \<Rightarrow> delete_segments S ns qs (Suc deleted) (invalidate_key c (wal_key ns q)) s'
      | (Inl _, s') \<Rightarrow> delete_segments S ns qs deleted c s')"

text \<open>One pass of the loop, in two halves; the result None is \<^verbatim>\<open>continue\<close>.\<close>

definition publish_snapshot ::
  "'s s3_client \<Rightarrow> 'z ns_codec_scheme \<Rightarrow> (string \<Rightarrow> write_outcome) \<Rightarrow> string \<Rightarrow> namespace_meta \<Rightarrow>
   string option \<Rightarrow> bytes \<Rightarrow> bool \<Rightarrow> seg_cache \<Rightarrow> 's \<Rightarrow> nat res option \<times> seg_cache \<times> 's" where
  "publish_snapshot S cd fs ns m etag snap_body again c s =
     (let cursor = index_cursor m in
      case put_object S (snapshot_key ns) snap_body Always s of
        (Inl e, s3) \<Rightarrow> (Some (Inl (S3Failed e)), c, s3)
      | (Inr snap_etag, s3) \<Rightarrow>
          (let c1 = populate_after_put fs c (snapshot_key ns) snap_body snap_etag in
           case meta_to_vec cd (m\<lparr>wal_snapshot_seq := cursor\<rparr>) of
             None \<Rightarrow> (Some (Inl (ErrMsg ''serialize meta'')), c1, s3)
           | Some mb \<Rightarrow>
               (case put_object S (meta_key ns) mb (cas_cond etag) s3 of
                  (Inr _, s4) \<Rightarrow>
                    (let (deleted, c2, s5) =
                       delete_segments S ns (wal_seqs_to_delete cursor WAL_COMPACT_KEEP) 0 c1 s4
                     in (Some (Inr deleted), c2, s5))
                | (Inl e, s4) \<Rightarrow>
                    if e = PreconditionFailed \<and> again then (None, c1, s4)
                    else (Some (Inl (S3Failed e)), c1, s4))))"

definition compact_attempt ::
  "'s s3_client \<Rightarrow> 'z ns_codec_scheme \<Rightarrow> wal_corrupt_policy \<Rightarrow> (string \<Rightarrow> write_outcome) \<Rightarrow> string \<Rightarrow>
   bool \<Rightarrow> seg_cache \<Rightarrow> 's \<Rightarrow> nat res option \<times> seg_cache \<times> 's" where
  "compact_attempt S cd pol fs ns again c s =
     (case fetch_meta S cd ns s of
        (Inl e, s1) \<Rightarrow> (Some (Inl e), c, s1)
      | (Inr None, s1) \<Rightarrow> (Some (Inr 0), c, s1)
      | (Inr (Some (m, etag)), s1) \<Rightarrow>
          if \<not> needs_wal_compaction m then (Some (Inr 0), c, s1)
          else
            (case docs_at_index_cursor S cd pol ns (index_cursor m) s1 of
               (Inl e, s2) \<Rightarrow> (Some (Inl e), c, s2)
             | (Inr docs, s2) \<Rightarrow>
                 (case encode_snapshot cd (snapshot_from_docs (index_cursor m) docs) of
                    Inl e \<Rightarrow> (Some (Inl e), c, s2)
                  | Inr snap_body \<Rightarrow> publish_snapshot S cd fs ns m etag snap_body again c s2)))"

fun compact_attempts ::
  "'s s3_client \<Rightarrow> 'z ns_codec_scheme \<Rightarrow> wal_corrupt_policy \<Rightarrow> (string \<Rightarrow> write_outcome) \<Rightarrow> string \<Rightarrow>
   nat \<Rightarrow> seg_cache \<Rightarrow> 's \<Rightarrow> nat res \<times> seg_cache \<times> 's" where
  "compact_attempts S cd pol fs ns 0 c s = (Inl (ErrMsg ''meta CAS failed after wal compaction retries''), c, s)"
| "compact_attempts S cd pol fs ns (Suc left) c s =
     (case compact_attempt S cd pol fs ns (0 < left) c s of
        (Some r, c', s') \<Rightarrow> (r, c', s')
      | (None, c', s') \<Rightarrow> compact_attempts S cd pol fs ns left c' s')"

definition maybe_compact_wal ::
  "'s s3_client \<Rightarrow> 'z ns_codec_scheme \<Rightarrow> wal_corrupt_policy \<Rightarrow> (string \<Rightarrow> write_outcome) \<Rightarrow> string \<Rightarrow>
   seg_cache \<Rightarrow> 's \<Rightarrow> nat res \<times> seg_cache \<times> 's" where
  "maybe_compact_wal S cd pol fs ns c s =
     (case fetch_meta S cd ns s of
        (Inl e, s1) \<Rightarrow> (Inl e, c, s1)
      | (Inr None, s1) \<Rightarrow> (Inr 0, c, s1)
      | (Inr (Some (m, _)), s1) \<Rightarrow>
          if \<not> needs_wal_compaction m then (Inr 0, c, s1)
          else compact_attempts S cd pol fs ns META_RETRIES c s1)"

section \<open>Compaction keeps the log\<close>

lemma ns_rep_put_snapshot:
  assumes "ns_rep cd ob ns m p bs" "p \<le> c" "c \<le> index_cursor m" "0 < c"
    and "decode_snapshot cd body = Inr snap" "snap_seq snap = c" "snapshot_into_docs snap = run_log (take c bs)"
  shows "ns_rep cd (ob(snapshot_key ns \<mapsto> (body, tag))) ns m c bs"
  using assms by (auto simp: ns_rep_def meta_at_def snap_at_def seg_at_def)

lemma ns_rep_put_snapshot_meta:
  assumes "ns_rep cd ob ns m c bs" "c = index_cursor m" "meta_from_slice cd mb = Some (m\<lparr>wal_snapshot_seq := c\<rparr>)"
  shows "ns_rep cd (ob(meta_key ns \<mapsto> (mb, tag))) ns (m\<lparr>wal_snapshot_seq := c\<rparr>) c bs"
  using assms
  by (auto simp: ns_rep_def meta_at_def snap_at_def seg_at_def meta_ok_def legacy_synced_def
      split: if_splits list.splits)

lemma ns_rep_delete_wal:
  assumes "ns_rep cd ob ns m p bs" "i + WAL_COMPACT_KEEP \<le> wal_snapshot_seq m"
  shows "ns_rep cd (ob(wal_key ns i := None)) ns m p bs"
  using assms by (auto simp: ns_rep_def meta_at_def snap_at_def seg_at_def wal_key_inject split: if_splits)

lemma snapshot_seq_from_docs: "snap_seq (snapshot_from_docs c docs) = c"
  by (simp add: snapshot_from_docs_def)

text \<open>Some metadata and snapshot position represent the same log.\<close>

definition log_kept :: "'z ns_codec_scheme \<Rightarrow> string \<Rightarrow> batch list \<Rightarrow> objects \<Rightarrow> bool" where
  "log_kept cd ns bs ob \<longleftrightarrow> (\<exists>m p. ns_rep cd ob ns m p bs)"

definition log_clean :: "'z ns_codec_scheme \<Rightarrow> string \<Rightarrow> batch list \<Rightarrow> objects \<Rightarrow> bool" where
  "log_clean cd ns bs ob \<longleftrightarrow> (\<exists>m. ns_rep cd ob ns m (wal_snapshot_seq m) bs)"

lemma log_keptI: "ns_rep cd ob ns m p bs \<Longrightarrow> log_kept cd ns bs ob"
  by (auto simp: log_kept_def)

lemma log_cleanI: "ns_rep cd ob ns m p bs \<Longrightarrow> p = wal_snapshot_seq m \<Longrightarrow> log_clean cd ns bs ob"
  by (auto simp: log_clean_def)

lemma log_clean_kept: "log_clean cd ns bs ob \<Longrightarrow> log_kept cd ns bs ob"
  by (auto simp: log_clean_def log_kept_def)

context ns_store
begin

lemma fetch_meta_rep:
  assumes "ns_rep cd (objs s) ns m p bs" "fetch_meta S cd ns s = (Inr (Some (m0, etag)), s1)"
  shows "m0 = m"
  using fetched_meta [OF assms(1), of "Some (m0, etag)" s1] assms(2) by (simp add: fetch_meta_def)

lemma fetch_meta_objs: "fetch_meta S cd ns s = (r, s1) \<Longrightarrow> objs s1 = objs s"
  unfolding fetch_meta_def by (rule get_meta_objs)

lemma delete_segments_rep:
  assumes "\<And>q. q \<in> set qs \<Longrightarrow> q + WAL_COMPACT_KEEP \<le> wal_snapshot_seq m"
    and "ns_rep cd (objs s) ns m p bs" "delete_segments S ns qs n c s = (d, c', s')"
  shows "ns_rep cd (objs s') ns m p bs"
  using assms
proof (induction qs arbitrary: n c s)
  case (Cons q qs)
  obtain r s1 where d: "delete_object S (wal_key ns q) s = (r, s1)" by (cases "delete_object S (wal_key ns q) s")
  have "ns_rep cd (objs s1) ns m p bs"
    using delete_any [OF d] ns_rep_delete_wal [OF Cons.prems(2), of q] Cons.prems(1,2) by auto
  then show ?case
    using Cons.IH Cons.prems(1,3) d by (cases r) auto
qed auto

lemma docs_at_index_cursor_objs: "docs_at_index_cursor S cd pol ns cu s = (r, s') \<Longrightarrow> objs s' = objs s"
  by (auto simp: docs_at_index_cursor_def split: if_splits prod.splits sum.splits
      dest!: read_snapshot_objs replay_range_objs)

text \<open>The snapshot written for the cursor describes the log up to the cursor.\<close>

lemma snapshot_of_cursor:
  assumes rep: "ns_rep cd (objs s) ns m p bs" and lt: "length bs < u64_max"
    and "docs_at_index_cursor S cd pol ns (index_cursor m) s = (Inr docs, s')"
    and "encode_snapshot cd (snapshot_from_docs (index_cursor m) docs) = Inr body" and pos: "0 < index_cursor m"
  shows "ns_rep cd ((objs s')(snapshot_key ns \<mapsto> (body, tag))) ns m (index_cursor m) bs"
proof -
  have le: "p \<le> index_cursor m" "index_cursor m \<le> length bs"
    using rep by (auto simp: ns_rep_def meta_ok_def)
  have docs: "docs = run_log (take (index_cursor m) bs)" "objs s' = objs s"
    using docs_at_index_cursor_log [OF rep le lt assms(3)] by simp_all
  show ?thesis
    by (rule ns_rep_put_snapshot [OF _ le(1) le_refl pos decode_encode_snapshot [OF assms(4)]])
      (use rep docs in \<open>simp_all add: snapshot_docs_inverse snapshot_seq_from_docs\<close>)
qed

lemma publish_snapshot_rep:
  assumes rep: "\<And>tag. ns_rep cd ((objs s)(snapshot_key ns \<mapsto> (body, tag))) ns m (index_cursor m) bs"
    and rep0: "ns_rep cd (objs s) ns m p bs" and need: "needs_wal_compaction m"
    and run: "publish_snapshot S cd fs ns m etag body again c s = (r, c', s')"
  shows "case r of
      None \<Rightarrow> ns_rep cd (objs s') ns m (index_cursor m) bs
    | Some (Inr d) \<Rightarrow> log_clean cd ns bs (objs s')
    | Some (Inl e) \<Rightarrow> log_kept cd ns bs (objs s')"
proof -
  let ?c = "index_cursor m"
  obtain pr s3 where pr: "put_object S (snapshot_key ns) body Always s = (pr, s3)"
    by (cases "put_object S (snapshot_key ns) body Always s")
  show ?thesis
  proof (cases pr)
    case (Inl e)
    then show ?thesis
      using run pr put_err [of "snapshot_key ns" body Always s e s3] log_keptI [OF rep] log_keptI [OF rep0]
      by (auto simp: publish_snapshot_def Let_def)
  next
    case (Inr t)
    have rep3: "ns_rep cd (objs s3) ns m ?c bs"
      using put_ok [of "snapshot_key ns" body Always s t s3] pr Inr rep by auto
    show ?thesis
    proof (cases "meta_to_vec cd (m\<lparr>wal_snapshot_seq := ?c\<rparr>)")
      case None
      then show ?thesis
        using run pr Inr rep3 by (auto simp: publish_snapshot_def Let_def intro: log_keptI)
    next
      case (Some mb)
      have fin: "ns_rep cd ((objs s3)(meta_key ns \<mapsto> (mb, tag))) ns (m\<lparr>wal_snapshot_seq := ?c\<rparr>) ?c bs" for tag
        by (rule ns_rep_put_snapshot_meta [OF rep3 refl meta_rt [OF Some]])
      obtain pm s4 where pm: "put_object S (meta_key ns) mb (cas_cond etag) s3 = (pm, s4)"
        by (cases "put_object S (meta_key ns) mb (cas_cond etag) s3")
      show ?thesis
      proof (cases pm)
        case (Inl e)
        then show ?thesis
          using run pr Inr Some pm put_err [of "meta_key ns" mb "cas_cond etag" s3 e s4] rep3
            log_keptI [OF rep3] log_keptI [OF fin]
          by (auto simp: publish_snapshot_def Let_def split: if_splits)
      next
        case ok: (Inr t')
        let ?ds = "wal_seqs_to_delete ?c WAL_COMPACT_KEEP"
        have rep4: "ns_rep cd (objs s4) ns (m\<lparr>wal_snapshot_seq := ?c\<rparr>) ?c bs"
          using put_ok [of "meta_key ns" mb "cas_cond etag" s3 t' s4] pm ok fin by auto
        obtain d c2 s5 where ds: "delete_segments S ns ?ds 0
            (populate_after_put fs c (snapshot_key ns) body t) s4 = (d, c2, s5)"
          by (cases "delete_segments S ns ?ds 0 (populate_after_put fs c (snapshot_key ns) body t) s4") auto
        have "ns_rep cd (objs s5) ns (m\<lparr>wal_snapshot_seq := ?c\<rparr>) ?c bs"
          by (rule delete_segments_rep [OF _ rep4 ds]) (simp add: set_wal_seqs_to_delete)
        moreover have "r = Some (Inr d)" "s' = s5"
          using run pr Inr Some pm ok ds by (auto simp: publish_snapshot_def Let_def)
        ultimately show ?thesis
          by (auto intro: log_cleanI)
      qed
    qed
  qed
qed

lemma compact_attempt_rep:
  assumes rep: "ns_rep cd (objs s) ns m p bs" and lt: "length bs < u64_max"
    and clean: "p = wal_snapshot_seq m \<or> needs_wal_compaction m"
    and run: "compact_attempt S cd pol fs ns again c s = (r, c', s')"
  shows "case r of
      None \<Rightarrow> needs_wal_compaction m \<and> ns_rep cd (objs s') ns m (index_cursor m) bs
    | Some (Inr d) \<Rightarrow> log_clean cd ns bs (objs s')
    | Some (Inl e) \<Rightarrow> log_kept cd ns bs (objs s')"
proof -
  obtain g s1 where g: "fetch_meta S cd ns s = (g, s1)" by (cases "fetch_meta S cd ns s")
  have rep1: "ns_rep cd (objs s1) ns m p bs" using rep fetch_meta_objs [OF g] by simp
  consider (err) e where "g = Inl e" | (none) "g = Inr None" | (some) m0 etag where "g = Inr (Some (m0, etag))"
    by (cases g; cases "projr g") auto
  then show ?thesis
  proof cases
    case err
    then show ?thesis using run g rep1 by (auto simp: compact_attempt_def intro: log_keptI)
  next
    case none
    then have "objs s (meta_key ns) = None"
      using g get_meta_Inr [of "meta_key ns" s None s1] by (simp add: fetch_meta_def)
    then have "m = default_meta" using rep by (simp add: ns_rep_def meta_at_def)
    then have "\<not> needs_wal_compaction m"
      by (simp add: needs_wal_compaction_def should_compact_wal_def default_meta_def)
    then show ?thesis using run g none rep1 clean by (auto simp: compact_attempt_def intro: log_cleanI)
  next
    case some
    then have m0: "m0 = m" using fetch_meta_rep [OF rep] g by simp
    show ?thesis
    proof (cases "needs_wal_compaction m")
      case False
      then show ?thesis using run g some m0 rep1 clean by (auto simp: compact_attempt_def intro: log_cleanI)
    next
      case True
      then have pos: "0 < index_cursor m" by (simp add: needs_wal_compaction_def)
      obtain dr s2 where d: "docs_at_index_cursor S cd pol ns (index_cursor m) s1 = (dr, s2)"
        by (cases "docs_at_index_cursor S cd pol ns (index_cursor m) s1")
      have rep2: "ns_rep cd (objs s2) ns m p bs" using docs_at_index_cursor_objs [OF d] rep1 by simp
      show ?thesis
      proof (cases "isl dr \<or> isl (encode_snapshot cd (snapshot_from_docs (index_cursor m) (projr dr)))")
        case True
        then show ?thesis using run g some m0 \<open>needs_wal_compaction m\<close> d rep2
          by (cases dr; cases "encode_snapshot cd (snapshot_from_docs (index_cursor m) (projr dr))")
            (auto simp: compact_attempt_def intro: log_keptI)
      next
        case False
        then obtain docs body where dr: "dr = Inr docs"
          and body: "encode_snapshot cd (snapshot_from_docs (index_cursor m) docs) = Inr body"
          using not_isl_ex [of dr]
            not_isl_ex [of "encode_snapshot cd (snapshot_from_docs (index_cursor m) (projr dr))"] by auto
        have "publish_snapshot S cd fs ns m etag body again c s2 = (r, c', s')"
          using run g some m0 True d dr body by (simp add: compact_attempt_def)
        from publish_snapshot_rep [OF snapshot_of_cursor [OF rep1 lt d [unfolded dr] body pos] rep2 True this]
        show ?thesis using True by (auto split: option.splits)
      qed
    qed
  qed
qed

lemma compact_attempts_rep:
  assumes "ns_rep cd (objs s) ns m p bs" "length bs < u64_max"
    and "p = wal_snapshot_seq m \<or> needs_wal_compaction m"
    and "compact_attempts S cd pol fs ns n c s = (r, c', s')"
  shows "case r of Inr d \<Rightarrow> log_clean cd ns bs (objs s') | Inl e \<Rightarrow> log_kept cd ns bs (objs s')"
  using assms
proof (induction n arbitrary: s c p)
  case 0
  then show ?case by (auto intro: log_keptI)
next
  case (Suc n)
  obtain r1 c1 s1 where at: "compact_attempt S cd pol fs ns (0 < n) c s = (r1, c1, s1)"
    by (cases "compact_attempt S cd pol fs ns (0 < n) c s") auto
  show ?case
  proof (cases r1)
    case None
    with compact_attempt_rep [OF Suc.prems(1-3) at]
    have rep1: "ns_rep cd (objs s1) ns m (index_cursor m) bs" and need: "needs_wal_compaction m" by simp_all
    show ?thesis
      using Suc.IH [OF rep1 Suc.prems(2) disjI2 [OF need]] Suc.prems(4) at None by simp
  next
    case (Some x)
    then show ?thesis
      using compact_attempt_rep [OF Suc.prems(1-3) at] Suc.prems(4) at by (auto split: sum.splits)
  qed
qed

lemma maybe_compact_wal_rep:
  assumes rep: "ns_rep cd (objs s) ns m (wal_snapshot_seq m) bs" and lt: "length bs < u64_max"
    and run: "maybe_compact_wal S cd pol fs ns c s = (r, c', s')"
  shows "case r of Inr d \<Rightarrow> log_clean cd ns bs (objs s') | Inl e \<Rightarrow> log_kept cd ns bs (objs s')"
proof -
  obtain g s1 where g: "fetch_meta S cd ns s = (g, s1)" by (cases "fetch_meta S cd ns s")
  have rep1: "ns_rep cd (objs s1) ns m (wal_snapshot_seq m) bs" using rep fetch_meta_objs [OF g] by simp
  then have stay: "log_clean cd ns bs (objs s1)" "log_kept cd ns bs (objs s1)"
    by (auto intro: log_cleanI log_keptI)
  show ?thesis
    using run g stay compact_attempts_rep [OF rep1 lt disjI1 [OF refl], of pol fs META_RETRIES c r c' s']
    by (auto simp: maybe_compact_wal_def split: sum.splits option.splits if_splits prod.splits)
qed

end

end
