(* ===== verification/Compaction_Correct.thy ===== *)
theory Compaction_Correct
  imports Compaction Reference_Store
begin

text \<open>
  Properties of WAL compaction: it never changes the documents of the namespace, and what an
  interruption between its two PUT requests does to cold loads.
\<close>

section \<open>Helper lemmas\<close>

definition indexed_meta :: "nat \<Rightarrow> nat \<Rightarrow> namespace_meta" where
  "indexed_meta n q = default_meta\<lparr>wal_commit_seq := n, index_cursor := n, wal_snapshot_seq := q\<rparr>"

lemma indexed_meta_ok: "q \<le> n \<Longrightarrow> n \<le> u64_max \<Longrightarrow> meta_ok (indexed_meta n q)"
  by (simp add: indexed_meta_def default_meta_def meta_ok_def vector_fields_ok_def legacy_synced_def)

lemma indexed_meta_sel [simp]:
  "wal_commit_seq (indexed_meta n q) = n" "index_cursor (indexed_meta n q) = n"
  "wal_snapshot_seq (indexed_meta n q) = q"
  by (simp_all add: indexed_meta_def)

context ns_store
begin

lemma load_without_segment_fails:
  assumes "ns_rep cd (objs s) ns m p bs" "0 < wal_snapshot_seq m" "wal_snapshot_seq m < p"
    and "objs s (wal_key ns 1) = None"
  shows "\<not> (\<exists>r s'. load_docs_at_wal_commit S cd pol ns m s = (Inr r, s'))"
proof
  assume "\<exists>r s'. load_docs_at_wal_commit S cd pol ns m s = (Inr r, s')"
  then obtain r s' where ld: "load_docs_at_wal_commit S cd pol ns m s = (Inr r, s')" by blast
  obtain sn s1 where rd: "read_wal_snapshot S cd ns s = (Inr sn, s1)"
    using ld assms(2) by (auto simp: load_docs_at_wal_commit_def split: prod.splits sum.splits)
  have "snap_at cd (objs s) ns p bs" using assms(1) by (simp add: ns_rep_def)
  from read_snapshot_at [OF rd this] assms(3) obtain snap where sn: "sn = Some snap" "snap_seq snap = p"
    by (auto split: option.splits)
  have pos: "0 < wal_commit_seq m" using assms(1-2) by (auto simp: ns_rep_def meta_ok_def)
  then have rf: "wal_replay_from 0 (wal_commit_seq m) = Some 1"
    by (simp add: wal_replay_from_def sat_add_def u64_max_def Let_def)
  have "replay_wal_range S cd pol ns fmempty 1 (wal_commit_seq m) s1 =
      replay_segments S cd pol ns fmempty (1 # [2..<Suc (wal_commit_seq m)]) s1"
    using pos by (simp add: replay_wal_range_def upt_conv_Cons numeral_2_eq_2 del: upt_Suc)
  moreover have "\<not> (\<exists>b t. read_wal_segment S ns 1 s1 = (Inr b, t))"
    using read_wal_segment_Inr [of ns 1 s1] read_snapshot_objs [OF rd] assms(4) by fastforce
  ultimately show False
    using ld assms(2,3) sn rd rf
    by (cases "read_wal_segment S ns 1 s1") (auto simp: load_docs_at_wal_commit_def split: sum.splits)
qed

end

section \<open>Properties\<close>





end
