(* ===== verification/View.thy ===== *)
theory View
  imports Namespace_Append
begin

text \<open>
  The in-process view of a namespace (\<^verbatim>\<open>src/view.rs\<close>): the cached document map, its incremental
  advance along the log, and the per-document sequence numbers behind eventually consistent
  reads.
\<close>

section \<open>Operations\<close>

record namespace_view =
  v_docs :: docs
  v_meta :: namespace_meta
  v_meta_etag :: "string option"
  last_applied_wal_seq :: u64
  doc_last_wal_seq :: "(string, u64) fmap"

definition view_empty :: namespace_view where
  "view_empty =
     \<lparr>v_docs = fmempty, v_meta = default_meta, v_meta_etag = None, last_applied_wal_seq = 0,
      doc_last_wal_seq = fmempty\<rparr>"

definition docs_for_query :: "namespace_view \<Rightarrow> bool \<Rightarrow> docs" where
  "docs_for_query v skip_wal_tail =
     (if \<not> skip_wal_tail \<or> wal_commit_seq (v_meta v) \<le> index_cursor (v_meta v) then v_docs v
      else fmfilter
        (\<lambda>i. (case fmlookup (doc_last_wal_seq v) i of None \<Rightarrow> 0 | Some q \<Rightarrow> q) \<le> index_cursor (v_meta v))
        (v_docs v))"

definition update_doc_wal_seq_map ::
  "'z codec_scheme \<Rightarrow> (string, u64) fmap \<Rightarrow> u64 \<Rightarrow> wal_entry \<Rightarrow> (string, u64) fmap" where
  "update_doc_wal_seq_map cd mp q e =
     (let m1 = fmdrop_list (deletes e) mp;
          m2 = (case into_documents cd e of
                  Inl _ \<Rightarrow> m1 | Inr ds \<Rightarrow> fold (\<lambda>d. fmupd (doc_id d) q) ds m1)
      in fold (\<lambda>p m. if fm_contains m (wp_id p) then fmupd (wp_id p) q m else m) (patches e) m2)"

definition record_doc_wal_seq :: "'z codec_scheme \<Rightarrow> namespace_view \<Rightarrow> u64 \<Rightarrow> wal_entry \<Rightarrow> namespace_view" where
  "record_doc_wal_seq cd v q e =
     v\<lparr>doc_last_wal_seq := update_doc_wal_seq_map cd (doc_last_wal_seq v) q e\<rparr>"

text \<open>On an error the view keeps what was changed before it.\<close>

definition apply_committed ::
  "'z codec_scheme \<Rightarrow> namespace_view \<Rightarrow> u64 \<Rightarrow> wal_entry \<Rightarrow> namespace_view \<times> unit res" where
  "apply_committed cd v q e =
     (let v1 = record_doc_wal_seq cd v q e in
      case apply_entry cd (v_docs v1) e of
        (docs, Inl err) \<Rightarrow> (v1\<lparr>v_docs := docs\<rparr>, Inl err)
      | (docs, Inr _) \<Rightarrow>
          (v1\<lparr>v_docs := docs, last_applied_wal_seq := q,
              v_meta := (if wal_commit_seq (v_meta v1) < q then (v_meta v1)\<lparr>wal_commit_seq := q\<rparr>
                         else v_meta v1)\<rparr>, Inr ()))"

fun seq_map_segments ::
  "'s s3_client \<Rightarrow> 'z codec_scheme \<Rightarrow> string \<Rightarrow> (string, u64) fmap \<Rightarrow> u64 list \<Rightarrow> 's \<Rightarrow>
   (string, u64) fmap res \<times> 's" where
  "seq_map_segments S cd ns mp [] s = (Inr mp, s)"
| "seq_map_segments S cd ns mp (q # qs) s =
     (case read_wal_entry S cd ns q s of
        (Inl e, s') \<Rightarrow> (Inl e, s')
      | (Inr entry, s') \<Rightarrow> seq_map_segments S cd ns (update_doc_wal_seq_map cd mp q entry) qs s')"

definition build_doc_last_wal_seq ::
  "'s s3_client \<Rightarrow> 'z codec_scheme \<Rightarrow> string \<Rightarrow> namespace_meta \<Rightarrow> docs option \<Rightarrow> 's \<Rightarrow>
   (string, u64) fmap res \<times> 's" where
  "build_doc_last_wal_seq S cd ns m seed_docs s =
     (let mp = (if 0 < wal_snapshot_seq m
                then (case seed_docs of
                        None \<Rightarrow> fmempty
                      | Some docs \<Rightarrow> fold (\<lambda>i. fmupd i (wal_snapshot_seq m)) (fm_keys docs) fmempty)
                else fmempty);
          from_seq = (if 0 < wal_snapshot_seq m then sat_add (wal_snapshot_seq m) 1 else 1)
      in seq_map_segments S cd ns mp [from_seq..<Suc (wal_commit_seq m)] s)"

fun catch_up_segments ::
  "'s s3_client \<Rightarrow> 'z codec_scheme \<Rightarrow> string \<Rightarrow> namespace_view \<Rightarrow> u64 list \<Rightarrow> 's \<Rightarrow>
   (namespace_view \<times> unit res) \<times> 's" where
  "catch_up_segments S cd ns v [] s = ((v, Inr ()), s)"
| "catch_up_segments S cd ns v (q # qs) s =
     (case read_wal_entry S cd ns q s of
        (Inl e, s') \<Rightarrow> ((v, Inl e), s')
      | (Inr entry, s') \<Rightarrow>
          (let v1 = record_doc_wal_seq cd v q entry in
           case apply_entry cd (v_docs v1) entry of
             (docs, Inl e) \<Rightarrow> ((v1\<lparr>v_docs := docs\<rparr>, Inl e), s')
           | (docs, Inr _) \<Rightarrow> catch_up_segments S cd ns (v1\<lparr>v_docs := docs\<rparr>) qs s'))"

definition catch_up ::
  "'s s3_client \<Rightarrow> 'z ns_codec_scheme \<Rightarrow> wal_corrupt_policy \<Rightarrow> string \<Rightarrow> namespace_view \<Rightarrow> 's \<Rightarrow>
   (namespace_view \<times> bool res) \<times> 's" where
  "catch_up S cd pol ns v s =
     (case fetch_meta S cd ns s of
        (Inl e, s1) \<Rightarrow> ((v, Inl e), s1)
      | (Inr None, s1) \<Rightarrow> ((v, Inr False), s1)
      | (Inr (Some (m, etag)), s1) \<Rightarrow>
          if wal_commit_seq m \<le> last_applied_wal_seq v
          then ((v\<lparr>v_meta := m, v_meta_etag := etag\<rparr>, Inr False), s1)
          else if last_applied_wal_seq v < wal_snapshot_seq m
          then (case load_docs_at_wal_commit S cd pol ns m s1 of
                  (Inl e, s2) \<Rightarrow> ((v, Inl e), s2)
                | (Inr (docs, lst), s2) \<Rightarrow>
                    (case build_doc_last_wal_seq S cd ns m (Some docs) s2 of
                       (Inl e, s3) \<Rightarrow> ((v\<lparr>v_docs := docs\<rparr>, Inl e), s3)
                     | (Inr mp, s3) \<Rightarrow>
                         ((v\<lparr>v_docs := docs, doc_last_wal_seq := mp, last_applied_wal_seq := lst,
                             v_meta := m, v_meta_etag := etag\<rparr>, Inr True), s3)))
          else
            (case catch_up_segments S cd ns v [sat_add (last_applied_wal_seq v) 1..<Suc (wal_commit_seq m)] s1 of
               ((v', Inl e), s2) \<Rightarrow> ((v', Inl e), s2)
             | ((v', Inr _), s2) \<Rightarrow>
                 ((v'\<lparr>last_applied_wal_seq := wal_commit_seq m, v_meta := m, v_meta_etag := etag\<rparr>, Inr True), s2)))"

definition view_load ::
  "'s s3_client \<Rightarrow> 'z ns_codec_scheme \<Rightarrow> wal_corrupt_policy \<Rightarrow> string \<Rightarrow> 's \<Rightarrow> namespace_view res \<times> 's" where
  "view_load S cd pol ns s =
     (case fetch_meta S cd ns s of
        (Inl e, s1) \<Rightarrow> (Inl e, s1)
      | (Inr None, s1) \<Rightarrow> (Inr view_empty, s1)
      | (Inr (Some (m, etag)), s1) \<Rightarrow>
          (case load_docs_at_wal_commit S cd pol ns m s1 of
             (Inl e, s2) \<Rightarrow> (Inl e, s2)
           | (Inr (docs, lst), s2) \<Rightarrow>
               (case build_doc_last_wal_seq S cd ns m (Some docs) s2 of
                  (Inl e, s3) \<Rightarrow> (Inl e, s3)
                | (Inr mp, s3) \<Rightarrow>
                    (Inr \<lparr>v_docs = docs, v_meta = m, v_meta_etag = etag, last_applied_wal_seq = lst,
                          doc_last_wal_seq = mp\<rparr>, s3))))"

section \<open>The view against the log\<close>

text \<open>
  \<open>seqs_ok K mp bs n\<close>: every document among \<open>K\<close> that is live after \<open>n\<close> batches has a recorded
  number, and it has not changed since that number.
\<close>

definition row_at :: "batch list \<Rightarrow> nat \<Rightarrow> string \<Rightarrow> document option" where
  "row_at bs n k = fmlookup (run_log (take n bs)) k"

definition seqs_ok :: "string set \<Rightarrow> (string, u64) fmap \<Rightarrow> batch list \<Rightarrow> nat \<Rightarrow> bool" where
  "seqs_ok K mp bs n \<longleftrightarrow>
     (\<forall>k \<in> K. row_at bs n k \<noteq> None \<longrightarrow>
        (\<exists>q. fmlookup mp k = Some q \<and> q \<le> n \<and> (\<forall>j. q \<le> j \<and> j \<le> n \<longrightarrow> row_at bs j k = row_at bs n k)))"

definition view_ok :: "namespace_view \<Rightarrow> batch list \<Rightarrow> bool" where
  "view_ok v bs \<longleftrightarrow>
     last_applied_wal_seq v \<le> length bs \<and>
     v_docs v = run_log (take (last_applied_wal_seq v) bs) \<and>
     seqs_ok UNIV (doc_last_wal_seq v) bs (last_applied_wal_seq v)"

lemma row_at_Suc: "n < length bs \<Longrightarrow> row_at bs (Suc n) k = row_after (bs ! n) k (row_at bs n k)"
  by (simp add: row_at_def run_log_def take_Suc_conv_app_nth lookup_apply_batch)

lemma run_log_Suc: "n < length bs \<Longrightarrow> run_log (take (Suc n) bs) = apply_batch (run_log (take n bs)) (bs ! n)"
  by (simp add: run_log_def take_Suc_conv_app_nth)

lemma row_at_0 [simp]: "row_at bs 0 k = None"
  by (simp add: row_at_def run_log_def)

lemma lookup_fold_seq:
  "fmlookup (fold (\<lambda>d. fmupd (doc_id d) q) ds m) k = (if k \<in> doc_id ` set ds then Some q else fmlookup m k)"
  by (induction ds arbitrary: m) auto

lemma lookup_fold_patch_seq:
  "fmlookup (fold (\<lambda>p m. if fm_contains m (wp_id p) then fmupd (wp_id p) q m else m) ps m) k =
     (if k \<in> wp_id ` set ps \<and> fmlookup m k \<noteq> None then Some q else fmlookup m k)"
  by (induction ps arbitrary: m) (auto simp: fm_contains_def)

lemma lookup_update_seq:
  assumes "decodes_to cd e b"
  shows "fmlookup (update_doc_wal_seq_map cd mp q e) k =
    (let cur = (if k \<in> doc_id ` set (b_upserts b) then Some q
                else if k \<in> set (b_deletes b) then None else fmlookup mp k)
     in if k \<in> doc_id ` set (b_patches b) \<and> cur \<noteq> None then Some q else cur)"
proof -
  have "wp_id ` set (patches e) = doc_id ` set (b_patches b)"
    using decodes_to_patch_ids [OF assms] by (metis set_map)
  then show ?thesis
    using assms
    by (simp add: update_doc_wal_seq_map_def decodes_to_def lookup_fold_patch_seq lookup_fold_seq Let_def)
qed

lemma seqs_ok_step:
  assumes ok: "seqs_ok K mp bs n" and n: "n < length bs" and b: "decodes_to cd e (bs ! n)"
  shows "seqs_ok K (update_doc_wal_seq_map cd mp (Suc n) e) bs (Suc n)"
  unfolding seqs_ok_def
proof (intro ballI impI)
  fix k
  assume K: "k \<in> K" and live: "row_at bs (Suc n) k \<noteq> None"
  let ?b = "bs ! n" and ?mp = "update_doc_wal_seq_map cd mp (Suc n) e"
  note upd = lookup_update_seq [OF b, of mp "Suc n" k]
  show "\<exists>q. fmlookup ?mp k = Some q \<and> q \<le> Suc n \<and>
      (\<forall>j. q \<le> j \<and> j \<le> Suc n \<longrightarrow> row_at bs j k = row_at bs (Suc n) k)"
  proof (cases "fmlookup ?mp k = Some (Suc n)")
    case True
    then show ?thesis by (auto simp: le_antisym)
  next
    case False
    have not_up: "k \<notin> doc_id ` set (b_upserts ?b)" using False unfolding upd by (auto simp: Let_def split: if_splits)
    then have nd: "k \<notin> set (b_deletes ?b)" and old: "row_at bs n k \<noteq> None"
      using live by (auto simp: row_at_Suc [OF n] row_after_None)
    from ok K old obtain q where q: "fmlookup mp k = Some q" "q \<le> n"
      "\<forall>j. q \<le> j \<and> j \<le> n \<longrightarrow> row_at bs j k = row_at bs n k"
      by (auto simp: seqs_ok_def)
    then have np: "k \<notin> doc_id ` set (b_patches ?b)"
      using False nd not_up unfolding upd by (auto simp: Let_def split: if_splits)
    have same: "row_at bs (Suc n) k = row_at bs n k"
      using nd by (simp add: row_at_Suc [OF n] row_after_untouched [OF not_up np])
    have "fmlookup ?mp k = Some q" using q nd not_up np by (simp add: upd Let_def)
    then show ?thesis using q same by (metis le_Suc_eq)
  qed
qed

lemma row_at_past: "length bs \<le> n \<Longrightarrow> row_at bs n k = fmlookup (run_log bs) k"
  by (simp add: row_at_def)

lemma row_at_append: "n \<le> length bs \<Longrightarrow> row_at (bs @ cs) n = row_at bs n"
  by (simp add: row_at_def fun_eq_iff)

lemma seqs_ok_append: "n \<le> length bs \<Longrightarrow> seqs_ok K mp (bs @ cs) n \<longleftrightarrow> seqs_ok K mp bs n"
  by (auto simp: seqs_ok_def row_at_append)

lemma view_ok_append: "view_ok v bs \<Longrightarrow> view_ok v (bs @ cs)"
  by (auto simp: view_ok_def seqs_ok_append)

lemma seqs_ok_empty: "seqs_ok K mp bs 0"
  by (simp add: seqs_ok_def)

lemma view_empty_ok: "view_ok view_empty bs"
  by (simp add: view_ok_def view_empty_def seqs_ok_empty run_log_def)

lemma seqs_ok_seed:
  "seqs_ok (fmdom' docs) (fold (\<lambda>i. fmupd i q) (fm_keys docs) fmempty) bs q"
proof -
  have "fmlookup (fold (\<lambda>i. fmupd i q) xs m) k = (if k \<in> set xs then Some q else fmlookup m k)"
    for xs k and m :: "(string, nat) fmap"
    by (induction xs arbitrary: m) auto
  then show ?thesis
    by (auto simp: seqs_ok_def fmdom'_alt_def dest: le_antisym)
qed

text \<open>Advancing a view by the next committed batch keeps it in step with the log.\<close>

lemma apply_committed_ok:
  assumes "view_ok v bs" "last_applied_wal_seq v < length bs"
    and "decodes_to cd e (bs ! last_applied_wal_seq v)"
    and "apply_committed cd v (Suc (last_applied_wal_seq v)) e = (v', r)"
  shows "r = Inr () \<and> view_ok v' bs \<and> last_applied_wal_seq v' = Suc (last_applied_wal_seq v)"
  using assms
  by (auto simp: apply_committed_def record_doc_wal_seq_def apply_entry_batch view_ok_def run_log_Suc Let_def
      intro: seqs_ok_step)

text \<open>An eventually consistent read returns rows as they were at the index cursor.\<close>

lemma docs_for_query_at_cursor:
  assumes "view_ok v bs" "wal_commit_seq (v_meta v) = last_applied_wal_seq v"
    and "index_cursor (v_meta v) \<le> last_applied_wal_seq v"
    and "fmlookup (docs_for_query v True) k = Some d"
  shows "fmlookup (v_docs v) k = Some d \<and> row_at bs (index_cursor (v_meta v)) k = Some d"
proof -
  have d: "fmlookup (v_docs v) k = Some d"
    using assms(4) by (auto simp: docs_for_query_def split: if_splits)
  then have live: "row_at bs (last_applied_wal_seq v) k = Some d"
    using assms(1) by (simp add: view_ok_def row_at_def)
  show ?thesis
  proof (cases "wal_commit_seq (v_meta v) \<le> index_cursor (v_meta v)")
    case True
    then have "index_cursor (v_meta v) = last_applied_wal_seq v" using assms(2,3) by simp
    then show ?thesis using d live by simp
  next
    case False
    obtain q where q: "fmlookup (doc_last_wal_seq v) k = Some q"
      "\<forall>j. q \<le> j \<and> j \<le> last_applied_wal_seq v \<longrightarrow> row_at bs j k = row_at bs (last_applied_wal_seq v) k"
      using assms(1) live unfolding view_ok_def seqs_ok_def by (metis UNIV_I option.distinct(1))
    then have "q \<le> index_cursor (v_meta v)"
      using assms(4) False by (auto simp: docs_for_query_def split: if_splits)
    then show ?thesis using q assms(3) d live by simp
  qed
qed

section \<open>Loading and catching up\<close>

context ns_store
begin

lemma read_wal_entry_objs: "read_wal_entry S cd ns q s = (r, s') \<Longrightarrow> objs s' = objs s"
  by (auto simp: read_wal_entry_def split: prod.splits sum.splits dest: read_wal_segment_objs)

lemma read_wal_entry_seg:
  "read_wal_entry S cd ns q s = (Inr e, s') \<Longrightarrow> seg_at cd (objs s) ns q b \<Longrightarrow> decodes_to cd e b"
  by (auto simp: read_wal_entry_def seg_at_def split: prod.splits sum.splits dest!: read_wal_segment_Inr)

lemma seq_map_segments_objs: "seq_map_segments S cd ns mp qs s = (r, s') \<Longrightarrow> objs s' = objs s"
  by (induction qs arbitrary: mp s) (auto split: prod.splits sum.splits dest: read_wal_entry_objs)

lemma seq_map_segments_ok:
  assumes "\<And>q. a < q \<Longrightarrow> q \<le> c \<Longrightarrow> seg_at cd (objs s) ns q (bs ! (q - 1))"
    and "seqs_ok K mp bs a" "a \<le> c" "c \<le> length bs"
    and "seq_map_segments S cd ns mp [Suc a..<Suc c] s = (Inr mp', s')"
  shows "seqs_ok K mp' bs c"
  using assms
proof (induction "c - a" arbitrary: a mp s)
  case 0
  then show ?case by simp
next
  case (Suc n)
  then have "a < c" by simp
  then have r: "[Suc a..<Suc c] = Suc a # [Suc (Suc a)..<Suc c]" by (simp add: upt_conv_Cons del: upt_Suc)
  obtain e s1 where rd: "read_wal_entry S cd ns (Suc a) s = (Inr e, s1)"
    and rest: "seq_map_segments S cd ns (update_doc_wal_seq_map cd mp (Suc a) e) [Suc (Suc a)..<Suc c] s1 = (Inr mp', s')"
    using Suc.prems(5) unfolding r by (auto split: prod.splits sum.splits simp del: upt_Suc)
  have "decodes_to cd e (bs ! a)"
    using read_wal_entry_seg [OF rd, of "bs ! a"] Suc.prems(1) [of "Suc a"] \<open>a < c\<close> by simp
  then have "seqs_ok K (update_doc_wal_seq_map cd mp (Suc a) e) bs (Suc a)"
    using seqs_ok_step [OF Suc.prems(2)] Suc.prems(4) \<open>a < c\<close> by simp
  then show ?case
    using Suc.hyps(1) [OF _ _ _ _ _ rest] Suc.hyps(2) Suc.prems(1,4) \<open>a < c\<close> read_wal_entry_objs [OF rd]
    by simp
qed

lemma build_seq_map_objs: "build_doc_last_wal_seq S cd ns m sd s = (r, s') \<Longrightarrow> objs s' = objs s"
  by (auto simp: build_doc_last_wal_seq_def Let_def simp del: upt_Suc dest: seq_map_segments_objs)

lemma build_seq_map_ok:
  assumes rep: "ns_rep cd (objs s) ns m p bs" and lt: "length bs < u64_max"
    and b: "build_doc_last_wal_seq S cd ns m (Some (run_log bs)) s = (Inr mp, s')"
  shows "seqs_ok UNIV mp bs (length bs)"
proof -
  let ?q = "wal_snapshot_seq m"
  have m: "?q \<le> length bs" "wal_commit_seq m = length bs"
    and segs: "\<And>q. ?q < q \<Longrightarrow> q \<le> length bs \<Longrightarrow> seg_at cd (objs s) ns q (bs ! (q - 1))"
    using rep by (auto simp: ns_rep_def meta_ok_def WAL_COMPACT_KEEP_def)
  define mp0 where "mp0 = (if 0 < ?q then fold (\<lambda>i. fmupd i ?q) (fm_keys (run_log bs)) fmempty else fmempty)"
  have from_seq: "(if 0 < ?q then sat_add ?q 1 else 1) = Suc ?q"
    using m lt by (simp add: sat_add_exact)
  have run: "seq_map_segments S cd ns mp0 [Suc ?q..<Suc (length bs)] s = (Inr mp, s')"
    using b unfolding build_doc_last_wal_seq_def from_seq Let_def mp0_def m
    by (cases "0 < ?q") (simp_all del: upt_Suc)
  have "seqs_ok (fmdom' (run_log bs)) mp0 bs ?q"
    using seqs_ok_seed by (auto simp: mp0_def seqs_ok_empty)
  from seq_map_segments_ok [OF segs this m(1) le_refl run]
  show ?thesis by (auto simp: seqs_ok_def row_at_past fmlookup_dom'_iff)
qed

lemma fetch_meta_objs: "fetch_meta S cd ns s = (r, s') \<Longrightarrow> objs s' = objs s"
  unfolding fetch_meta_def by (rule get_meta_objs)

lemma fetch_meta_rep:
  "fetch_meta S cd ns s = (Inr (Some (m', et)), s') \<Longrightarrow> ns_rep cd (objs s) ns m p bs \<Longrightarrow> m' = m"
  unfolding fetch_meta_def by (auto dest!: get_meta_Inr simp: ns_rep_def meta_at_def)

lemma fetch_meta_rep_None:
  "fetch_meta S cd ns s = (Inr None, s') \<Longrightarrow> ns_rep cd (objs s) ns m p bs \<Longrightarrow> bs = []"
  unfolding fetch_meta_def by (auto dest!: get_meta_Inr simp: ns_rep_def meta_at_def default_meta_def)

lemma reload_ok:
  assumes rep: "ns_rep cd (objs s) ns m (wal_snapshot_seq m) bs" and lt: "length bs < u64_max"
    and ld: "load_docs_at_wal_commit S cd pol ns m s = (Inr (docs, lst), s1)"
    and b: "build_doc_last_wal_seq S cd ns m (Some docs) s1 = (Inr mp, s2)"
  shows "docs = run_log bs \<and> lst = length bs \<and> seqs_ok UNIV mp bs (length bs) \<and> objs s2 = objs s"
proof -
  have l: "docs = run_log bs" "lst = length bs" "objs s1 = objs s"
    using load_docs_log [OF rep disjI1 [OF refl] lt ld] by simp_all
  then show ?thesis
    using build_seq_map_ok [of s1 ns m "wal_snapshot_seq m" bs mp s2] build_seq_map_objs [OF b] rep lt b by simp
qed

lemma seq_map_segments_corrupt:
  assumes "q \<in> set qs" "objs s (wal_key ns q) = Some (body, tag)" "decode_segment cd body (Some q) = Inl e"
  shows "seq_map_segments S cd ns mp qs s \<noteq> (Inr mp', s')"
  using assms
proof (induction qs arbitrary: mp s)
  case (Cons q' qs)
  have "read_wal_entry S cd ns q s \<noteq> (Inr en, s1)" for en s1
    using Cons.prems(2,3) by (auto simp: read_wal_entry_def split: prod.splits sum.splits dest!: read_wal_segment_Inr)
  then show ?case
    using Cons by (auto split: prod.splits sum.splits dest: read_wal_entry_objs)
qed simp

lemma load_docs_objs: "load_docs_at_wal_commit S cd pol ns m s = (r, s') \<Longrightarrow> objs s' = objs s"
  by (auto simp: load_docs_at_wal_commit_def Let_def split: prod.splits sum.splits option.splits if_splits
      dest!: read_snapshot_objs replay_range_objs)

lemma view_load_corrupt:
  assumes f: "fetch_meta S cd ns s = (Inr (Some (m, etag)), s1)"
    and seg: "objs s (wal_key ns q) = Some (body, tag)" "decode_segment cd body (Some q) = Inl e"
    and q: "wal_snapshot_seq m < q" "q \<le> wal_commit_seq m" "wal_commit_seq m < u64_max"
  shows "view_load S cd pol ns s \<noteq> (Inr v, s')"
proof
  assume "view_load S cd pol ns s = (Inr v, s')"
  then obtain docs lst s2 mp where ld: "load_docs_at_wal_commit S cd pol ns m s1 = (Inr (docs, lst), s2)"
    and b: "build_doc_last_wal_seq S cd ns m (Some docs) s2 = (Inr mp, s')"
    by (auto simp: view_load_def f split: prod.splits sum.splits)
  have ob: "objs s2 = objs s" using load_docs_objs [OF ld] fetch_meta_objs [OF f] by simp
  have "q \<in> set [if 0 < wal_snapshot_seq m then sat_add (wal_snapshot_seq m) 1 else 1..<Suc (wal_commit_seq m)]"
    using q by (auto simp: sat_add_exact)
  from seq_map_segments_corrupt [OF this, of s2] seg b show False
    by (simp add: build_doc_last_wal_seq_def ob Let_def del: set_upt upt_Suc)
qed

lemma view_load_ok:
  assumes rep: "ns_rep cd (objs s) ns m (wal_snapshot_seq m) bs" and lt: "length bs < u64_max"
    and ld: "view_load S cd pol ns s = (Inr v, s')"
  shows "view_ok v bs \<and> last_applied_wal_seq v = length bs \<and> wal_commit_seq (v_meta v) = length bs \<and>
    index_cursor (v_meta v) \<le> length bs \<and> objs s' = objs s"
proof -
  obtain got s1 where f: "fetch_meta S cd ns s = (Inr got, s1)"
    using ld by (auto simp: view_load_def split: prod.splits sum.splits)
  note ob = fetch_meta_objs [OF f]
  show ?thesis
  proof (cases got)
    case None
    then have "bs = []" using fetch_meta_rep_None f rep by blast
    then show ?thesis
      using ld f None ob view_empty_ok by (auto simp: view_load_def view_empty_def default_meta_def)
  next
    case (Some me)
    obtain m' et where "me = (m', et)" by (cases me)
    then have got: "got = Some (m, et)" using Some f rep fetch_meta_rep by blast
    obtain docs lst s2 mp where ld2: "load_docs_at_wal_commit S cd pol ns m s1 = (Inr (docs, lst), s2)"
      and b: "build_doc_last_wal_seq S cd ns m (Some docs) s2 = (Inr mp, s')"
      and v: "v = \<lparr>v_docs = docs, v_meta = m, v_meta_etag = et, last_applied_wal_seq = lst, doc_last_wal_seq = mp\<rparr>"
      using ld by (auto simp: view_load_def f got split: prod.splits sum.splits)
    have "wal_commit_seq m = length bs" "index_cursor m \<le> length bs"
      using rep by (auto simp: ns_rep_def meta_ok_def)
    then show ?thesis
      using reload_ok [OF _ lt ld2 b] rep ob by (simp add: v view_ok_def)
  qed
qed

lemma catch_up_segments_objs: "catch_up_segments S cd ns v qs s = (r, s') \<Longrightarrow> objs s' = objs s"
  by (induction qs arbitrary: v s)
    (auto simp: Let_def split: prod.splits sum.splits dest: read_wal_entry_objs)

lemma catch_up_segments_ok:
  assumes "\<And>q. a < q \<Longrightarrow> q \<le> c \<Longrightarrow> seg_at cd (objs s) ns q (bs ! (q - 1))"
    and "seqs_ok UNIV (doc_last_wal_seq v) bs a" "v_docs v = run_log (take a bs)" "a \<le> c" "c \<le> length bs"
    and "catch_up_segments S cd ns v [Suc a..<Suc c] s = ((v', Inr u), s')"
  shows "seqs_ok UNIV (doc_last_wal_seq v') bs c \<and> v_docs v' = run_log (take c bs)"
  using assms
proof (induction "c - a" arbitrary: a v s)
  case 0
  then show ?case by simp
next
  case (Suc n)
  then have "a < c" by simp
  then have r: "[Suc a..<Suc c] = Suc a # [Suc (Suc a)..<Suc c]" by (simp add: upt_conv_Cons del: upt_Suc)
  obtain e s1 where rd: "read_wal_entry S cd ns (Suc a) s = (Inr e, s1)"
    using Suc.prems(6) unfolding r by (auto split: prod.splits sum.splits simp del: upt_Suc)
  have e: "decodes_to cd e (bs ! a)"
    using read_wal_entry_seg [OF rd, of "bs ! a"] Suc.prems(1) [of "Suc a"] \<open>a < c\<close> by simp
  define v1 where "v1 = (record_doc_wal_seq cd v (Suc a) e)\<lparr>v_docs := run_log (take (Suc a) bs)\<rparr>"
  have "a < length bs" using \<open>a < c\<close> Suc.prems(5) by simp
  then have rest: "catch_up_segments S cd ns v1 [Suc (Suc a)..<Suc c] s1 = ((v', Inr u), s')"
    using Suc.prems(3,6) rd apply_entry_batch [OF e] unfolding r
    by (simp add: v1_def record_doc_wal_seq_def run_log_Suc del: upt_Suc)
  have "seqs_ok UNIV (doc_last_wal_seq v1) bs (Suc a)"
    using seqs_ok_step [OF Suc.prems(2) \<open>a < length bs\<close> e] by (simp add: v1_def record_doc_wal_seq_def)
  then show ?case
    using Suc.hyps(1) [OF _ _ _ _ _ _ rest] Suc.hyps(2) Suc.prems(1,5) \<open>a < c\<close> read_wal_entry_objs [OF rd]
    by (simp add: v1_def)
qed

lemma catch_up_ok:
  assumes rep: "ns_rep cd (objs s) ns m (wal_snapshot_seq m) bs" and lt: "length bs < u64_max"
    and v: "view_ok v bs" and cu: "catch_up S cd pol ns v s = ((v', Inr adv), s')"
  shows "view_ok v' bs \<and> last_applied_wal_seq v' = length bs \<and>
    (adv \<longleftrightarrow> last_applied_wal_seq v < length bs) \<and> objs s' = objs s"
proof -
  let ?a = "last_applied_wal_seq v"
  have a: "?a \<le> length bs" using v by (simp add: view_ok_def)
  obtain got s1 where f: "fetch_meta S cd ns s = (Inr got, s1)"
    using cu by (auto simp: catch_up_def split: prod.splits sum.splits)
  note ob = fetch_meta_objs [OF f]
  have mc: "wal_commit_seq m = length bs" using rep by (simp add: ns_rep_def)
  show ?thesis
  proof (cases got)
    case None
    then have "bs = []" using fetch_meta_rep_None f rep by blast
    then show ?thesis using cu f None ob v a by (auto simp: catch_up_def)
  next
    case (Some me)
    obtain m' et where "me = (m', et)" by (cases me)
    then have got: "got = Some (m, et)" using Some f rep fetch_meta_rep by blast
    consider "length bs \<le> ?a" | "?a < length bs" "?a < wal_snapshot_seq m"
      | "?a < length bs" "wal_snapshot_seq m \<le> ?a" by linarith
    then show ?thesis
    proof cases
      case 1
      then show ?thesis using cu f got mc ob v a by (auto simp: catch_up_def view_ok_def)
    next
      case 2
      then obtain docs lst s2 mp where ld2: "load_docs_at_wal_commit S cd pol ns m s1 = (Inr (docs, lst), s2)"
        and b: "build_doc_last_wal_seq S cd ns m (Some docs) s2 = (Inr mp, s')" and "adv"
        and v': "v' = v\<lparr>v_docs := docs, doc_last_wal_seq := mp, last_applied_wal_seq := lst,
                             v_meta := m, v_meta_etag := et\<rparr>"
        using cu by (auto simp: catch_up_def f got mc split: prod.splits sum.splits)
      then show ?thesis
        using reload_ok [OF _ lt ld2 b] rep ob 2 by (simp add: view_ok_def)
    next
      case 3
      have sx: "sat_add ?a (Suc 0) = Suc ?a" using 3 lt by (simp add: sat_add_exact)
      obtain v1 u where cs: "catch_up_segments S cd ns v [Suc ?a..<Suc (length bs)] s1 = ((v1, Inr u), s')"
        and "adv" and v': "v' = v1\<lparr>last_applied_wal_seq := length bs, v_meta := m, v_meta_etag := et\<rparr>"
        using cu 3 by (auto simp: catch_up_def f got mc sx simp del: upt_Suc split: prod.splits sum.splits)
      have "seqs_ok UNIV (doc_last_wal_seq v1) bs (length bs) \<and> v_docs v1 = run_log (take (length bs) bs)"
        by (rule catch_up_segments_ok [OF _ _ _ _ _ cs])
          (use 3 rep ob v a in \<open>auto simp: ns_rep_def view_ok_def WAL_COMPACT_KEEP_def\<close>)
      then show ?thesis
        using catch_up_segments_objs [OF cs] ob 3 \<open>adv\<close> by (simp add: v' view_ok_def)
    qed
  qed
qed

end

context ns_store_reliable
begin

lemma read_wal_entry_total:
  "seg_at cd (objs s) ns q b \<Longrightarrow> \<exists>e s'. read_wal_entry S cd ns q s = (Inr e, s') \<and> decodes_to cd e b"
  using read_wal_segment_total [of s ns q] by (fastforce simp: seg_at_def read_wal_entry_def)

lemma seq_map_segments_total:
  "(\<And>q. q \<in> set qs \<Longrightarrow> seg_at cd (objs s) ns q (f q)) \<Longrightarrow> \<exists>mp' s'. seq_map_segments S cd ns mp qs s = (Inr mp', s')"
proof (induction qs arbitrary: mp s)
  case (Cons q qs)
  obtain e s1 where rd: "read_wal_entry S cd ns q s = (Inr e, s1)"
    using read_wal_entry_total [of s ns q "f q"] Cons.prems by auto
  have "\<exists>mp' s'. seq_map_segments S cd ns (update_doc_wal_seq_map cd mp q e) qs s1 = (Inr mp', s')"
    using Cons.prems read_wal_entry_objs [OF rd] by (intro Cons.IH) simp
  then show ?case by (simp add: rd)
qed simp

lemma catch_up_segments_total:
  "(\<And>q. q \<in> set qs \<Longrightarrow> seg_at cd (objs s) ns q (f q)) \<Longrightarrow>
   \<exists>v' s'. catch_up_segments S cd ns v qs s = ((v', Inr ()), s')"
proof (induction qs arbitrary: v s)
  case (Cons q qs)
  obtain e s1 where rd: "read_wal_entry S cd ns q s = (Inr e, s1)" "decodes_to cd e (f q)"
    using read_wal_entry_total [of s ns q "f q"] Cons.prems by auto
  have "\<exists>v' s'. catch_up_segments S cd ns v1 qs s1 = ((v', Inr ()), s')" for v1
    using Cons.prems read_wal_entry_objs [OF rd(1)] by (intro Cons.IH) simp
  then show ?case by (simp add: rd(1) apply_entry_batch [OF rd(2)] Let_def)
qed simp

lemma rep_segments:
  assumes "ns_rep cd ob ns m p bs" and "wal_snapshot_seq m \<le> a" and "q \<in> set [Suc a..<Suc (length bs)]"
  shows "seg_at cd ob ns q (bs ! (q - 1))"
  using assms by (auto simp: ns_rep_def meta_ok_def WAL_COMPACT_KEEP_def)

lemma reload_total:
  assumes rep: "ns_rep cd (objs s) ns m (wal_snapshot_seq m) bs" and lt: "length bs < u64_max"
  shows "\<exists>docs lst mp s1 s2. load_docs_at_wal_commit S cd pol ns m s = (Inr (docs, lst), s1) \<and>
    build_doc_last_wal_seq S cd ns m (Some docs) s1 = (Inr mp, s2)"
proof -
  let ?q = "wal_snapshot_seq m"
  obtain docs lst s1 where ld: "load_docs_at_wal_commit S cd pol ns m s = (Inr (docs, lst), s1)"
    using load_total [OF rep refl lt, of pol] by auto
  have m: "wal_commit_seq m = length bs" "?q \<le> length bs"
    using rep by (auto simp: ns_rep_def meta_ok_def)
  then have from_seq: "(if 0 < ?q then sat_add ?q 1 else 1) = Suc ?q"
    using lt by (simp add: sat_add_exact)
  have "\<exists>mp s2. seq_map_segments S cd ns mp0 [Suc ?q..<Suc (length bs)] s1 = (Inr mp, s2)" for mp0
    by (rule seq_map_segments_total [of _ _ _ "\<lambda>q. bs ! (q - 1)"])
      (use rep_segments [OF rep, of ?q] load_docs_objs [OF ld] in simp)
  then have "\<exists>mp s2. build_doc_last_wal_seq S cd ns m (Some docs) s1 = (Inr mp, s2)"
    unfolding build_doc_last_wal_seq_def Let_def m(1) from_seq .
  then show ?thesis using ld by blast
qed

lemma fetch_meta_total:
  assumes "ns_rep cd (objs s) ns m p bs"
  shows "\<exists>got s1. fetch_meta S cd ns s = (Inr got, s1)"
  using get_meta_total [OF assms] by (auto simp: fetch_meta_def)

lemma view_load_total:
  assumes rep: "ns_rep cd (objs s) ns m (wal_snapshot_seq m) bs" and lt: "length bs < u64_max"
  shows "\<exists>v s'. view_load S cd pol ns s = (Inr v, s')"
proof -
  obtain got s1 where f: "fetch_meta S cd ns s = (Inr got, s1)" using fetch_meta_total [OF rep] by blast
  show ?thesis
  proof (cases got)
    case (Some me)
    then obtain et where "got = Some (m, et)" using f fetch_meta_rep [OF _ rep] by (cases me) blast
    moreover have "ns_rep cd (objs s1) ns m (wal_snapshot_seq m) bs" using rep fetch_meta_objs [OF f] by simp
    then obtain docs lst mp s2 s3 where "load_docs_at_wal_commit S cd pol ns m s1 = (Inr (docs, lst), s2)"
      "build_doc_last_wal_seq S cd ns m (Some docs) s2 = (Inr mp, s3)"
      using reload_total [OF _ lt, of s1] by metis
    ultimately show ?thesis by (simp add: view_load_def f)
  qed (simp add: view_load_def f)
qed

lemma catch_up_total:
  assumes rep: "ns_rep cd (objs s) ns m (wal_snapshot_seq m) bs" and lt: "length bs < u64_max"
    and v: "view_ok v bs"
  shows "\<exists>v' adv s'. catch_up S cd pol ns v s = ((v', Inr adv), s')"
proof -
  let ?a = "last_applied_wal_seq v"
  obtain got s1 where f: "fetch_meta S cd ns s = (Inr got, s1)" using fetch_meta_total [OF rep] by blast
  show ?thesis
  proof (cases got)
    case (Some me)
    then obtain et where got: "got = Some (m, et)" using f fetch_meta_rep [OF _ rep] by (cases me) blast
    have rep1: "ns_rep cd (objs s1) ns m (wal_snapshot_seq m) bs" using rep fetch_meta_objs [OF f] by simp
    have mc: "wal_commit_seq m = length bs" using rep by (simp add: ns_rep_def)
    obtain docs lst mp s2 s3 where "load_docs_at_wal_commit S cd pol ns m s1 = (Inr (docs, lst), s2)"
      "build_doc_last_wal_seq S cd ns m (Some docs) s2 = (Inr mp, s3)"
      using reload_total [OF rep1 lt] by metis
    moreover have "\<exists>v' s'. catch_up_segments S cd ns v [sat_add ?a 1..<Suc (length bs)] s1 = ((v', Inr ()), s')"
      if a: "wal_snapshot_seq m \<le> ?a" "?a < length bs"
    proof -
      have "sat_add ?a 1 = Suc ?a" using a lt by (simp add: sat_add_exact)
      moreover have "\<exists>v' s'. catch_up_segments S cd ns v [Suc ?a..<Suc (length bs)] s1 = ((v', Inr ()), s')"
        by (rule catch_up_segments_total [of _ _ _ "\<lambda>q. bs ! (q - 1)"]) (use rep_segments [OF rep1 a(1)] in simp)
      ultimately show ?thesis by metis
    qed
    ultimately show ?thesis
      by (cases "length bs \<le> ?a"; cases "?a < wal_snapshot_seq m")
        (auto simp: catch_up_def f got mc not_less not_le simp del: upt_Suc)
  qed (auto simp: catch_up_def f intro: exI [of _ False])
qed

end

end
