(* ===== verification/View_Correct.thy ===== *)
theory View_Correct
  imports View Reference_Store Compaction_Correct
begin

text \<open>
  Properties of the cached namespace view: it follows the committed log, an eventually
  consistent read returns rows as of the index cursor, a batch that was skipped is never
  filled in, and the lenient corruption policy does not reach it.
\<close>


lemma twelve_rep:
  "ns_rep ref_ns_codec (mem_view (sample_store (indexed_meta 12 0) 0 [1..<13])) ''t''
      (indexed_meta 12 0) (wal_snapshot_seq (indexed_meta 12 0)) (sample_log 12)"
  using sample_store_rep [of "indexed_meta 12 0" 12 0 "[1..<13]"] indexed_meta_ok [of 0 12]
  by (auto simp: u64_max_def)

lemma short_log_lt: "length (sample_log 12) < u64_max"
  by (simp add: length_sample_log u64_max_def)




text \<open>
  C15. A healthy service makes a namespace readable: without faults, loading a view and catching
  one up always succeed, under either corruption policy and whether or not the log was
  compacted, and both end in step with the committed log.
\<close>

theorem view_becomes_current:
  assumes "ns_store_reliable S objs cd" and "ns_rep cd (objs s) ns m (wal_snapshot_seq m) bs"
    and "length bs < u64_max" and "view_ok v bs"
  shows "(\<exists>v1 s1. view_load S cd pol ns s = (Inr v1, s1) \<and> v_docs v1 = run_log bs) \<and>
    (\<exists>v2 adv s2. catch_up S cd pol ns v s = ((v2, Inr adv), s2) \<and> v_docs v2 = run_log bs \<and> view_ok v2 bs)"
proof
  note st = ns_store_reliable.axioms(1) [OF assms(1)]
  obtain v1 s1 where ld: "view_load S cd pol ns s = (Inr v1, s1)"
    using ns_store_reliable.view_load_total [OF assms(1-3)] by blast
  then show "\<exists>v1 s1. view_load S cd pol ns s = (Inr v1, s1) \<and> v_docs v1 = run_log bs"
    using ns_store.view_load_ok [OF st assms(2,3) ld] by (auto simp: view_ok_def)
  obtain v2 adv s2 where cu: "catch_up S cd pol ns v s = ((v2, Inr adv), s2)"
    using ns_store_reliable.catch_up_total [OF assms] by blast
  then show "\<exists>v2 adv s2. catch_up S cd pol ns v s = ((v2, Inr adv), s2) \<and> v_docs v2 = run_log bs \<and> view_ok v2 bs"
    using ns_store.catch_up_ok [OF st assms(2-4) cu] by (auto simp: view_ok_def)
qed

theorem view_becomes_current_witness:
  "\<exists>v s'. view_load mem_s3 ref_ns_codec Skip ''t'' (sample_store (indexed_meta 12 0) 0 [1..<13]) = (Inr v, s') \<and>
     v_docs v = run_log (sample_log 12)"
  using view_becomes_current [OF refstore.ns_store_reliable_axioms twelve_rep short_log_lt view_empty_ok] by blast

text \<open>
  C33. A view that is handed a commit beyond the next one skips what lies between for good:
  \<^verbatim>\<open>apply_committed\<close> moves \<^verbatim>\<open>last_applied_wal_seq\<close> to the new number without looking at the
  old one, and \<^verbatim>\<open>catch_up\<close> then has nothing to fetch, so strong reads miss the batches another
  process committed in between.
\<close>

theorem skipped_batches_stay_missing:
  assumes "view_ok v bs" and "Suc (last_applied_wal_seq v) < length bs"
    and "decodes_to cd e (bs ! (length bs - 1))"
    and "fetch_meta S cd ns s = (Inr (Some (m, etag)), s')" and "wal_commit_seq m = length bs"
  shows "\<exists>v1 v2. apply_committed cd v (length bs) e = (v1, Inr ()) \<and>
    catch_up S cd pol ns v1 s = ((v2, Inr False), s') \<and> last_applied_wal_seq v2 = length bs \<and>
    docs_for_query v2 False = apply_batch (run_log (take (last_applied_wal_seq v) bs)) (bs ! (length bs - 1))"
proof -
  have d: "v_docs v = run_log (take (last_applied_wal_seq v) bs)" using assms(1) by (simp add: view_ok_def)
  obtain v1 where v1: "apply_committed cd v (length bs) e = (v1, Inr ())" "last_applied_wal_seq v1 = length bs"
    "v_docs v1 = apply_batch (run_log (take (last_applied_wal_seq v) bs)) (bs ! (length bs - 1))"
    using apply_entry_batch [OF assms(3)]
    by (simp add: apply_committed_def record_doc_wal_seq_def d Let_def)
  moreover have "catch_up S cd pol ns v1 s = ((v1\<lparr>v_meta := m, v_meta_etag := etag\<rparr>, Inr False), s')"
    using assms(4,5) v1 by (simp add: catch_up_def)
  ultimately show ?thesis by (simp add: docs_for_query_def)
qed

definition lost_batch :: batch where
  "lost_batch = \<lparr>b_upserts = [\<lparr>doc_id = ''z'', attributes = fmempty\<rparr>], b_patches = [], b_deletes = []\<rparr>"

lemma fetch_sample_meta:
  "fetch_meta mem_s3 ref_ns_codec ''t'' (sample_store m p is) = (Inr (Some (m, Some ''m'')), sample_store m p is)"
  using sample_view(1) [of m p "is"]
  by (simp add: fetch_meta_def get_meta_with_retry_def get_meta_json_def mem_s3_def mem_get_def
      mem_view_def numeral_eq_Suc whole_decodes [OF decodes_meta])

theorem skipped_batches_stay_missing_witness:
  "fmlookup (run_log [lost_batch, sample_batch]) ''z'' \<noteq> None \<and>
   (\<exists>v1 v2 s'. apply_committed ref_ns_codec view_empty 2 sample_entry = (v1, Inr ()) \<and>
     catch_up mem_s3 ref_ns_codec Fail ''t'' v1 (sample_store (indexed_meta 2 0) 0 []) = ((v2, Inr False), s') \<and>
     fmlookup (docs_for_query v2 False) ''z'' = None)"
proof -
  have lost: "fmlookup (run_log [lost_batch, sample_batch]) ''z'' \<noteq> None"
    "fmlookup (apply_batch (run_log []) sample_batch) ''z'' = None"
    by (simp_all add: run_log_def lookup_apply_batch row_after_def lost_batch_def sample_batch_def)
  have "\<exists>v1 v2. apply_committed ref_ns_codec view_empty 2 sample_entry = (v1, Inr ()) \<and>
     catch_up mem_s3 ref_ns_codec Fail ''t'' v1 (sample_store (indexed_meta 2 0) 0 []) =
       ((v2, Inr False), sample_store (indexed_meta 2 0) 0 []) \<and>
     docs_for_query v2 False = apply_batch (run_log []) sample_batch"
    using skipped_batches_stay_missing [where bs = "[lost_batch, sample_batch]" and e = sample_entry and pol = Fail,
        OF view_empty_ok _ _ fetch_sample_meta [of "indexed_meta 2 0" 0 "[]"]] sample_decodes
    by (simp add: view_empty_def numeral_2_eq_2 indexed_meta_def) blast
  with lost show ?thesis by (metis (no_types, lifting))
qed

text \<open>
  The \<^verbatim>\<open>skip\<close> policy does not make a namespace with a corrupt tail segment loadable:
  although replay steps over the segment, \<^verbatim>\<open>build_doc_last_wal_seq\<close> decodes it again without
  the policy, so \<^verbatim>\<open>NamespaceView::load\<close> returns an error under either policy.
\<close>

theorem skip_policy_does_not_load:
  assumes "ns_store S objs cd" and "fetch_meta S cd ns s = (Inr (Some (m, etag)), s1)"
    and "objs s (wal_key ns q) = Some (body, tag)" and "decode_segment cd body (Some q) = Inl err"
    and "wal_snapshot_seq m < q" and "q \<le> wal_commit_seq m" and "wal_commit_seq m < u64_max"
  shows "\<exists>e s'. view_load S cd Skip ns s = (Inl e, s')"
  using ns_store.view_load_corrupt [OF assms, of Skip]
  by (cases "view_load S cd Skip ns s"; cases "fst (view_load S cd Skip ns s)") auto

definition corrupt_store :: mem_store where
  "corrupt_store =
     \<lparr>mem_objs = fmap_of_list [(meta_key ''t'', en_meta (indexed_meta 1 0), ''m''), (wal_key ''t'' 1, [], ''w'')],
      mem_next = 0\<rparr>"

lemma fetch_corrupt_meta:
  "fetch_meta mem_s3 ref_ns_codec ''t'' corrupt_store = (Inr (Some (indexed_meta 1 0, Some ''m'')), corrupt_store)"
  by (simp add: fetch_meta_def get_meta_with_retry_def get_meta_json_def mem_s3_def mem_get_def
      corrupt_store_def numeral_eq_Suc whole_decodes [OF decodes_meta])

theorem skip_policy_does_not_load_witness:
  "(\<exists>s'. load_docs_at_wal_commit mem_s3 ref_ns_codec Skip ''t'' (indexed_meta 1 0) corrupt_store =
       (Inr (fmempty, 1), s')) \<and>
   (\<exists>e s'. view_load mem_s3 ref_ns_codec Skip ''t'' corrupt_store = (Inl e, s'))"
proof -
  have bad: "mem_view corrupt_store (wal_key ''t'' 1) = Some ([], ''w'')"
    by (simp add: mem_view_def corrupt_store_def)
  have "\<exists>e. decode_segment ref_ns_codec [] (Some 1) = Inl e"
    by (simp add: decode_segment_def)
  then obtain e where e: "decode_segment ref_ns_codec [] (Some 1) = Inl e" ..
  have "\<exists>s'. load_docs_at_wal_commit mem_s3 ref_ns_codec Skip ''t'' (indexed_meta 1 0) corrupt_store =
       (Inr (fmempty, 1), s')"
    using bad e
    by (simp add: load_docs_at_wal_commit_def indexed_meta_def wal_replay_from_def sat_add_def u64_max_def
        replay_wal_range_def read_wal_segment_def get_object_bytes_def get_object_bytes_optional_def mem_s3_def
        mem_get_def mem_view_def decode_segment_with_policy_cases)
  moreover have "\<exists>e s'. view_load mem_s3 ref_ns_codec Skip ''t'' corrupt_store = (Inl e, s')"
    by (rule skip_policy_does_not_load [OF refstore.ns_store_axioms fetch_corrupt_meta bad e])
      (simp_all add: indexed_meta_def u64_max_def)
  ultimately show ?thesis by blast
qed

end
