(* ===== verification/View_Cache.thy ===== *)
theory View_Cache
  imports Models
begin

text \<open>
  The bounded cache of namespace views (\<^verbatim>\<open>src/view_cache.rs\<close>) and its abstract specification, a
  list of entries in order of use.  The cache is generic in the views it holds.
\<close>

section \<open>Operations\<close>

record 'v view_cache =
  vc_max :: nat
  vc_views :: "(string, 'v) fmap"
  vc_order :: "string list"

definition view_cache_new :: "nat \<Rightarrow> 'v view_cache" where
  "view_cache_new mx = \<lparr>vc_max = max mx 1, vc_views = fmempty, vc_order = []\<rparr>"

definition view_cache_len :: "'v view_cache \<Rightarrow> nat" where
  "view_cache_len c = fm_size (vc_views c)"

definition view_cache_contains :: "'v view_cache \<Rightarrow> string \<Rightarrow> bool" where
  "view_cache_contains c name = fm_contains (vc_views c) name"

definition touch :: "string \<Rightarrow> 'v view_cache \<Rightarrow> 'v view_cache" where
  "touch name c =
     (if name \<in> set (vc_order c) then c\<lparr>vc_order := remove1 name (vc_order c) @ [name]\<rparr> else c)"

text \<open>
  \<^verbatim>\<open>get_mut\<close> hands out a mutable reference: the caller's update \<open>f\<close> of the view is applied in
  place.
\<close>

definition view_cache_get_mut ::
  "string \<Rightarrow> ('v \<Rightarrow> 'v) \<Rightarrow> 'v view_cache \<Rightarrow> 'v option \<times> 'v view_cache" where
  "view_cache_get_mut name f c =
     (if fm_contains (vc_views c) name
      then (let c' = touch name c in
            case fmlookup (vc_views c') name of
              None \<Rightarrow> (None, c')
            | Some v \<Rightarrow> (Some (f v), c'\<lparr>vc_views := fmupd name (f v) (vc_views c')\<rparr>))
      else (None, c))"

fun evict_loop :: "nat \<Rightarrow> string list \<Rightarrow> (string, 'v) fmap \<Rightarrow> string list \<times> (string, 'v) fmap" where
  "evict_loop mx [] views = ([], views)"
| "evict_loop mx (oldest # order) views =
     (if mx \<le> fm_size views then evict_loop mx order (fmdrop oldest views) else (oldest # order, views))"

definition evict_if_needed :: "'v view_cache \<Rightarrow> 'v view_cache" where
  "evict_if_needed c =
     (case evict_loop (vc_max c) (vc_order c) (vc_views c) of
        (order, views) \<Rightarrow> c\<lparr>vc_order := order, vc_views := views\<rparr>)"

definition view_cache_insert :: "string \<Rightarrow> 'v \<Rightarrow> 'v view_cache \<Rightarrow> 'v view_cache" where
  "view_cache_insert name v c =
     (if fm_contains (vc_views c) name
      then touch name (c\<lparr>vc_views := fmupd name v (vc_views c)\<rparr>)
      else (let c' = evict_if_needed c
            in c'\<lparr>vc_order := vc_order c' @ [name], vc_views := fmupd name v (vc_views c')\<rparr>))"

definition view_cache_remove :: "string \<Rightarrow> 'v view_cache \<Rightarrow> 'v option \<times> 'v view_cache" where
  "view_cache_remove name c =
     (let order = (if name \<in> set (vc_order c) then remove1 name (vc_order c) else vc_order c)
      in (fmlookup (vc_views c) name, c\<lparr>vc_order := order, vc_views := fmdrop name (vc_views c)\<rparr>))"

section \<open>Specification\<close>

text \<open>
  \<open>vc_ok\<close>: the order lists each cached name once, and there are at most \<open>vc_max\<close> of them.
  \<open>vc_abs\<close>: the entries from least to most recently used.
\<close>

definition vc_ok :: "'v view_cache \<Rightarrow> bool" where
  "vc_ok c \<longleftrightarrow> distinct (vc_order c) \<and> set (vc_order c) = fset (fmdom (vc_views c)) \<and>
     length (vc_order c) \<le> vc_max c \<and> 1 \<le> vc_max c"

definition vc_abs :: "'v view_cache \<Rightarrow> (string \<times> 'v) list" where
  "vc_abs c = map (\<lambda>n. (n, the (fmlookup (vc_views c) n))) (vc_order c)"

definition lru_without :: "string \<Rightarrow> (string \<times> 'v) list \<Rightarrow> (string \<times> 'v) list" where
  "lru_without n es = filter (\<lambda>e. fst e \<noteq> n) es"

definition lru_insert :: "nat \<Rightarrow> string \<Rightarrow> 'v \<Rightarrow> (string \<times> 'v) list \<Rightarrow> (string \<times> 'v) list" where
  "lru_insert mx n v es =
     (let es' = lru_without n es in drop (length es' - (mx - 1)) es' @ [(n, v)])"

lemma fm_size_order: "vc_ok c \<Longrightarrow> fm_size (vc_views c) = length (vc_order c)"
  by (simp add: vc_ok_def fm_size_def fcard.rep_eq distinct_card flip: distinct_card)

lemma evict_loop_drop:
  assumes "distinct order" "set order = fset (fmdom views)" "1 \<le> mx"
  shows "evict_loop mx order views =
    (let k = Suc (length order) - mx in (drop k order, fold fmdrop (take k order) views))"
  using assms
proof (induction order arbitrary: views)
  case (Cons n order)
  have sz: "fm_size views = Suc (length order)"
    using Cons.prems by (metis distinct_card fcard.rep_eq fm_size_def length_Cons)
  have dom: "set order = fset (fmdom (fmdrop n views))"
    using Cons.prems by auto
  show ?case
  proof (cases "mx \<le> Suc (length order)")
    case True
    then obtain k where k: "Suc (Suc (length order)) - mx = Suc k" "Suc (length order) - mx = k"
      by (metis Suc_diff_le)
    show ?thesis
      using Cons.IH [OF _ dom] Cons.prems True by (simp add: sz k)
  next
    case False
    then have "Suc (Suc (length order)) - mx = 0" by simp
    then show ?thesis using False by (simp add: sz)
  qed
qed (simp add: Let_def)

lemma lookup_fold_fmdrop: "fmlookup (fold fmdrop ks m) k = (if k \<in> set ks then None else fmlookup m k)"
  by (induction ks arbitrary: m) auto

lemma dom_fold_fmdrop: "fset (fmdom (fold fmdrop ks m)) = fset (fmdom m) - set ks"
  by (induction ks arbitrary: m) auto

lemma vc_okI:
  "distinct (vc_order c) \<Longrightarrow> set (vc_order c) = fset (fmdom (vc_views c)) \<Longrightarrow>
   length (vc_order c) \<le> vc_max c \<Longrightarrow> 1 \<le> vc_max c \<Longrightarrow> vc_ok c"
  by (simp add: vc_ok_def)

lemma filter_neq_remove1: "distinct xs \<Longrightarrow> filter (\<lambda>x. x \<noteq> n) xs = remove1 n xs"
  by (simp add: distinct_remove1_removeAll removeAll_filter_not_eq) (metis (no_types, lifting) filter_cong)

lemma vc_abs_fst [simp]: "map fst (vc_abs c) = vc_order c"
  by (simp add: vc_abs_def comp_def)

lemma lru_without_abs:
  assumes "vc_ok c"
  shows "lru_without n (vc_abs c) = map (\<lambda>m. (m, the (fmlookup (vc_views c) m))) (remove1 n (vc_order c))"
  using assms filter_neq_remove1 [of "vc_order c" n]
  by (simp add: lru_without_def vc_abs_def filter_map comp_def vc_ok_def)

text \<open>The insertion of a name already present.\<close>

lemma insert_present:
  assumes ok: "vc_ok c" and n: "fm_contains (vc_views c) n"
  shows "vc_ok (view_cache_insert n v c)" (is ?ok)
    and "vc_abs (view_cache_insert n v c) = lru_without n (vc_abs c) @ [(n, v)]" (is ?abs)
proof -
  have mem: "n \<in> set (vc_order c)" using ok n by (auto simp: vc_ok_def fm_contains_def fmlookup_dom_iff)
  show ?ok
    using ok n mem
    by (intro vc_okI)
      (auto simp: view_cache_insert_def touch_def vc_ok_def length_remove1 dest: set_remove1_subset [THEN subsetD])
  show ?abs
    using ok n mem
    by (auto simp: lru_without_abs) (auto simp: view_cache_insert_def touch_def vc_abs_def vc_ok_def)
qed

lemma insert_absent:
  assumes ok: "vc_ok c" and n: "\<not> fm_contains (vc_views c) n"
  shows "vc_ok (view_cache_insert n v c)" (is ?ok)
    and "vc_abs (view_cache_insert n v c) =
      drop (length (vc_order c) - (vc_max c - 1)) (vc_abs c) @ [(n, v)]" (is ?abs)
proof -
  let ?k = "Suc (length (vc_order c)) - vc_max c"
  have notin: "n \<notin> set (vc_order c)" using ok n by (auto simp: vc_ok_def fm_contains_def fmlookup_dom_iff)
  have kk: "length (vc_order c) - (vc_max c - 1) = ?k" using ok by (simp add: vc_ok_def)
  have ev: "evict_if_needed c =
      c\<lparr>vc_order := drop ?k (vc_order c), vc_views := fold fmdrop (take ?k (vc_order c)) (vc_views c)\<rparr>"
    using ok by (simp add: evict_if_needed_def evict_loop_drop vc_ok_def Let_def)
  have sets: "set (drop ?k (vc_order c)) = set (vc_order c) - set (take ?k (vc_order c))"
  proof -
    have "set (vc_order c) = set (take ?k (vc_order c)) \<union> set (drop ?k (vc_order c))"
      by (metis append_take_drop_id set_append)
    moreover have "set (take ?k (vc_order c)) \<inter> set (drop ?k (vc_order c)) = {}"
      using ok by (simp add: vc_ok_def set_take_disj_set_drop_if_distinct)
    ultimately show ?thesis by blast
  qed
  have dom: "fset (fmdom (fold fmdrop (take ?k (vc_order c)) (vc_views c))) = set (drop ?k (vc_order c))"
    unfolding sets dom_fold_fmdrop using ok by (simp add: vc_ok_def)
  show ?ok
  proof (rule vc_okI)
    show "distinct (vc_order (view_cache_insert n v c))"
      using ok n notin by (auto simp: view_cache_insert_def ev vc_ok_def dest: in_set_dropD)
    show "set (vc_order (view_cache_insert n v c)) = fset (fmdom (vc_views (view_cache_insert n v c)))"
      using n dom by (simp add: view_cache_insert_def ev)
    show "length (vc_order (view_cache_insert n v c)) \<le> vc_max (view_cache_insert n v c)"
      using ok n by (simp add: view_cache_insert_def ev vc_ok_def) linarith
    show "1 \<le> vc_max (view_cache_insert n v c)"
      using ok n by (simp add: view_cache_insert_def ev vc_ok_def)
  qed
  have "fmlookup (fold fmdrop (take ?k (vc_order c)) (vc_views c)) m = fmlookup (vc_views c) m"
    if "m \<in> set (drop ?k (vc_order c))" for m
    using that sets by (auto simp: lookup_fold_fmdrop)
  then show ?abs
    unfolding kk using n notin by (auto simp: view_cache_insert_def ev vc_abs_def drop_map dest: in_set_dropD)
qed

lemma lru_without_absent: "vc_ok c \<Longrightarrow> \<not> fm_contains (vc_views c) n \<Longrightarrow> lru_without n (vc_abs c) = vc_abs c"
  by (auto simp: lru_without_def vc_abs_def vc_ok_def fm_contains_def fmlookup_dom_iff intro!: filter_True)

lemma insert_refines:
  assumes ok: "vc_ok c"
  shows "vc_ok (view_cache_insert n v c) \<and> vc_abs (view_cache_insert n v c) = lru_insert (vc_max c) n v (vc_abs c)"
proof (cases "fm_contains (vc_views c) n")
  case True
  then have "n \<in> set (vc_order c)" using ok by (auto simp: vc_ok_def fm_contains_def fmlookup_dom_iff)
  then have "length (lru_without n (vc_abs c)) - (vc_max c - 1) = 0"
    using ok by (simp add: lru_without_abs vc_ok_def length_remove1)
  then show ?thesis using insert_present [OF ok True] by (simp add: lru_insert_def Let_def)
next
  case False
  have "length (vc_abs c) = length (vc_order c)" by (simp add: vc_abs_def)
  then show ?thesis
    using insert_absent [OF ok False] by (simp add: lru_insert_def lru_without_absent [OF ok False] Let_def)
qed

lemma get_mut_refines:
  assumes ok: "vc_ok c" and g: "view_cache_get_mut n f c = (r, c')"
  shows "vc_ok c' \<and>
    (case map_of (vc_abs c) n of
       None \<Rightarrow> r = None \<and> c' = c
     | Some v \<Rightarrow> r = Some (f v) \<and> vc_abs c' = lru_without n (vc_abs c) @ [(n, f v)])"
proof (cases "fm_contains (vc_views c) n")
  case True
  then obtain v where v: "fmlookup (vc_views c) n = Some v" by (auto simp: fm_contains_def)
  have mem: "n \<in> set (vc_order c)" using ok v by (auto simp: vc_ok_def fmlookup_dom_iff)
  have m: "map_of (vc_abs c) n = Some v" using mem v by (simp add: vc_abs_def map_of_map_restrict)
  have r: "r = Some (f v)" "c' = view_cache_insert n (f v) c"
    using g True v mem by (auto simp: view_cache_get_mut_def touch_def view_cache_insert_def)
  then show ?thesis using insert_present [OF ok True] by (simp add: m)
next
  case False
  then have "n \<notin> set (vc_order c)" using ok by (auto simp: vc_ok_def fm_contains_def fmlookup_dom_iff)
  then have "map_of (vc_abs c) n = None" by (auto simp: vc_abs_def map_of_eq_None_iff image_iff)
  then show ?thesis using g False ok by (simp add: view_cache_get_mut_def)
qed

lemma remove_refines:
  assumes ok: "vc_ok c" and g: "view_cache_remove n c = (r, c')"
  shows "vc_ok c' \<and> r = map_of (vc_abs c) n \<and> vc_abs c' = lru_without n (vc_abs c)"
proof -
  have c': "c' = c\<lparr>vc_order := remove1 n (vc_order c), vc_views := fmdrop n (vc_views c)\<rparr>"
    and r: "r = fmlookup (vc_views c) n"
    using g by (auto simp: view_cache_remove_def remove1_idem Let_def)
  have "vc_ok c'"
    using ok by (auto simp: vc_ok_def c' length_remove1 set_remove1_eq)
  moreover have "r = map_of (vc_abs c) n"
    using ok by (auto simp: r vc_abs_def vc_ok_def map_of_map_restrict restrict_map_def fmlookup_dom_iff)
  moreover have "vc_abs c' = lru_without n (vc_abs c)"
    using ok by (auto simp: lru_without_abs) (auto simp: c' vc_abs_def vc_ok_def)
  ultimately show ?thesis by simp
qed

text \<open>
  C24. The cache of views is a bounded least-recently-used list: every operation keeps its
  invariant, inserting moves the entry to the most recent end and drops only the oldest
  entries beyond the capacity, a lookup returns the stored view and makes it most recent, and
  a removal takes out exactly that entry.
\<close>

theorem view_cache_is_lru:
  assumes "vc_ok c"
  shows "vc_ok (view_cache_insert n v c) \<and>
    vc_abs (view_cache_insert n v c) = lru_insert (vc_max c) n v (vc_abs c) \<and>
    vc_ok (snd (view_cache_get_mut n f c)) \<and>
    fst (view_cache_get_mut n f c) = map_option f (map_of (vc_abs c) n) \<and>
    vc_abs (snd (view_cache_get_mut n f c)) =
      (case map_of (vc_abs c) n of None \<Rightarrow> vc_abs c | Some w \<Rightarrow> lru_without n (vc_abs c) @ [(n, f w)]) \<and>
    vc_ok (snd (view_cache_remove n c)) \<and> fst (view_cache_remove n c) = map_of (vc_abs c) n \<and>
    vc_abs (snd (view_cache_remove n c)) = lru_without n (vc_abs c) \<and>
    view_cache_len (view_cache_insert n v c) \<le> vc_max c"
proof -
  have "vc_max (view_cache_insert n v c) = vc_max c"
    by (simp add: view_cache_insert_def touch_def evict_if_needed_def split: prod.splits)
  then have "view_cache_len (view_cache_insert n v c) \<le> vc_max c"
    using insert_refines [OF assms, of n v] fm_size_order [of "view_cache_insert n v c"]
    by (simp add: view_cache_len_def vc_ok_def)
  then show ?thesis
    using insert_refines [OF assms, of n v] get_mut_refines [OF assms surjective_pairing, of n f]
      remove_refines [OF assms surjective_pairing, of n]
    by (auto split: option.splits)
qed

theorem view_cache_is_lru_witness:
  "vc_abs (view_cache_insert ''c'' 3 (view_cache_insert ''b'' 2 (view_cache_insert ''a'' (1::nat)
     (view_cache_new 2)))) = [(''b'', 2), (''c'', 3)]"
proof -
  have new: "vc_ok (view_cache_new 2 :: nat view_cache)" "vc_abs (view_cache_new 2 :: nat view_cache) = []"
    by (simp_all add: view_cache_new_def vc_ok_def vc_abs_def)
  have mx: "vc_max (view_cache_insert n v c) = vc_max c" for n and v :: nat and c
    by (simp add: view_cache_insert_def touch_def evict_if_needed_def split: prod.splits)
  note step = view_cache_is_lru [where f = id]
  have a: "vc_ok (view_cache_insert ''a'' 1 (view_cache_new 2 :: nat view_cache))"
    using step [OF new(1)] by blast
  have b: "vc_ok (view_cache_insert ''b'' 2 (view_cache_insert ''a'' 1 (view_cache_new 2 :: nat view_cache)))"
    using step [OF a] by blast
  show ?thesis
    using step [OF new(1), of "''a''" 1] step [OF a, of "''b''" 2] step [OF b, of "''c''" 3]
    by (simp add: new mx lru_insert_def lru_without_def Let_def) (simp add: view_cache_new_def)
qed

end
