(* ===== verification/Export.thy ===== *)
theory Export
  imports Models
begin

text \<open>
  Export of a namespace in pages (\<^verbatim>\<open>src/export.rs\<close>) and the traversal a client performs with the
  \<^verbatim>\<open>next_last_id\<close> cursor.
\<close>

section \<open>Operations\<close>

definition MAX_EXPORT_LIMIT :: nat where
  "MAX_EXPORT_LIMIT = 10000"

record export_row =
  er_id :: string
  er_attributes :: attrs

record export_page =
  ep_wal_commit_seq :: u64
  ep_rows :: "export_row list"
  next_last_id :: "string option"

definition document_to_export_row :: "document \<Rightarrow> export_row" where
  "document_to_export_row d = \<lparr>er_id = doc_id d, er_attributes = attributes d\<rparr>"

definition clamp :: "'a::linorder \<Rightarrow> 'a \<Rightarrow> 'a \<Rightarrow> 'a" where
  "clamp x lo hi = (if x < lo then lo else if hi < x then hi else x)"

definition export_page_of :: "docs \<Rightarrow> u64 \<Rightarrow> string option \<Rightarrow> nat \<Rightarrow> export_page" where
  "export_page_of docs commit_seq last_id lim =
     (let limit = clamp lim 1 MAX_EXPORT_LIMIT;
          ids = fm_keys docs;
          rows = List.map_filter (\<lambda>i. map_option document_to_export_row (fmlookup docs i))
                   (take limit (filter (\<lambda>i. case last_id of None \<Rightarrow> True | Some l \<Rightarrow> l < i) ids))
      in \<lparr>ep_wal_commit_seq = commit_seq, ep_rows = rows,
          next_last_id =
            (if length rows = limit then (if rows = [] then None else Some (er_id (last rows))) else None)\<rparr>)"

section \<open>Traversal\<close>

text \<open>
  A client that passes each page's \<open>next_last_id\<close> as the next \<open>last_id\<close> until there is none;
  the fuel bounds the number of requests.
\<close>

fun export_all :: "nat \<Rightarrow> docs \<Rightarrow> u64 \<Rightarrow> nat \<Rightarrow> string option \<Rightarrow> export_row list option" where
  "export_all 0 docs c lim last_id = None"
| "export_all (Suc fuel) docs c lim last_id =
     (let p = export_page_of docs c last_id lim in
      case next_last_id p of
        None \<Rightarrow> Some (ep_rows p)
      | Some l \<Rightarrow> map_option (\<lambda>rest. ep_rows p @ rest) (export_all fuel docs c lim (Some l)))"

definition rows_after :: "docs \<Rightarrow> string option \<Rightarrow> export_row list" where
  "rows_after docs last_id =
     map (\<lambda>i. document_to_export_row (the (fmlookup docs i)))
       (filter (\<lambda>i. case last_id of None \<Rightarrow> True | Some l \<Rightarrow> l < i) (fm_keys docs))"

lemma map_filter_keys:
  "set ks \<subseteq> fset (fmdom docs) \<Longrightarrow>
   List.map_filter (\<lambda>i. map_option document_to_export_row (fmlookup docs i)) ks =
     map (\<lambda>i. document_to_export_row (the (fmlookup docs i))) ks"
  by (induction ks) (auto simp: List.map_filter_simps fmlookup_dom_iff)

lemma clamp_bounds: "lo \<le> hi \<Longrightarrow> lo \<le> clamp x lo hi \<and> clamp x lo hi \<le> hi"
  by (auto simp: clamp_def)

lemma export_page_rows:
  "ep_rows (export_page_of docs c last_id lim) = take (clamp lim 1 MAX_EXPORT_LIMIT) (rows_after docs last_id)"
  by (auto simp: export_page_of_def rows_after_def Let_def take_map
      intro!: map_filter_keys dest!: in_set_takeD)

lemma filter_gt_nth:
  assumes "sorted_wrt (<) ks" "n < length ks"
  shows "filter (\<lambda>i. ks ! n < i) ks = drop (Suc n) (ks :: 'a::linorder list)"
  using assms
proof (induction ks arbitrary: n)
  case (Cons a ks)
  show ?case
  proof (cases n)
    case 0
    then show ?thesis using Cons.prems by (auto intro!: filter_True)
  next
    case (Suc m)
    then have "a < ks ! m" using Cons.prems by auto
    moreover have "filter (\<lambda>i. ks ! m < i) ks = drop (Suc m) ks"
      using Cons.IH [of m] Cons.prems Suc by simp
    ultimately show ?thesis using Suc by simp
  qed
qed simp

lemma filter_after_nth:
  assumes "sorted_wrt (<) ks" "n < length (filter (P :: string \<Rightarrow> bool) ks)"
    and "\<And>x y. P x \<Longrightarrow> x < y \<Longrightarrow> P y"
  shows "filter (\<lambda>i. filter P ks ! n < i) ks = drop (Suc n) (filter P ks)"
proof -
  have "P (filter P ks ! n)" using assms(2) nth_mem by fastforce
  then have "filter (\<lambda>i. filter P ks ! n < i) ks = filter (\<lambda>i. filter P ks ! n < i) (filter P ks)"
    unfolding filter_filter by (intro filter_cong) (auto intro: assms(3))
  also have "\<dots> = drop (Suc n) (filter P ks)"
    by (rule filter_gt_nth) (use assms in \<open>auto intro: sorted_wrt_filter\<close>)
  finally show ?thesis .
qed

lemma rows_after_next:
  assumes ok: "docs_ok docs" and n: "n < length (rows_after docs last_id)"
  shows "rows_after docs (Some (er_id (rows_after docs last_id ! n))) = drop (Suc n) (rows_after docs last_id)"
proof -
  define P where "P = (\<lambda>i. case last_id of None \<Rightarrow> True | Some l \<Rightarrow> l < i)"
  have ks: "sorted_wrt (<) (fm_keys docs)" by (simp add: strict_sorted_iff)
  have n': "n < length (filter P (fm_keys docs))" using n by (simp add: rows_after_def P_def)
  have "filter P (fm_keys docs) ! n |\<in>| fmdom docs"
    using nth_mem [OF n'] by simp
  then have id: "er_id (rows_after docs last_id ! n) = filter P (fm_keys docs) ! n"
    using ok n' by (auto simp: rows_after_def P_def document_to_export_row_def docs_ok_iff fmlookup_dom_iff)
  have "filter (\<lambda>i. filter P (fm_keys docs) ! n < i) (fm_keys docs) = drop (Suc n) (filter P (fm_keys docs))"
    by (rule filter_after_nth [OF ks n']) (auto simp: P_def split: option.splits)
  then show ?thesis
    unfolding id by (simp add: rows_after_def drop_map P_def)
qed

lemma export_all_rows:
  assumes "docs_ok docs" "length (rows_after docs last_id) < fuel"
  shows "export_all fuel docs c lim last_id = Some (rows_after docs last_id)"
  using assms(2)
proof (induction fuel arbitrary: last_id)
  case (Suc fuel)
  let ?p = "export_page_of docs c last_id lim" and ?r = "rows_after docs last_id"
  define l where "l = clamp lim 1 MAX_EXPORT_LIMIT"
  have l: "1 \<le> l" by (simp add: l_def clamp_def MAX_EXPORT_LIMIT_def)
  have pr: "ep_rows ?p = take l ?r" unfolding l_def by (rule export_page_rows)
  have nl: "next_last_id ?p =
      (if length (ep_rows ?p) = l then (if ep_rows ?p = [] then None else Some (er_id (last (ep_rows ?p)))) else None)"
    by (simp add: export_page_of_def Let_def l_def)
  show ?case
  proof (cases "l \<le> length ?r")
    case True
    then have ne: "take l ?r \<noteq> []" and len: "length (take l ?r) = l" using l by auto
    then have lst: "last (take l ?r) = ?r ! (l - 1)"
      using l True by (simp add: last_conv_nth)
    have rest: "rows_after docs (Some (er_id (?r ! (l - 1)))) = drop l ?r"
      using rows_after_next [OF assms(1), of "l - 1" last_id] l True by simp
    have "export_all fuel docs c lim (Some (er_id (?r ! (l - 1)))) = Some (drop l ?r)"
      using Suc.IH [of "Some (er_id (?r ! (l - 1)))"] Suc.prems l True unfolding rest by simp
    then show ?thesis
      using ne len by (simp add: nl pr lst del: take_eq_Nil)
  next
    case False
    then show ?thesis by (simp add: nl pr)
  qed
qed simp

text \<open>
  C26. Export by pages is complete and duplicate-free: on a fixed document map, following the
  cursor from the start returns every document exactly once, in ascending id order, for any
  page size, and the traversal ends after at most one request more than there are documents.
\<close>

theorem export_pages_cover_namespace:
  assumes "docs_ok docs" and "fm_size docs < fuel"
  shows "export_all fuel docs c lim None =
      Some (map (\<lambda>(i, d). \<lparr>er_id = i, er_attributes = attributes d\<rparr>) (fm_entries docs)) \<and>
    length (ep_rows (export_page_of docs c last_id lim)) \<le> MAX_EXPORT_LIMIT"
proof -
  have "rows_after docs None = map (\<lambda>(i, d). \<lparr>er_id = i, er_attributes = attributes d\<rparr>) (fm_entries docs)"
    using assms(1)
    by (auto simp: rows_after_def fm_entries_def document_to_export_row_def docs_ok_iff fmlookup_dom_iff)
  moreover have "length (rows_after docs None) < fuel" using assms(2) by (simp add: rows_after_def)
  moreover have "clamp lim 1 MAX_EXPORT_LIMIT \<le> MAX_EXPORT_LIMIT"
    by (simp add: clamp_def MAX_EXPORT_LIMIT_def)
  ultimately show ?thesis
    using export_all_rows [OF assms(1)] by (simp add: export_page_rows)
qed

definition three_docs :: docs where
  "three_docs = fmap_of_list (map (\<lambda>i. (i, \<lparr>doc_id = i, attributes = fmempty\<rparr>)) [''c'', ''a'', ''b''])"

theorem export_pages_cover_namespace_witness:
  "map_option (map er_id) (export_all 4 three_docs 7 2 None) = Some [''a'', ''b'', ''c'']"
proof -
  have ok: "docs_ok three_docs" by (simp add: docs_ok_iff three_docs_def)
  have keys: "fm_keys three_docs = [''a'', ''b'', ''c'']"
    unfolding three_docs_def by code_simp
  then have "fm_size three_docs < 4" by (simp flip: length_fm_keys)
  then show ?thesis
    using export_pages_cover_namespace [OF ok, of 4 7 2] by (simp add: fm_entries_def keys)
qed

end
