(* ===== verification/Limits.thy ===== *)
theory Limits
  imports Wal Meta
begin

text \<open>
  Request limits and key validation (\<^verbatim>\<open>src/limits.rs\<close>), the write request (\<^verbatim>\<open>src/models.rs\<close>), and
  what the validation gives: keys of distinct namespaces never meet.
\<close>

section \<open>Requests\<close>

record upsert_row =
  ur_id :: string
  ur_attributes :: attrs

record patch_row =
  pr_id :: string
  pr_attributes :: attrs

record write_request =
  upsert_rows :: "upsert_row list"
  upsert_columns :: "json option"
  patch_rows :: "patch_row list"
  patch_columns :: "json option"
  wr_deletes :: "string list"
  wr_schema :: "json option"
  delete_by_filter :: "json option"
  delete_by_filter_allow_partial :: bool
  patch_by_filter :: "json option"
  patch_by_filter_allow_partial :: bool
  copy_from_namespace :: "string option"
  branch_from_namespace :: "string option"
  upsert_condition :: "json option"
  patch_condition :: "json option"
  delete_condition :: "json option"
  wr_distance_metric :: "string option"
  return_affected_ids :: bool
  block_until_indexed :: bool

section \<open>Limits\<close>

definition MAX_NAMESPACE_NAME_LEN :: nat where
  "MAX_NAMESPACE_NAME_LEN = 128"

definition DEFAULT_MAX_FILTER_BATCH_ROWS :: nat where
  "DEFAULT_MAX_FILTER_BATCH_ROWS = 5000"

definition DEFAULT_MAX_UPSERT_ROWS :: nat where
  "DEFAULT_MAX_UPSERT_ROWS = 10000"

definition is_ascii_alphanumeric :: "char \<Rightarrow> bool" where
  "is_ascii_alphanumeric c \<longleftrightarrow>
     (CHR ''0'' \<le> c \<and> c \<le> CHR ''9'') \<or> (CHR ''A'' \<le> c \<and> c \<le> CHR ''Z'') \<or> (CHR ''a'' \<le> c \<and> c \<le> CHR ''z'')"

definition namespace_name_char_ok :: "char \<Rightarrow> bool" where
  "namespace_name_char_ok c \<longleftrightarrow> is_ascii_alphanumeric c \<or> c = CHR ''-'' \<or> c = CHR ''_'' \<or> c = CHR ''.''"

definition backslash :: char where
  "backslash = char_of (92 :: nat)"

definition validate_s3_path_segment :: "string \<Rightarrow> string \<Rightarrow> string + unit" where
  "validate_s3_path_segment segment label =
     (if segment = [] then Inr ()
      else if str_contains segment ''..'' then Inl (label @ '' must not contain '' @ [CHR 0x27] @ ''..'' @ [CHR 0x27])
      else if CHR ''/'' \<in> set segment \<or> backslash \<in> set segment
        then Inl (label @ '' must not contain path separators'')
      else if has_control segment then Inl (label @ '' must not contain control characters'')
      else Inr ())"

definition starts_with :: "string \<Rightarrow> string \<Rightarrow> bool" where
  "starts_with s pat \<longleftrightarrow> take (length pat) s = pat"

definition validate_s3_object_key :: "string \<Rightarrow> string + unit" where
  "validate_s3_object_key key =
     (if key = [] then Inl ''S3 object key must not be empty''
      else if \<not> starts_with key ROOT_PREFIX then Inl ''S3 object key must start with the root prefix''
      else if str_contains key ''..'' then Inl ''S3 object key must not contain two dots in a row''
      else if backslash \<in> set key then Inl ''S3 object key must not contain backslashes''
      else if str_contains key ''//'' then Inl ''S3 object key must not contain empty path segments''
      else Inr ())"

definition validate_namespace_name :: "string \<Rightarrow> string + unit" where
  "validate_namespace_name name =
     (if name = [] then Inl ''namespace name must not be empty''
      else if MAX_NAMESPACE_NAME_LEN < length name
        then Inl ''namespace name exceeds maximum length of 128 bytes''
      else if \<not> list_all namespace_name_char_ok name
        then Inl ''namespace name must match [A-Za-z0-9-_.]{1,128} (letters, digits, hyphen, underscore, dot)''
      else Inr ())"

definition column_ids :: "json option \<Rightarrow> nat" where
  "column_ids cols =
     (case Option.bind cols (\<lambda>c. Option.bind (Option.bind (as_object c) (jget ''id'')) as_array) of
        Some ids \<Rightarrow> length ids | None \<Rightarrow> 0)"

definition count_explicit_write_rows :: "write_request \<Rightarrow> nat" where
  "count_explicit_write_rows body =
     length (upsert_rows body) + length (patch_rows body) + length (wr_deletes body) +
     column_ids (upsert_columns body) + column_ids (patch_columns body)"

definition cap_filter_batch :: "string list \<Rightarrow> bool \<Rightarrow> nat \<Rightarrow> string + (string list \<times> bool)" where
  "cap_filter_batch ids allow_partial max_rows =
     (if length ids \<le> max_rows then Inr (ids, False)
      else if allow_partial then Inr (take max_rows ids, True)
      else Inl (''filter matched '' @ dec (length ids) @ '' documents; maximum per request is '' @ dec max_rows))"

section \<open>Properties\<close>

lemma str_contains_Nil [simp]: "pat \<noteq> [] \<Longrightarrow> \<not> str_contains [] pat"
  by (simp add: str_contains_def)

lemma str_contains2_Cons:
  "str_contains (c # cs) [a, b] \<longleftrightarrow> (c = a \<and> cs \<noteq> [] \<and> hd cs = b) \<or> str_contains cs [a, b]"
  by (cases cs) (auto simp: str_contains_def)

lemma str_contains2_append:
  "str_contains (xs @ ys) [a, b] \<longleftrightarrow>
     str_contains xs [a, b] \<or> str_contains ys [a, b] \<or> (xs \<noteq> [] \<and> ys \<noteq> [] \<and> last xs = a \<and> hd ys = b)"
  by (induction xs) (auto simp: str_contains2_Cons hd_append)

lemma str_contains2_notin: "a \<notin> set xs \<Longrightarrow> \<not> str_contains xs [a, b]"
  by (induction xs) (auto simp: str_contains2_Cons)

lemma ns_name_chars:
  assumes "validate_namespace_name ns = Inr ()"
  shows "ns \<noteq> [] \<and> CHR ''/'' \<notin> set ns \<and> backslash \<notin> set ns"
proof -
  have "\<not> namespace_name_char_ok (CHR ''/'')" "\<not> namespace_name_char_ok backslash"
    by code_simp+
  then show ?thesis
    using assms by (auto simp: validate_namespace_name_def list_all_iff split: if_splits)
qed

lemma starts_with_namespace_prefix:
  assumes "validate_namespace_name ns = Inr ()" "validate_namespace_name ns' = Inr ()"
  shows "starts_with (ROOT_PREFIX @ ns @ ''/'' @ rest) (namespace_prefix ns') \<longleftrightarrow> ns = ns'"
proof
  assume "starts_with (ROOT_PREFIX @ ns @ ''/'' @ rest) (namespace_prefix ns')"
  then have "take (Suc (length ns')) (ns @ CHR ''/'' # rest) = ns' @ [CHR ''/'']"
    by (simp add: starts_with_def namespace_prefix_def)
  then have "ns @ CHR ''/'' # rest = (ns' @ [CHR ''/'']) @ drop (Suc (length ns')) (ns @ CHR ''/'' # rest)"
    by (metis append_take_drop_id)
  then have "takeWhile (\<lambda>c. c \<noteq> CHR ''/'') (ns @ CHR ''/'' # rest) =
      takeWhile (\<lambda>c. c \<noteq> CHR ''/'') (ns' @ CHR ''/'' # drop (Suc (length ns')) (ns @ CHR ''/'' # rest))"
    by (metis append_Cons append_Nil append_assoc)
  moreover have "takeWhile (\<lambda>c. c \<noteq> CHR ''/'') (n @ CHR ''/'' # r) = n" if "CHR ''/'' \<notin> set n" for n r
    using that by (induction n) auto
  ultimately show "ns = ns'"
    using ns_name_chars [OF assms(1)] ns_name_chars [OF assms(2)] by simp
qed (simp add: starts_with_def namespace_prefix_def)

lemma digits_plain: "c \<in> set (dec_pad 8 q) \<Longrightarrow> c \<noteq> CHR ''/'' \<and> c \<noteq> CHR ''.'' \<and> c \<noteq> backslash"
proof -
  assume "c \<in> set (dec_pad 8 q)"
  then have "CHR ''0'' \<le> c" "c \<le> CHR ''9''" using set_dec_pad by auto
  moreover have "\<not> CHR ''0'' \<le> CHR ''/''" "\<not> CHR ''0'' \<le> CHR ''.''" "\<not> backslash \<le> CHR ''9''"
    by code_simp+
  ultimately show ?thesis by auto
qed

lemma key_valid:
  assumes "validate_namespace_name ns = Inr ()" "\<not> str_contains ns ''..''"
    and "\<not> str_contains rest ''..''" "\<not> str_contains rest ''//''" "rest \<noteq> []" "hd rest \<noteq> CHR ''/''"
    and "backslash \<notin> set rest"
  shows "validate_s3_object_key (ROOT_PREFIX @ ns @ ''/'' @ rest) = Inr ()"
proof -
  have ns: "ns \<noteq> []" "CHR ''/'' \<notin> set ns" "backslash \<notin> set ns" using ns_name_chars [OF assms(1)] by auto
  then have hd: "hd ns \<noteq> CHR ''/''" "last ns \<noteq> CHR ''/''" by (metis list.set_sel(1), metis last_in_set)
  have root: "\<not> str_contains ROOT_PREFIX ''..''" "\<not> str_contains ROOT_PREFIX ''//''" "backslash \<notin> set ROOT_PREFIX"
    "last ROOT_PREFIX = CHR ''/''" "ROOT_PREFIX \<noteq> []" "CHR ''/'' \<noteq> backslash"
    by code_simp+
  show ?thesis
    using assms(2-7) ns hd root str_contains2_notin [OF ns(2), of "CHR ''/''"]
    by (simp add: validate_s3_object_key_def starts_with_def str_contains2_append str_contains2_Cons hd_append)
qed

lemma suffixes_plain:
  "\<not> str_contains ''meta.json'' ''..''" "\<not> str_contains ''meta.json'' ''//''" "backslash \<notin> set ''meta.json''"
  "\<not> str_contains ''wal/snapshot.bin'' ''..''" "\<not> str_contains ''wal/snapshot.bin'' ''//''"
  "backslash \<notin> set ''wal/snapshot.bin''"
  by code_simp+

lemma wal_suffix_plain:
  "\<not> str_contains (''wal/'' @ dec_pad 8 q @ ''.bin'') ''..'' \<and>
   \<not> str_contains (''wal/'' @ dec_pad 8 q @ ''.bin'') ''//'' \<and> backslash \<notin> set (''wal/'' @ dec_pad 8 q @ ''.bin'')"
proof -
  have ne: "dec_pad 8 q \<noteq> []" using length_dec_pad [of 8 q] by auto
  have hl: "hd (dec_pad 8 q) \<noteq> CHR ''/''" "last (dec_pad 8 q) \<noteq> CHR ''.''" "last (dec_pad 8 q) \<noteq> CHR ''/''"
    using digits_plain [OF hd_in_set [OF ne]] digits_plain [OF last_in_set [OF ne]] by auto
  have "backslash \<notin> set ''wal/''" "backslash \<notin> set ''.bin''" by code_simp+
  moreover have "\<not> str_contains (dec_pad 8 q) [CHR ''.'', b]" "\<not> str_contains (dec_pad 8 q) [CHR ''/'', b]"
    "backslash \<notin> set (dec_pad 8 q)" for b
    using digits_plain by (auto intro!: str_contains2_notin)
  ultimately show ?thesis
    using ne hl by (simp add: str_contains2_append str_contains2_Cons hd_append)
qed



text \<open>
  The name check admits a name the key check refuses: a namespace called \<open>..\<close> is accepted,
  yet none of its keys validates, so a cold query on it fails although writes go through.
\<close>

theorem dotted_name_has_no_valid_key:
  "validate_namespace_name ''..'' = Inr () \<and> isl (validate_s3_object_key (ROOT_PREFIX @ ''..'' @ ''/'' @ rest))"
proof -
  have "validate_namespace_name ''..'' = Inr ()" by code_simp
  moreover have "isl (validate_s3_object_key (ROOT_PREFIX @ ''..'' @ ''/'' @ rest))"
    by (simp add: validate_s3_object_key_def str_contains2_append str_contains2_Cons)
  ultimately show ?thesis by simp
qed

end
