(* ===== verification/Filter_Dsl.thy ===== *)
theory Filter_Dsl
  imports Models
begin

text \<open>
  The filter language (\<^verbatim>\<open>src/filter.rs\<close>): parsing from JSON and evaluation against a document,
  with the \<^verbatim>\<open>$ref_new\<close> values of conditional writes.
\<close>

section \<open>Expressions\<close>

datatype cmp_op = OpEq | OpNe | OpGt | OpGte | OpLt | OpLte

datatype filter_value = FString string | FNumber f64 | FBool bool | FNull | RefNew string

datatype filter_expr =
    FAnd "filter_expr list"
  | FOr "filter_expr list"
  | FCmp string cmp_op filter_value

text \<open>The derived \<^verbatim>\<open>PartialEq\<close>: numbers compare as \<^verbatim>\<open>f64\<close>.\<close>

fun fv_eq :: "filter_value \<Rightarrow> filter_value \<Rightarrow> bool" where
  "fv_eq (FNumber a) (FNumber b) = f64_eq a b"
| "fv_eq a b = (a = b)"

definition filter_value_from_json :: "json \<Rightarrow> filter_value res" where
  "filter_value_from_json v =
     (case v of
        JString s \<Rightarrow> Inr (FString s)
      | JBool b \<Rightarrow> Inr (FBool b)
      | JNumber n \<Rightarrow> Inr (FNumber (num_as_f64 n))
      | JNull \<Rightarrow> Inr FNull
      | JObject m \<Rightarrow>
          (case (if length m = 1 then Option.bind (jget ''$ref_new'' m) as_str else None) of
             Some field \<Rightarrow> Inr (RefNew field)
           | None \<Rightarrow> Inl (ErrMsg ''filter value object must be a $ref_new''))
      | JArray _ \<Rightarrow> Inl (ErrMsg ''filter value must be string, number, bool, null, or $ref_new''))"

definition from_json_array :: "json list \<Rightarrow> filter_value list res" where
  "from_json_array arr = traverse filter_value_from_json arr"

definition parse_cmp_op :: "string \<Rightarrow> cmp_op res" where
  "parse_cmp_op s =
     (if s = ''Eq'' then Inr OpEq
      else if s = ''Ne'' then Inr OpNe
      else if s = ''Gt'' then Inr OpGt
      else if s = ''Gte'' then Inr OpGte
      else if s = ''Lt'' then Inr OpLt
      else if s = ''Lte'' then Inr OpLte
      else if s = ''In'' then Inl (ErrMsg ''In should be handled separately'')
      else Inl (ErrMsg (''unsupported filter operator: '' @ s)))"

text \<open>The comparison branch: \<open>args\<close> are the array elements after the field name.\<close>

definition parse_comparison :: "string \<Rightarrow> json list \<Rightarrow> filter_expr res" where
  "parse_comparison field args =
     (case args of
        op # value # _ \<Rightarrow>
          (case as_str op of
             None \<Rightarrow> Inl (ErrMsg ''filter operator must be a string'')
           | Some op_str \<Rightarrow>
               if op_str = ''In''
               then (case as_array value of
                       None \<Rightarrow> Inl (ErrMsg ''In filter value must be an array'')
                     | Some arr \<Rightarrow>
                         (case from_json_array arr of
                            Inl e \<Rightarrow> Inl e
                          | Inr values \<Rightarrow>
                              if values = [] then Inl (ErrMsg ''In filter value array cannot be empty'')
                              else Inr (FOr (map (FCmp field OpEq) values))))
               else (case parse_cmp_op op_str of
                       Inl e \<Rightarrow> Inl e
                     | Inr op' \<Rightarrow> map_ok (FCmp field op') (filter_value_from_json value)))
      | _ \<Rightarrow> Inl (ErrMsg ''comparison filter needs [field, Op, value]''))"

fun parse_filter :: "json \<Rightarrow> filter_expr res"
  and parse_filters :: "json list \<Rightarrow> filter_expr list res" where
  "parse_filter v =
     (case v of
        JArray [] \<Rightarrow> Inl (ErrMsg ''filter array is empty'')
      | JArray (h # rest) \<Rightarrow>
          (case as_str h of
             None \<Rightarrow> Inl (ErrMsg ''filter[0] must be a string operator or field name'')
           | Some head \<Rightarrow>
               if head = ''And'' \<or> head = ''and''
               then (case rest of
                       JArray subs # _ \<Rightarrow> map_ok FAnd (parse_filters subs)
                     | _ \<Rightarrow> Inl (ErrMsg ''And filter requires a sub-array at index 1''))
               else if head = ''Or'' \<or> head = ''or''
               then (case rest of
                       JArray subs # _ \<Rightarrow> map_ok FOr (parse_filters subs)
                     | _ \<Rightarrow> Inl (ErrMsg ''Or filter requires a sub-array at index 1''))
               else parse_comparison head rest)
      | _ \<Rightarrow> Inl (ErrMsg ''filter must be a JSON array''))"
| "parse_filters [] = Inr []"
| "parse_filters (v # vs) =
     (case parse_filter v of
        Inl e \<Rightarrow> Inl e
      | Inr x \<Rightarrow> map_ok (\<lambda>xs. x # xs) (parse_filters vs))"

declare parse_filter.simps [simp del]

section \<open>Evaluation\<close>

definition attr_to_filter_value :: "json \<Rightarrow> filter_value option" where
  "attr_to_filter_value v =
     (case v of
        JString s \<Rightarrow> Some (FString s)
      | JBool b \<Rightarrow> Some (FBool b)
      | JNumber n \<Rightarrow> Some (FNumber (num_as_f64 n))
      | _ \<Rightarrow> None)"

definition doc_field_value :: "document \<Rightarrow> string \<Rightarrow> filter_value option" where
  "doc_field_value d field =
     (if field = ''id'' then Some (FString (doc_id d))
      else Option.bind (fmlookup (attributes d) field) attr_to_filter_value)"

definition resolve_rhs :: "filter_value \<Rightarrow> document option \<Rightarrow> bool \<Rightarrow> filter_value option" where
  "resolve_rhs rhs new_doc ref_new_null =
     (case rhs of
        RefNew field \<Rightarrow>
          if ref_new_null then Some FNull
          else Option.bind new_doc (\<lambda>new. doc_field_value new field)
      | _ \<Rightarrow> Some rhs)"

fun compare_values :: "filter_value \<Rightarrow> filter_value \<Rightarrow> ordering option" where
  "compare_values (FNumber a) (FNumber b) = f64_partial_cmp a b"
| "compare_values (FString a) (FString b) = Some (cmp_of a b)"
| "compare_values (FBool a) (FBool b) = Some (cmp_of a b)"
| "compare_values (FNumber a) (FBool b) = f64_partial_cmp a (f64_of_bool b)"
| "compare_values (FBool a) (FNumber b) = f64_partial_cmp (f64_of_bool a) b"
| "compare_values _ _ = None"

definition cmp_both ::
  "filter_value option \<Rightarrow> filter_value option \<Rightarrow> (ordering option \<Rightarrow> bool) \<Rightarrow> bool" where
  "cmp_both lhs rhs P = (case (lhs, rhs) of (Some l, Some r) \<Rightarrow> P (compare_values l r) | _ \<Rightarrow> False)"

definition eval_cmp ::
  "document \<Rightarrow> string \<Rightarrow> cmp_op \<Rightarrow> filter_value \<Rightarrow> document option \<Rightarrow> bool \<Rightarrow> bool" where
  "eval_cmp d field op rhs0 new_doc ref_new_null =
     (let lhs = doc_field_value d field; rhs = resolve_rhs rhs0 new_doc ref_new_null in
      case op of
        OpEq \<Rightarrow>
          (case (lhs, rhs) of
             (None, Some FNull) \<Rightarrow> True
           | (None, _) \<Rightarrow> False
           | (Some _, Some FNull) \<Rightarrow> False
           | (Some l, Some r) \<Rightarrow> fv_eq l r
           | (_, None) \<Rightarrow> False)
      | OpNe \<Rightarrow>
          (case (lhs, rhs) of
             (None, Some FNull) \<Rightarrow> False
           | (None, _) \<Rightarrow> True
           | (Some _, Some FNull) \<Rightarrow> True
           | (Some l, Some r) \<Rightarrow> \<not> fv_eq l r
           | (_, None) \<Rightarrow> False)
      | OpGt \<Rightarrow> cmp_both lhs rhs (\<lambda>c. c = Some Greater)
      | OpGte \<Rightarrow> cmp_both lhs rhs (\<lambda>c. c = Some Greater \<or> c = Some Equal)
      | OpLt \<Rightarrow> cmp_both lhs rhs (\<lambda>c. c = Some Less)
      | OpLte \<Rightarrow> cmp_both lhs rhs (\<lambda>c. c = Some Less \<or> c = Some Equal))"

fun eval_filter_with_new :: "filter_expr \<Rightarrow> document \<Rightarrow> document option \<Rightarrow> bool \<Rightarrow> bool" where
  "eval_filter_with_new (FAnd subs) d new_doc ref_new_null =
     list_all (\<lambda>s. eval_filter_with_new s d new_doc ref_new_null) subs"
| "eval_filter_with_new (FOr subs) d new_doc ref_new_null =
     list_ex (\<lambda>s. eval_filter_with_new s d new_doc ref_new_null) subs"
| "eval_filter_with_new (FCmp field op value) d new_doc ref_new_null =
     eval_cmp d field op value new_doc ref_new_null"

definition eval_filter :: "filter_expr \<Rightarrow> document \<Rightarrow> bool" where
  "eval_filter expr d = eval_filter_with_new expr d None False"

definition should_apply_upsert :: "filter_expr \<Rightarrow> document option \<Rightarrow> document \<Rightarrow> bool" where
  "should_apply_upsert expr current new =
     (case current of None \<Rightarrow> True | Some d \<Rightarrow> eval_filter_with_new expr d (Some new) False)"

definition should_apply_patch :: "filter_expr \<Rightarrow> document option \<Rightarrow> document \<Rightarrow> bool" where
  "should_apply_patch expr current patch =
     (case current of None \<Rightarrow> False | Some d \<Rightarrow> eval_filter_with_new expr d (Some patch) False)"

definition should_apply_delete :: "filter_expr \<Rightarrow> document option \<Rightarrow> bool" where
  "should_apply_delete expr current =
     (case current of None \<Rightarrow> False | Some d \<Rightarrow> eval_filter_with_new expr d None True)"

section \<open>Properties\<close>

lemma eval_filter_simps [simp]:
  "eval_filter (FAnd subs) d = list_all (\<lambda>s. eval_filter s d) subs"
  "eval_filter (FOr subs) d = list_ex (\<lambda>s. eval_filter s d) subs"
  "eval_filter (FCmp field op value) d = eval_cmp d field op value None False"
  by (simp_all add: eval_filter_def)

definition is_literal :: "filter_value \<Rightarrow> bool" where
  "is_literal v \<longleftrightarrow> (case v of RefNew _ \<Rightarrow> False | _ \<Rightarrow> True)"

text \<open>Whether two values are of types that are compared within one type.\<close>

fun same_kind :: "filter_value \<Rightarrow> filter_value \<Rightarrow> bool" where
  "same_kind (FString _) (FString _) = True"
| "same_kind (FNumber _) (FNumber _) = True"
| "same_kind (FBool _) (FBool _) = True"
| "same_kind _ _ = False"

lemma resolve_literal: "is_literal v \<Longrightarrow> resolve_rhs v nd rn = Some v"
  by (cases v) (simp_all add: is_literal_def resolve_rhs_def)

lemma doc_field_value_literal: "doc_field_value d f = Some l \<Longrightarrow> is_literal l \<and> l \<noteq> FNull"
proof -
  have "is_literal l \<and> l \<noteq> FNull" if "attr_to_filter_value y = Some l" for y
    using that by (cases y) (auto simp: attr_to_filter_value_def is_literal_def)
  then show "doc_field_value d f = Some l \<Longrightarrow> is_literal l \<and> l \<noteq> FNull"
    by (auto simp: doc_field_value_def is_literal_def bind_eq_Some_conv split: if_splits)
qed

lemma fv_eq_compare: "same_kind l r \<Longrightarrow> compare_values l r = Some Equal \<longleftrightarrow> fv_eq l r"
  by (cases l; cases r) (simp_all add: f64_eq_def)

lemma f64_partial_cmp_flip: "f64_partial_cmp a b = Some Less \<longleftrightarrow> f64_partial_cmp b a = Some Greater"
  by (auto simp: f64_partial_cmp_def split: option.splits)

text \<open>
  The comparison operators agree with each other: for a value that is not a \<^verbatim>\<open>$ref_new\<close>,
  \<open>Ne\<close> is the negation of \<open>Eq\<close> on every document (missing attributes and NaN included), \<open>Gt\<close>
  and \<open>Lt\<close> exclude each other and imply \<open>Gte\<close> and \<open>Lte\<close>, \<open>Gte\<close> and \<open>Lte\<close> never hold on a missing
  attribute, and within one type \<open>Gte\<close> is \<open>Gt\<close> or \<open>Eq\<close>.
\<close>

theorem filter_operators_agree:
  assumes "is_literal v"
  shows "(eval_filter (FCmp f OpNe v) d \<longleftrightarrow> \<not> eval_filter (FCmp f OpEq v) d) \<and>
    \<not> (eval_filter (FCmp f OpGt v) d \<and> eval_filter (FCmp f OpLt v) d) \<and>
    (eval_filter (FCmp f OpGt v) d \<longrightarrow> eval_filter (FCmp f OpGte v) d) \<and>
    (eval_filter (FCmp f OpLt v) d \<longrightarrow> eval_filter (FCmp f OpLte v) d) \<and>
    (doc_field_value d f = None \<longrightarrow> \<not> eval_filter (FCmp f OpGte v) d \<and> \<not> eval_filter (FCmp f OpLte v) d) \<and>
    (\<forall>l. doc_field_value d f = Some l \<and> same_kind l v \<longrightarrow>
       (eval_filter (FCmp f OpGte v) d \<longleftrightarrow> eval_filter (FCmp f OpGt v) d \<or> eval_filter (FCmp f OpEq v) d))"
proof -
  have ne: "eval_filter (FCmp f OpNe v) d \<longleftrightarrow> \<not> eval_filter (FCmp f OpEq v) d"
    using resolve_literal [OF assms, of None False]
    by (auto simp: eval_cmp_def Let_def split: option.splits filter_value.splits)
  have gte: "eval_filter (FCmp f OpGte v) d \<longleftrightarrow> eval_filter (FCmp f OpGt v) d \<or> eval_filter (FCmp f OpEq v) d"
    if "doc_field_value d f = Some l" "same_kind l v" for l
    using that fv_eq_compare [OF that(2)] resolve_literal [OF assms, of None False]
    by (cases v) (auto simp: eval_cmp_def cmp_both_def)
  show ?thesis
    using ne gte by (auto simp: eval_cmp_def cmp_both_def Let_def split: option.splits)
qed

theorem filter_operators_agree_witness:
  "let d = \<lparr>doc_id = ''x'', attributes = fmupd ''n'' (JNumber (PosInt 3)) fmempty\<rparr> in
     eval_filter (FCmp ''n'' OpNe (FNumber (Fin 4))) d \<and> \<not> eval_filter (FCmp ''n'' OpEq (FNumber (Fin 4))) d"
  using filter_operators_agree [of "FNumber (Fin 4)" "''n''"
      "\<lparr>doc_id = ''x'', attributes = fmupd ''n'' (JNumber (PosInt 3)) fmempty\<rparr>"]
  by (simp add: Let_def is_literal_def eval_cmp_def doc_field_value_def attr_to_filter_value_def resolve_rhs_def
      f64_of_nat_def round53_def)

text \<open>An expression tree as the JSON a client writes.\<close>

fun json_of_value :: "filter_value \<Rightarrow> json" where
  "json_of_value (FString s) = JString s"
| "json_of_value (FNumber x) = JNumber (Float x)"
| "json_of_value (FBool b) = JBool b"
| "json_of_value FNull = JNull"
| "json_of_value (RefNew f) = JObject [(''$ref_new'', JString f)]"

fun op_name :: "cmp_op \<Rightarrow> string" where
  "op_name OpEq = ''Eq''"
| "op_name OpNe = ''Ne''"
| "op_name OpGt = ''Gt''"
| "op_name OpGte = ''Gte''"
| "op_name OpLt = ''Lt''"
| "op_name OpLte = ''Lte''"

fun json_of_filter :: "filter_expr \<Rightarrow> json" where
  "json_of_filter (FAnd subs) = JArray [JString ''And'', JArray (map json_of_filter subs)]"
| "json_of_filter (FOr subs) = JArray [JString ''Or'', JArray (map json_of_filter subs)]"
| "json_of_filter (FCmp f op v) = JArray [JString f, JString (op_name op), json_of_value v]"

fun fields_of :: "filter_expr \<Rightarrow> string set" where
  "fields_of (FAnd subs) = (\<Union>s \<in> set subs. fields_of s)"
| "fields_of (FOr subs) = (\<Union>s \<in> set subs. fields_of s)"
| "fields_of (FCmp f op v) = {f}"

lemma from_json_of_value: "filter_value_from_json (json_of_value v) = Inr v"
  by (cases v) (simp_all add: filter_value_from_json_def jget_def)

lemma parse_op_name: "parse_cmp_op (op_name op) = Inr op" "op_name op \<noteq> ''In''"
  by (cases op; simp add: parse_cmp_op_def)+

lemma parse_filters_map:
  "(\<And>e. e \<in> set es \<Longrightarrow> parse_filter (g e) = Inr e) \<Longrightarrow> parse_filters (map g es) = Inr es"
  by (induction es) simp_all

lemma parse_json_of_filter:
  "fields_of e \<inter> {''And'', ''and'', ''Or'', ''or''} = {} \<Longrightarrow> parse_filter (json_of_filter e) = Inr e"
proof (induction e)
  case (FAnd subs)
  have "parse_filters (map json_of_filter subs) = Inr subs"
    by (rule parse_filters_map) (use FAnd in auto)
  then show ?case by (simp add: parse_filter.simps(1))
next
  case (FOr subs)
  have "parse_filters (map json_of_filter subs) = Inr subs"
    by (rule parse_filters_map) (use FOr in auto)
  then show ?case by (simp add: parse_filter.simps(1))
next
  case (FCmp f op v)
  then show ?case
    by (auto simp: parse_filter.simps(1) parse_comparison_def parse_op_name from_json_of_value)
qed

text \<open>
  C29. Every filter tree can be written and is read back unchanged: parsing the JSON form of an
  expression whose field names are not the words \<open>And\<close>, \<open>and\<close>, \<open>Or\<close>, \<open>or\<close> returns the expression,
  and an \<open>In\<close> comparison reads as the disjunction of the equalities.
\<close>

theorem filter_parse_roundtrip:
  assumes "fields_of e \<inter> {''And'', ''and'', ''Or'', ''or''} = {}" and "f \<notin> {''And'', ''and'', ''Or'', ''or''}"
    and "vs \<noteq> []"
  shows "parse_filter (json_of_filter e) = Inr e \<and>
    parse_filter (JArray [JString f, JString ''In'', JArray (map json_of_value vs)]) =
      Inr (FOr (map (FCmp f OpEq) vs))"
proof -
  have "traverse filter_value_from_json (map json_of_value vs) = Inr vs"
    by (induction vs) (simp_all add: from_json_of_value)
  then show ?thesis
    using parse_json_of_filter [OF assms(1)] assms(2,3)
    by (simp add: parse_filter.simps(1) parse_comparison_def from_json_array_def)
qed

theorem filter_parse_roundtrip_witness:
  "parse_filter (json_of_filter (FAnd [FCmp ''n'' OpGt (FNumber (Fin 1)), FOr [FCmp ''s'' OpEq FNull]])) =
     Inr (FAnd [FCmp ''n'' OpGt (FNumber (Fin 1)), FOr [FCmp ''s'' OpEq FNull]])"
  using filter_parse_roundtrip [of "FAnd [FCmp ''n'' OpGt (FNumber (Fin 1)), FOr [FCmp ''s'' OpEq FNull]]"
      "''f''" "[FNull]"]
  by simp

end
