(* ===== verification/Filter_Index.thy ===== *)
theory Filter_Index
  imports Filter_Dsl Schema
begin

text \<open>
  The attribute filter index (\<^verbatim>\<open>src/index/filter.rs\<close>): postings from a field and a printed value
  to document ids, built from documents or updated by a delta, and queried in place of
  evaluating the filter on every document.
\<close>

section \<open>Operations\<close>

text \<open>
  Printing and reading of \<^verbatim>\<open>f64\<close> numbers (\<^verbatim>\<open>Display\<close> and \<^verbatim>\<open>FromStr\<close>) enter as parameters; the only
  documented fact used of them is that a printed number reads back as itself.
\<close>

record f64_text =
  f64_display :: "f64 \<Rightarrow> string"
  f64_from_str :: "string \<Rightarrow> f64 option"

text \<open>\<open>value_key\<close> is undefined on a \<^verbatim>\<open>$ref_new\<close> value: the code panics there, here None.\<close>

fun value_key :: "'z f64_text_scheme \<Rightarrow> filter_value \<Rightarrow> string option" where
  "value_key T (FString s) = Some (''s:'' @ s)"
| "value_key T (FBool b) = Some (''b:'' @ (if b then ''true'' else ''false''))"
| "value_key T (FNumber n) = Some (''n:'' @ f64_display T n)"
| "value_key T FNull = Some ''null''"
| "value_key T (RefNew _) = None"

record filter_segment =
  fs_segment_id :: u64
  fs_all_doc_ids :: "string fset"
  fs_postings :: "(string, (string, string fset) fmap) fmap"

definition filter_segment_key :: "string \<Rightarrow> u64 \<Rightarrow> string" where
  "filter_segment_key ns i = ROOT_PREFIX @ ns @ ''/index/filter-'' @ dec_pad 8 i @ ''.bin''"

definition filter_fields_from_schema :: "json \<Rightarrow> string list" where
  "filter_fields_from_schema sch =
     (case as_object sch of
        None \<Rightarrow> []
      | Some obj \<Rightarrow> map fst (filter (\<lambda>(name, spec). field_filterable spec) obj))"

definition add_posting :: "string \<Rightarrow> string \<Rightarrow> string \<Rightarrow> filter_segment \<Rightarrow> filter_segment" where
  "add_posting i field vk seg =
     (let fm = (case fmlookup (fs_postings seg) field of Some m \<Rightarrow> m | None \<Rightarrow> fmempty);
          ids = (case fmlookup fm vk of Some s \<Rightarrow> s | None \<Rightarrow> {||})
      in seg\<lparr>fs_postings := fmupd field (fmupd vk (finsert i ids) fm) (fs_postings seg)\<rparr>)"

definition add_field ::
  "'z f64_text_scheme \<Rightarrow> string \<Rightarrow> document \<Rightarrow> string \<Rightarrow> filter_segment \<Rightarrow> filter_segment" where
  "add_field T i d field seg =
     (case Option.bind (fmlookup (attributes d) field) attr_to_filter_value of
        None \<Rightarrow> seg
      | Some fv \<Rightarrow> (case value_key T fv of None \<Rightarrow> seg | Some vk \<Rightarrow> add_posting i field vk seg))"

definition filter_add_document ::
  "'z f64_text_scheme \<Rightarrow> string list \<Rightarrow> string \<Rightarrow> document \<Rightarrow> filter_segment \<Rightarrow> filter_segment" where
  "filter_add_document T flds i d seg =
     fold (add_field T i d) (if flds = [] then fm_keys (attributes d) else flds)
       (seg\<lparr>fs_all_doc_ids := finsert i (fs_all_doc_ids seg)\<rparr>)"

text \<open>\<^verbatim>\<open>HashMap::retain\<close> on the values.\<close>

definition fm_retain :: "('v \<Rightarrow> bool) \<Rightarrow> ('k, 'v) fmap \<Rightarrow> ('k, 'v) fmap" where
  "fm_retain P m = fmfilter (\<lambda>k. case fmlookup m k of Some v \<Rightarrow> P v | None \<Rightarrow> False) m"

definition filter_remove_document :: "string \<Rightarrow> filter_segment \<Rightarrow> filter_segment" where
  "filter_remove_document i seg =
     (if i |\<in>| fs_all_doc_ids seg
      then seg\<lparr>fs_all_doc_ids := fs_all_doc_ids seg |-| {|i|},
        fs_postings :=
          fm_retain (\<lambda>m. fm_size m \<noteq> 0)
            (fmmap (\<lambda>m. fm_retain (\<lambda>s. s \<noteq> {||}) (fmmap (\<lambda>s. s |-| {|i|}) m)) (fs_postings seg))\<rparr>
      else seg)"

definition filter_empty :: "u64 \<Rightarrow> filter_segment" where
  "filter_empty sid = \<lparr>fs_segment_id = sid, fs_all_doc_ids = {||}, fs_postings = fmempty\<rparr>"

definition filter_build ::
  "'z f64_text_scheme \<Rightarrow> u64 \<Rightarrow> json \<Rightarrow> (string \<times> document) list \<Rightarrow> filter_segment" where
  "filter_build T sid sch docs =
     (let flds = filter_fields_from_schema sch
      in fold (\<lambda>(i, d). filter_add_document T flds i d) docs (filter_empty sid))"

definition filter_apply_delta ::
  "'z f64_text_scheme \<Rightarrow> json \<Rightarrow> (string \<times> document) list \<Rightarrow> string list \<Rightarrow> filter_segment \<Rightarrow> filter_segment" where
  "filter_apply_delta T sch ups dels seg =
     (let flds = filter_fields_from_schema sch;
          seg1 = fold filter_remove_document dels seg
      in fold (\<lambda>(i, d) s. filter_add_document T flds i d (filter_remove_document i s)) ups seg1)"

text \<open>\<^verbatim>\<open>strip_prefix\<close> and the reading of a posting key.\<close>

definition strip_prefix :: "string \<Rightarrow> string \<Rightarrow> string option" where
  "strip_prefix pat s = (if take (length pat) s = pat then Some (drop (length pat) s) else None)"

definition parse_value_key :: "'z f64_text_scheme \<Rightarrow> string \<Rightarrow> filter_value option" where
  "parse_value_key T vk =
     (case strip_prefix ''s:'' vk of
        Some s \<Rightarrow> Some (FString s)
      | None \<Rightarrow>
          (case strip_prefix ''b:'' vk of
             Some b \<Rightarrow> if b = ''true'' then Some (FBool True) else if b = ''false'' then Some (FBool False) else None
           | None \<Rightarrow>
               (case strip_prefix ''n:'' vk of
                  Some n \<Rightarrow> map_option FNumber (f64_from_str T n)
                | None \<Rightarrow> None)))"

fun value_ord :: "filter_value \<Rightarrow> filter_value \<Rightarrow> ordering option" where
  "value_ord (FNumber a) (FNumber b) = f64_partial_cmp a b"
| "value_ord (FString a) (FString b) = Some (cmp_of a b)"
| "value_ord (FBool a) (FBool b) = Some (cmp_of a b)"
| "value_ord _ _ = None"

definition cmp_values :: "filter_value \<Rightarrow> filter_value \<Rightarrow> cmp_op \<Rightarrow> bool" where
  "cmp_values lhs rhs op =
     (case (value_ord lhs rhs, op) of
        (Some Greater, OpGt) \<Rightarrow> True
      | (Some Greater, OpGte) \<Rightarrow> True
      | (Some Equal, OpGte) \<Rightarrow> True
      | (Some Less, OpLt) \<Rightarrow> True
      | (Some Less, OpLte) \<Rightarrow> True
      | (Some Equal, OpLte) \<Rightarrow> True
      | _ \<Rightarrow> False)"

text \<open>The result None of the matching functions is the panic of \<open>value_key\<close>.\<close>

definition match_cmp ::
  "'z f64_text_scheme \<Rightarrow> filter_segment \<Rightarrow> string \<Rightarrow> cmp_op \<Rightarrow> filter_value \<Rightarrow> string fset option" where
  "match_cmp T seg field op value =
     (let field_map = fmlookup (fs_postings seg) field in
      case op of
        OpEq \<Rightarrow>
          (case field_map of
             None \<Rightarrow> Some {||}
           | Some m \<Rightarrow>
               map_option (\<lambda>vk. case fmlookup m vk of Some ids \<Rightarrow> ids | None \<Rightarrow> {||}) (value_key T value))
      | OpNe \<Rightarrow>
          (case field_map of
             None \<Rightarrow> Some (fs_all_doc_ids seg)
           | Some m \<Rightarrow>
               map_option
                 (\<lambda>vk. case fmlookup m vk of
                         Some ids \<Rightarrow> fs_all_doc_ids seg |-| ids
                       | None \<Rightarrow> fs_all_doc_ids seg)
                 (value_key T value))
      | _ \<Rightarrow>
          (case field_map of
             None \<Rightarrow> Some {||}
           | Some m \<Rightarrow>
               Some (fold (\<lambda>(vk, ids) out.
                        case parse_value_key T vk of
                          Some lhs \<Rightarrow> if cmp_values lhs value op then out |\<union>| ids else out
                        | None \<Rightarrow> out) (fm_entries m) {||})))"

fun matching_doc_ids :: "'z f64_text_scheme \<Rightarrow> filter_segment \<Rightarrow> filter_expr \<Rightarrow> string fset option" where
  "matching_doc_ids T seg (FAnd subs) =
     (case those (map (matching_doc_ids T seg) subs) of
        None \<Rightarrow> None
      | Some [] \<Rightarrow> Some (fs_all_doc_ids seg)
      | Some (first # sets) \<Rightarrow> Some (fold (\<lambda>s acc. acc |\<inter>| s) sets first))"
| "matching_doc_ids T seg (FOr subs) =
     map_option (\<lambda>sets. fold (\<lambda>s acc. acc |\<union>| s) sets {||}) (those (map (matching_doc_ids T seg) subs))"
| "matching_doc_ids T seg (FCmp field op value) = match_cmp T seg field op value"

section \<open>What a segment represents\<close>

definition posting :: "filter_segment \<Rightarrow> string \<Rightarrow> string \<Rightarrow> string fset" where
  "posting seg f vk =
     (case fmlookup (fs_postings seg) f of
        None \<Rightarrow> {||}
      | Some m \<Rightarrow> (case fmlookup m vk of None \<Rightarrow> {||} | Some s \<Rightarrow> s))"

text \<open>No empty posting is stored.\<close>

definition seg_canonical :: "filter_segment \<Rightarrow> bool" where
  "seg_canonical seg \<longleftrightarrow>
     (\<forall>f m. fmlookup (fs_postings seg) f = Some m \<longrightarrow>
        m \<noteq> fmempty \<and> (\<forall>vk s. fmlookup m vk = Some s \<longrightarrow> s \<noteq> {||}))"

definition key_of :: "'z f64_text_scheme \<Rightarrow> document \<Rightarrow> string \<Rightarrow> string option" where
  "key_of T d f = Option.bind (Option.bind (fmlookup (attributes d) f) attr_to_filter_value) (value_key T)"

definition indexed :: "string list \<Rightarrow> string \<Rightarrow> bool" where
  "indexed flds f \<longleftrightarrow> flds = [] \<or> f \<in> set flds"

definition seg_rep :: "'z f64_text_scheme \<Rightarrow> string list \<Rightarrow> docs \<Rightarrow> filter_segment \<Rightarrow> bool" where
  "seg_rep T flds docs seg \<longleftrightarrow>
     seg_canonical seg \<and> fs_all_doc_ids seg = fmdom docs \<and>
     (\<forall>f vk i. i |\<in>| posting seg f vk \<longleftrightarrow>
        (\<exists>d. fmlookup docs i = Some d \<and> indexed flds f \<and> key_of T d f = Some vk))"

lemma fm_retain_lookup: "fmlookup (fm_retain P m) k = (case fmlookup m k of Some v \<Rightarrow> if P v then Some v else None | None \<Rightarrow> None)"
  by (auto simp: fm_retain_def split: option.splits)

lemma fm_size_0: "fm_size m = 0 \<longleftrightarrow> m = fmempty"
  by (metis fcard_0_eq fm_size_def fmrestrict_fset_dom fmrestrict_fset_null fmdom_empty)

lemma segment_ext:
  assumes "seg_canonical a" "seg_canonical b" "posting a = posting b"
  shows "fs_postings a = fs_postings b"
proof (rule fmap_ext)
  fix f
  have half: "fmlookup (fs_postings y) f \<noteq> None"
    if "seg_canonical x" "posting x = posting y" "fmlookup (fs_postings x) f = Some m" for x y m
  proof -
    have "m \<noteq> fmempty" using that by (auto simp: seg_canonical_def)
    then obtain vk s where s: "fmlookup m vk = Some s" by (metis fmap_ext fmempty_lookup not_Some_eq)
    have "posting x f vk = s" using that(3) s by (simp add: posting_def)
    moreover have "s \<noteq> {||}" using that s by (auto simp: seg_canonical_def)
    ultimately have "posting y f vk \<noteq> {||}" using that(2) by simp
    then show ?thesis by (auto simp: posting_def)
  qed
  show "fmlookup (fs_postings a) f = fmlookup (fs_postings b) f"
  proof (cases "fmlookup (fs_postings a) f")
    case None
    then show ?thesis using half [OF assms(2) assms(3) [symmetric]] by fastforce
  next
    case (Some m)
    then obtain m' where m': "fmlookup (fs_postings b) f = Some m'" using half [OF assms(1,3) Some] by auto
    have "fmlookup m vk = fmlookup m' vk" for vk
    proof -
      have "posting a f vk = posting b f vk" using assms(3) by simp
      moreover have "fmlookup m vk \<noteq> Some {||}" "fmlookup m' vk \<noteq> Some {||}"
        using assms(1,2) Some m' unfolding seg_canonical_def by blast+
      ultimately show ?thesis
        using Some m' by (cases "fmlookup m vk"; cases "fmlookup m' vk") (auto simp: posting_def)
    qed
    then show ?thesis using Some m' by (auto intro: fmap_ext)
  qed
qed

lemma seg_rep_unique:
  assumes "seg_rep T flds docs a" "seg_rep T flds docs b" "fs_segment_id a = fs_segment_id b"
  shows "a = (b :: filter_segment)"
proof -
  have "posting a = posting b"
    using assms(1,2) unfolding seg_rep_def by (intro ext fset_eqI) blast
  then have "fs_postings a = fs_postings b"
    using assms(1,2) segment_ext by (auto simp: seg_rep_def)
  then show ?thesis using assms by (simp add: seg_rep_def)
qed

lemma posting_add:
  "posting (add_posting i field vk seg) f k =
     (if f = field \<and> k = vk then finsert i (posting seg f k) else posting seg f k)"
  by (auto simp: posting_def add_posting_def Let_def split: option.splits)

lemma canonical_add: "seg_canonical seg \<Longrightarrow> seg_canonical (add_posting i field vk seg)"
  by (auto simp: seg_canonical_def add_posting_def Let_def split: option.splits if_splits)

lemma add_field_eq:
  "add_field T i d f seg = (case key_of T d f of None \<Rightarrow> seg | Some vk \<Rightarrow> add_posting i f vk seg)"
  by (cases "Option.bind (fmlookup (attributes d) f) attr_to_filter_value")
    (simp_all add: add_field_def key_of_def del: bind_assoc)

lemma fold_add_field:
  assumes "seg_canonical seg"
  shows "seg_canonical (fold (add_field T i d) fs seg) \<and>
    fs_all_doc_ids (fold (add_field T i d) fs seg) = fs_all_doc_ids seg \<and>
    fs_segment_id (fold (add_field T i d) fs seg) = fs_segment_id seg \<and>
    (\<forall>f vk. posting (fold (add_field T i d) fs seg) f vk =
       (if f \<in> set fs \<and> key_of T d f = Some vk then finsert i (posting seg f vk) else posting seg f vk))"
  using assms
proof (induction fs arbitrary: seg)
  case (Cons f0 fs)
  show ?case
  proof (cases "key_of T d f0")
    case None
    then show ?thesis using Cons by (auto simp: add_field_eq)
  next
    case (Some vk0)
    have "fs_all_doc_ids (add_posting i f0 vk0 seg) = fs_all_doc_ids seg"
      "fs_segment_id (add_posting i f0 vk0 seg) = fs_segment_id seg"
      by (simp_all add: add_posting_def Let_def)
    then show ?thesis
      using Cons.IH [OF canonical_add [OF Cons.prems, of i f0 vk0]] Some by (auto simp: add_field_eq posting_add)
  qed
qed simp

lemma key_of_in_attrs: "key_of T d f = Some vk \<Longrightarrow> f |\<in>| fmdom (attributes d)"
  by (auto simp: key_of_def bind_eq_Some_conv fmlookup_dom_iff)

lemma add_document_rep:
  assumes rep: "seg_rep T flds docs seg" and new: "fmlookup docs i = None"
  shows "seg_rep T flds (fmupd i d docs) (filter_add_document T flds i d seg) \<and>
    fs_segment_id (filter_add_document T flds i d seg) = fs_segment_id seg"
proof -
  let ?fs = "if flds = [] then fm_keys (attributes d) else flds"
  let ?seg = "seg\<lparr>fs_all_doc_ids := finsert i (fs_all_doc_ids seg)\<rparr>"
  have c: "seg_canonical ?seg" using rep by (simp add: seg_rep_def seg_canonical_def)
  have p: "posting ?seg = posting seg" by (simp add: posting_def fun_eq_iff)
  have mem: "f \<in> set ?fs \<and> key_of T d f = Some vk \<longleftrightarrow> indexed flds f \<and> key_of T d f = Some vk" for f vk
    using key_of_in_attrs by (auto simp: indexed_def)
  note fold = fold_add_field [OF c, of T i d ?fs]
  have post: "posting (filter_add_document T flds i d seg) f vk =
      (if indexed flds f \<and> key_of T d f = Some vk then finsert i (posting seg f vk) else posting seg f vk)" for f vk
    using fold mem [of f vk] by (simp add: filter_add_document_def p)
  have other: "j |\<in>| posting seg f vk \<longleftrightarrow>
      (\<exists>d. fmlookup docs j = Some d \<and> indexed flds f \<and> key_of T d f = Some vk)" for j f vk
    using rep by (simp add: seg_rep_def)
  have "fs_all_doc_ids (filter_add_document T flds i d seg) = fmdom (fmupd i d docs)"
    "seg_canonical (filter_add_document T flds i d seg)"
    "fs_segment_id (filter_add_document T flds i d seg) = fs_segment_id seg"
    using fold rep by (simp_all add: filter_add_document_def seg_rep_def)
  moreover have "j |\<in>| posting (filter_add_document T flds i d seg) f vk \<longleftrightarrow>
      (\<exists>d'. fmlookup (fmupd i d docs) j = Some d' \<and> indexed flds f \<and> key_of T d' f = Some vk)" for j f vk
    using new by (cases "j = i") (auto simp: post other)
  ultimately show ?thesis by (simp add: seg_rep_def)
qed

lemma remove_document_rep:
  assumes rep: "seg_rep T flds docs seg"
  shows "seg_rep T flds (fmdrop i docs) (filter_remove_document i seg) \<and>
    fs_segment_id (filter_remove_document i seg) = fs_segment_id seg"
proof (cases "i |\<in>| fs_all_doc_ids seg")
  case False
  then have "fmdrop i docs = docs"
    using rep by (intro fmap_ext) (auto simp: seg_rep_def fmlookup_dom_iff)
  then show ?thesis using False rep by (simp add: filter_remove_document_def)
next
  case True
  let ?s = "filter_remove_document i seg"
  let ?drop = "\<lambda>m. fm_retain (\<lambda>s. s \<noteq> {||}) (fmmap (\<lambda>s. s |-| {|i|}) m)"
  have dropped: "fmlookup (?drop m) vk =
      (case fmlookup m vk of None \<Rightarrow> None | Some s \<Rightarrow> if s |-| {|i|} = {||} then None else Some (s |-| {|i|}))" for m vk
    by (simp add: fm_retain_lookup split: option.splits)
  have look: "fmlookup (fs_postings ?s) f =
      (case fmlookup (fs_postings seg) f of None \<Rightarrow> None | Some m \<Rightarrow> if ?drop m = fmempty then None else Some (?drop m))" for f
    using True by (simp add: filter_remove_document_def fm_retain_lookup fm_size_0 split: option.splits)
  have post: "posting ?s f vk = posting seg f vk |-| {|i|}" for f vk
  proof (cases "fmlookup (fs_postings seg) f")
    case (Some m)
    then have "posting ?s f vk = (case fmlookup (?drop m) vk of None \<Rightarrow> {||} | Some s \<Rightarrow> s)"
      by (cases "?drop m = fmempty") (simp_all add: posting_def look)
    then show ?thesis using Some by (auto simp: dropped posting_def split: option.splits)
  qed (simp add: posting_def look)
  have can: "seg_canonical ?s"
    unfolding seg_canonical_def look
    by (auto simp: dropped simp del: fmfilter_false split: option.splits if_splits)
  show ?thesis
    using True rep can
    by (auto simp: seg_rep_def post) (auto simp: filter_remove_document_def)
qed

lemma remove_documents_rep:
  assumes "seg_rep T flds docs seg"
  shows "seg_rep T flds (fmdrop_list dels docs) (fold filter_remove_document dels seg) \<and>
    fs_segment_id (fold filter_remove_document dels seg) = fs_segment_id seg"
  using assms
proof (induction dels arbitrary: docs seg)
  case Nil
  then show ?case by (simp add: fmdrop_list_def)
next
  case (Cons i dels)
  have "fmdrop_list (i # dels) docs = fmdrop_list dels (fmdrop i docs)"
    by (intro fmap_ext) simp
  then show ?case using Cons.IH [of "fmdrop i docs" "filter_remove_document i seg"] remove_document_rep [OF Cons.prems]
    by simp
qed

lemma upsert_documents_rep:
  assumes "seg_rep T flds docs seg"
  shows "seg_rep T flds (fold (\<lambda>(i, d). fmupd i d) ups docs)
      (fold (\<lambda>(i, d) s. filter_add_document T flds i d (filter_remove_document i s)) ups seg) \<and>
    fs_segment_id (fold (\<lambda>(i, d) s. filter_add_document T flds i d (filter_remove_document i s)) ups seg) =
      fs_segment_id seg"
  using assms
proof (induction ups arbitrary: docs seg)
  case (Cons u ups)
  obtain i d where u: "u = (i, d)" by (cases u)
  have "seg_rep T flds (fmupd i d (fmdrop i docs)) (filter_add_document T flds i d (filter_remove_document i seg))"
    "fs_segment_id (filter_add_document T flds i d (filter_remove_document i seg)) = fs_segment_id seg"
    using add_document_rep [of T flds "fmdrop i docs" "filter_remove_document i seg" i d]
      remove_document_rep [OF Cons.prems, of i] by simp_all
  moreover have "fmupd i d (fmdrop i docs) = fmupd i d docs" by (intro fmap_ext) simp
  ultimately show ?case using Cons.IH u by simp
qed simp

lemma empty_rep: "seg_rep T flds fmempty (filter_empty sid)"
  by (simp add: seg_rep_def filter_empty_def seg_canonical_def posting_def)

lemma lookup_fold_upd:
  assumes "distinct (map fst ds)"
  shows "fmlookup (fold (\<lambda>(i, d). fmupd i d) ds m) k = (case map_of ds k of None \<Rightarrow> fmlookup m k | Some d \<Rightarrow> Some d)"
  using assms
proof (induction ds arbitrary: m)
  case (Cons u ds)
  then have "k = fst u \<Longrightarrow> map_of ds k = None" by (auto simp: map_of_eq_None_iff)
  then show ?case using Cons by (cases u; cases "map_of ds k") auto
qed simp

lemma build_rep:
  assumes "distinct (map fst ds)"
  shows "seg_rep T (filter_fields_from_schema sch) (fmap_of_list ds) (filter_build T sid sch ds) \<and>
    fs_segment_id (filter_build T sid sch ds) = sid"
proof -
  let ?f = "filter_fields_from_schema sch"
  have "seg_rep T ?f (fold (\<lambda>(i, d). fmupd i d) ds docs) (fold (\<lambda>(i, d). filter_add_document T ?f i d) ds seg) \<and>
      fs_segment_id (fold (\<lambda>(i, d). filter_add_document T ?f i d) ds seg) = fs_segment_id seg"
    if "seg_rep T ?f docs seg" "distinct (map fst ds)" "\<forall>i \<in> fst ` set ds. fmlookup docs i = None" for docs seg
    using that
  proof (induction ds arbitrary: docs seg)
    case (Cons u ds)
    obtain i d where u: "u = (i, d)" by (cases u)
    note add = add_document_rep [of T ?f docs seg i d]
    have "\<forall>j \<in> fst ` set ds. fmlookup (fmupd i d docs) j = None"
      using Cons.prems u by auto
    then show ?case using Cons.IH [of "fmupd i d docs" "filter_add_document T ?f i d seg"] add Cons.prems u by simp
  qed simp
  from this [OF empty_rep assms, of sid]
  have "seg_rep T ?f (fold (\<lambda>(i, d). fmupd i d) ds fmempty) (filter_build T sid sch ds) \<and>
      fs_segment_id (filter_build T sid sch ds) = sid"
    by (simp add: filter_build_def filter_empty_def)
  moreover have "fold (\<lambda>(i, d). fmupd i d) ds fmempty = fmap_of_list ds"
    by (intro fmap_ext) (simp add: lookup_fold_upd [OF assms] fmlookup_of_list split: option.splits)
  ultimately show ?thesis by simp
qed

section \<open>Matching\<close>

locale f64_printing =
  fixes T :: "'z f64_text_scheme"
  assumes read_display: "x \<noteq> NaN \<Longrightarrow> f64_from_str T (f64_display T x) = Some x"

text \<open>
  Values on which equality of printed keys is equality of values: the two zeros print
  differently and NaN differs from itself.
\<close>

fun value_plain :: "filter_value \<Rightarrow> bool" where
  "value_plain (FNumber x) \<longleftrightarrow> x \<noteq> NaN \<and> x \<noteq> NegZero"
| "value_plain (FString _) \<longleftrightarrow> True"
| "value_plain (FBool _) \<longleftrightarrow> True"
| "value_plain _ \<longleftrightarrow> False"

fun mixed_kinds :: "filter_value \<Rightarrow> filter_value \<Rightarrow> bool" where
  "mixed_kinds (FBool _) (FNumber _) = True"
| "mixed_kinds (FNumber _) (FBool _) = True"
| "mixed_kinds _ _ = False"

definition docs_plain :: "docs \<Rightarrow> bool" where
  "docs_plain docs \<longleftrightarrow>
     (\<forall>i d f l. fmlookup docs i = Some d \<and> f \<noteq> ''id'' \<and> doc_field_value d f = Some l \<longrightarrow> value_plain l)"

fun expr_indexable :: "string list \<Rightarrow> docs \<Rightarrow> filter_expr \<Rightarrow> bool" where
  "expr_indexable flds docs (FAnd subs) = list_all (expr_indexable flds docs) subs"
| "expr_indexable flds docs (FOr subs) = list_all (expr_indexable flds docs) subs"
| "expr_indexable flds docs (FCmp f op v) \<longleftrightarrow>
     f \<noteq> ''id'' \<and> indexed flds f \<and> value_plain v \<and>
     (op = OpEq \<or> op = OpNe \<or>
        (\<forall>i d l. fmlookup docs i = Some d \<and> doc_field_value d f = Some l \<longrightarrow> \<not> mixed_kinds l v))"

definition matches :: "docs \<Rightarrow> filter_expr \<Rightarrow> string fset option \<Rightarrow> bool" where
  "matches docs e r \<longleftrightarrow>
     (\<exists>X. r = Some X \<and> (\<forall>i. i |\<in>| X \<longleftrightarrow> (\<exists>d. fmlookup docs i = Some d \<and> eval_filter e d)))"

lemma key_of_field: "f \<noteq> ''id'' \<Longrightarrow> key_of T d f = Option.bind (doc_field_value d f) (value_key T)"
  by (simp add: key_of_def doc_field_value_def)

lemma value_plain_literal: "value_plain v \<Longrightarrow> is_literal v \<and> v \<noteq> FNull \<and> (\<exists>vk. value_key T v = Some vk)"
  by (cases v) (auto simp: is_literal_def)

lemma fv_eq_plain: "value_plain l \<Longrightarrow> value_plain v \<Longrightarrow> fv_eq l v \<longleftrightarrow> l = v"
proof -
  have "f64_eq a b \<longleftrightarrow> a = b" if "a \<noteq> NaN" "a \<noteq> NegZero" "b \<noteq> NaN" "b \<noteq> NegZero" for a b
    using that by (cases a; cases b) (auto simp: f64_eq_pos)
  then show "value_plain l \<Longrightarrow> value_plain v \<Longrightarrow> fv_eq l v \<longleftrightarrow> l = v"
    by (cases l; cases v) auto
qed

lemma eval_eq_plain:
  "value_plain v \<Longrightarrow>
   eval_filter (FCmp f OpEq v) d \<longleftrightarrow> (\<exists>l. doc_field_value d f = Some l \<and> fv_eq l v)"
  "value_plain v \<Longrightarrow>
   eval_filter (FCmp f OpNe v) d \<longleftrightarrow> \<not> (\<exists>l. doc_field_value d f = Some l \<and> fv_eq l v)"
  by (cases v; auto simp: eval_cmp_def resolve_rhs_def split: option.splits)+

lemma eval_range:
  assumes "value_plain v" "op \<noteq> OpEq" "op \<noteq> OpNe"
    and "\<forall>l. doc_field_value d f = Some l \<longrightarrow> \<not> mixed_kinds l v"
  shows "eval_filter (FCmp f op v) d \<longleftrightarrow> (\<exists>l. doc_field_value d f = Some l \<and> cmp_values l v op)"
proof (cases "doc_field_value d f")
  case (Some l)
  have r: "resolve_rhs v None False = Some v" using assms(1) value_plain_literal resolve_literal by blast
  have "compare_values l v = value_ord l v"
    using assms(4) Some by (cases l; cases v) auto
  then show ?thesis
    using assms(2,3) Some r
    by (cases op) (auto simp: eval_cmp_def cmp_both_def cmp_values_def split: option.splits ordering.splits)
qed (use assms in \<open>cases op; simp add: eval_cmp_def cmp_both_def\<close>)

lemma fold_union_iff:
  "i |\<in>| fold (\<lambda>(vk, ids) out. case P vk of Some l \<Rightarrow> if Q l then out |\<union>| ids else out | None \<Rightarrow> out) es acc \<longleftrightarrow>
     i |\<in>| acc \<or> (\<exists>vk ids l. (vk, ids) \<in> set es \<and> P vk = Some l \<and> Q l \<and> i |\<in>| ids)"
proof (induction es arbitrary: acc)
  case (Cons e es)
  obtain vk ids where e: "e = (vk, ids)" by (cases e)
  show ?case
    by (cases "P vk"; simp add: e Cons.IH; metis option.distinct(1) option.inject)
qed simp

lemma fold_inter_iff: "i |\<in>| fold (\<lambda>s acc. acc |\<inter>| s) sets X \<longleftrightarrow> i |\<in>| X \<and> (\<forall>s \<in> set sets. i |\<in>| s)"
  by (induction sets arbitrary: X) auto

lemma fold_union_sets_iff: "i |\<in>| fold (\<lambda>s acc. acc |\<union>| s) sets X \<longleftrightarrow> i |\<in>| X \<or> (\<exists>s \<in> set sets. i |\<in>| s)"
  by (induction sets arbitrary: X) auto

lemma those_matches:
  assumes "\<And>e. e \<in> set es \<Longrightarrow> matches docs e (g e)"
  shows "\<exists>Xs. those (map g es) = Some Xs \<and> list_all2 (\<lambda>e X. matches docs e (Some X)) es Xs"
  using assms
proof (induction es)
  case (Cons e es)
  obtain X where "g e = Some X" using Cons.prems [of e] by (auto simp: matches_def)
  then show ?case using Cons.IH Cons.prems [of e] Cons.prems by auto
qed simp

lemma matches_and:
  assumes "list_all2 (\<lambda>e X. matches docs e (Some X)) es Xs" "fset A = fset (fmdom docs)"
  shows "matches docs (FAnd es) (case Xs of [] \<Rightarrow> Some A | X # Xs \<Rightarrow> Some (fold (\<lambda>s acc. acc |\<inter>| s) Xs X))"
proof (cases Xs)
  case Nil
  then show ?thesis using assms by (auto simp: matches_def fmlookup_dom_iff)
next
  case (Cons X Ys)
  have "(\<forall>s \<in> set Xs. i |\<in>| s) \<longleftrightarrow> (\<forall>e \<in> set es. \<exists>d. fmlookup docs i = Some d \<and> eval_filter e d)" for i
    using assms(1) by (induction rule: list_all2_induct) (auto simp: matches_def)
  moreover have "es \<noteq> []" using assms(1) Cons by auto
  ultimately show ?thesis
    using Cons by (auto simp: matches_def fold_inter_iff list_all_iff neq_Nil_conv)
qed

lemma matches_or:
  assumes "list_all2 (\<lambda>e X. matches docs e (Some X)) es Xs"
  shows "matches docs (FOr es) (Some (fold (\<lambda>s acc. acc |\<union>| s) Xs {||}))"
proof -
  have "(\<exists>s \<in> set Xs. i |\<in>| s) \<longleftrightarrow> (\<exists>e \<in> set es. \<exists>d. fmlookup docs i = Some d \<and> eval_filter e d)" for i
    using assms by (induction rule: list_all2_induct) (auto simp: matches_def)
  then show ?thesis by (auto simp: matches_def fold_union_sets_iff list_ex_iff)
qed

context f64_printing
begin

lemma parse_value_key_inverse: "value_plain l \<Longrightarrow> value_key T l = Some vk \<Longrightarrow> parse_value_key T vk = Some l"
  by (cases l) (auto simp: parse_value_key_def strip_prefix_def read_display split: if_splits)

lemma value_key_inj: "value_plain l \<Longrightarrow> value_plain v \<Longrightarrow> value_key T l = value_key T v \<longleftrightarrow> l = v"
  using parse_value_key_inverse value_plain_literal by (metis option.inject)

lemma posting_eq:
  assumes "seg_rep T flds docs seg" "docs_plain docs" "f \<noteq> ''id''" "indexed flds f"
    and v: "value_plain v" "value_key T v = Some vk"
  shows "i |\<in>| posting seg f vk \<longleftrightarrow>
    (\<exists>d. fmlookup docs i = Some d \<and> (\<exists>l. doc_field_value d f = Some l \<and> fv_eq l v))"
proof -
  have "key_of T d f = Some vk \<longleftrightarrow> (\<exists>l. doc_field_value d f = Some l \<and> fv_eq l v)"
    if "fmlookup docs i = Some d" for d
  proof (cases "doc_field_value d f")
    case (Some l)
    then have "value_plain l" using assms(2,3) that by (auto simp: docs_plain_def)
    then show ?thesis
      using v Some value_key_inj [of l v] fv_eq_plain [of l v] by (auto simp: key_of_field [OF assms(3)])
  qed (simp add: key_of_field [OF assms(3)])
  then show ?thesis using assms(1,4) by (auto simp: seg_rep_def)
qed

lemma posting_range:
  assumes "seg_rep T flds docs seg" "docs_plain docs" "f \<noteq> ''id''" "indexed flds f"
  shows "(\<exists>vk l. parse_value_key T vk = Some l \<and> Q l \<and> i |\<in>| posting seg f vk) \<longleftrightarrow>
    (\<exists>d. fmlookup docs i = Some d \<and> (\<exists>l. doc_field_value d f = Some l \<and> Q l))"
proof -
  have inv: "parse_value_key T vk = Some l"
    if "fmlookup docs i = Some d" "doc_field_value d f = Some l" "value_key T l = Some vk" for d l vk
    using that assms(2,3) parse_value_key_inverse by (auto simp: docs_plain_def)
  have key: "\<exists>vk. value_key T l = Some vk"
    if "fmlookup docs i = Some d" "doc_field_value d f = Some l" for d l
    using that assms(2,3) value_plain_literal unfolding docs_plain_def by blast
  have mem: "i |\<in>| posting seg f vk \<longleftrightarrow>
      (\<exists>d l. fmlookup docs i = Some d \<and> doc_field_value d f = Some l \<and> value_key T l = Some vk)" for vk
    using assms(1,4) by (auto simp: seg_rep_def key_of_field [OF assms(3)] bind_eq_Some_conv)
  show ?thesis
    unfolding mem using inv key by (metis option.inject)
qed

lemma match_range:
  assumes rep: "seg_rep T flds docs seg" "docs_plain docs" "f \<noteq> ''id''" "indexed flds f" "value_plain v"
    and op: "op \<noteq> OpEq" "op \<noteq> OpNe"
    and mx: "\<forall>i d l. fmlookup docs i = Some d \<and> doc_field_value d f = Some l \<longrightarrow> \<not> mixed_kinds l v"
  shows "matches docs (FCmp f op v) (match_cmp T seg f op v)"
proof -
  have ev: "(\<exists>d. fmlookup docs i = Some d \<and> eval_filter (FCmp f op v) d) \<longleftrightarrow>
      (\<exists>vk l. parse_value_key T vk = Some l \<and> cmp_values l v op \<and> i |\<in>| posting seg f vk)" for i
    unfolding posting_range [OF rep(1-4)]
    using eval_range [OF rep(5) op] mx by blast
  let ?pick = "\<lambda>(vk, ids) out. case parse_value_key T vk of
      Some lhs \<Rightarrow> if cmp_values lhs v op then out |\<union>| ids else out | None \<Rightarrow> out"
  have mc: "match_cmp T seg f op v =
      (case fmlookup (fs_postings seg) f of None \<Rightarrow> Some {||} | Some m \<Rightarrow> Some (fold ?pick (fm_entries m) {||}))"
    using op by (cases op; simp only: match_cmp_def Let_def cmp_op.simps simp_thms)
  show ?thesis
  proof (cases "fmlookup (fs_postings seg) f")
    case None
    then show ?thesis unfolding matches_def ev mc by (simp add: posting_def)
  next
    case (Some m)
    then have p: "i |\<in>| posting seg f vk \<longleftrightarrow> (\<exists>ids. (vk, ids) \<in> set (fm_entries m) \<and> i |\<in>| ids)" for i vk
      by (auto simp: posting_def split: option.splits)
    show ?thesis
      unfolding matches_def ev mc p using Some
      by (simp add: fold_union_iff [where P = "parse_value_key T" and Q = "\<lambda>l. cmp_values l v op"]) blast
  qed
qed

lemma match_cmp_correct:
  assumes rep: "seg_rep T flds docs seg" "docs_plain docs" and ix: "expr_indexable flds docs (FCmp f op v)"
  shows "matches docs (FCmp f op v) (match_cmp T seg f op v)"
proof -
  have f: "f \<noteq> ''id''" "indexed flds f" "value_plain v" using ix by auto
  then obtain vk where vk: "value_key T v = Some vk" using value_plain_literal by blast
  note mem = posting_eq [OF rep f(1,2,3) vk]
  have look: "posting seg f vk = (case fmlookup m vk of Some ids \<Rightarrow> ids | None \<Rightarrow> {||})"
    if "fmlookup (fs_postings seg) f = Some m" for m
    using that by (simp add: posting_def split: option.splits)
  consider "op = OpEq" | "op = OpNe" | "op \<noteq> OpEq" "op \<noteq> OpNe" by blast
  then show ?thesis
  proof cases
    case 1
    have "match_cmp T seg f op v = Some (posting seg f vk)"
      using vk look by (auto simp: match_cmp_def 1 posting_def split: option.splits)
    then show ?thesis unfolding matches_def 1 eval_eq_plain(1) [OF f(3)] mem [symmetric] by simp
  next
    case 2
    have "match_cmp T seg f op v = Some (fs_all_doc_ids seg |-| posting seg f vk)"
      using vk look by (auto simp: match_cmp_def 2 posting_def split: option.splits)
    then show ?thesis
      unfolding matches_def 2 eval_eq_plain(2) [OF f(3)]
      using mem rep(1) by (auto simp: seg_rep_def fmlookup_dom_iff)
  next
    case 3
    then show ?thesis using match_range [OF rep f 3] ix by auto
  qed
qed

lemma matching_correct:
  assumes rep: "seg_rep T flds docs seg" "docs_plain docs" and ix: "expr_indexable flds docs e"
  shows "matches docs e (matching_doc_ids T seg e)"
  using ix
proof (induction e)
  case (FAnd subs)
  then obtain Xs where "those (map (matching_doc_ids T seg) subs) = Some Xs"
    "list_all2 (\<lambda>e X. matches docs e (Some X)) subs Xs"
    using those_matches [of subs docs "matching_doc_ids T seg"] by (auto simp: list_all_iff)
  then show ?case
    using matches_and [of docs subs Xs "fs_all_doc_ids seg"] rep(1) by (auto simp: seg_rep_def split: list.splits)
next
  case (FOr subs)
  then obtain Xs where "those (map (matching_doc_ids T seg) subs) = Some Xs"
    "list_all2 (\<lambda>e X. matches docs e (Some X)) subs Xs"
    using those_matches [of subs docs "matching_doc_ids T seg"] by (auto simp: list_all_iff)
  then show ?case using matches_or by simp
next
  case (FCmp f op v)
  then show ?case using match_cmp_correct [OF rep] by simp
qed

end

section \<open>A reference printer\<close>

text \<open>Fractions in lowest terms; it stands in for the library's decimal printer.\<close>

definition ref_display :: "f64 \<Rightarrow> string" where
  "ref_display x =
     (case x of
        Fin q \<Rightarrow> (case quotient_of q of (n, d) \<Rightarrow>
           (if n < 0 then ''-'' else ''+'') @ dec (nat \<bar>n\<bar>) @ ''/'' @ dec (nat d))
      | NegZero \<Rightarrow> ''z'' | PosInf \<Rightarrow> ''i'' | NegInf \<Rightarrow> ''j'' | NaN \<Rightarrow> ''N'')"

definition ref_from_str :: "string \<Rightarrow> f64 option" where
  "ref_from_str s =
     (if s = ''z'' then Some NegZero else if s = ''i'' then Some PosInf else if s = ''j'' then Some NegInf
      else if s = ''N'' then Some NaN
      else case s of
        [] \<Rightarrow> None
      | c # r \<Rightarrow>
          (let n = of_nat (dec_val (takeWhile (\<lambda>c. c \<noteq> CHR ''/'') r));
               d = of_nat (dec_val (drop 1 (dropWhile (\<lambda>c. c \<noteq> CHR ''/'') r)))
           in Some (Fin ((if c = CHR ''-'' then - n else n) / d))))"

definition ref_text :: f64_text where
  "ref_text = \<lparr>f64_display = ref_display, f64_from_str = ref_from_str\<rparr>"

lemma dec_no_slash: "CHR ''/'' \<notin> set (dec n)"
proof
  assume "CHR ''/'' \<in> set (dec n)"
  moreover have "\<not> CHR ''0'' \<le> CHR ''/''" by code_simp
  ultimately show False using set_dec [of n] by auto
qed

interpretation reftext: f64_printing ref_text
proof
  fix x
  assume "x \<noteq> NaN"
  show "f64_from_str ref_text (f64_display ref_text x) = Some x"
  proof (cases x)
    case (Fin q)
    obtain n d where nd: "quotient_of q = (n, d)" by (cases "quotient_of q")
    then have d: "0 < d" and q: "q = of_int n / of_int d"
      using quotient_of_denom_pos quotient_of_div by blast+
    have tw: "takeWhile (\<lambda>c. c \<noteq> CHR ''/'') (dec a @ CHR ''/'' # r) = dec a"
      "dropWhile (\<lambda>c. c \<noteq> CHR ''/'') (dec a @ CHR ''/'' # r) = CHR ''/'' # r" for a r
      using dec_no_slash [of a] by (auto simp: takeWhile_append dropWhile_append)
    have "f64_from_str ref_text (f64_display ref_text x) = Some (Fin (of_int n / of_int d))"
      using d by (simp add: ref_text_def ref_display_def ref_from_str_def Fin nd tw Let_def)
    then show ?thesis by (simp add: Fin q)
  qed (use \<open>x \<noteq> NaN\<close> in \<open>simp_all add: ref_text_def ref_display_def ref_from_str_def\<close>)
qed

end
