(* ===== verification/Filter_Correct.thy ===== *)
theory Filter_Correct
  imports Filter_Index
begin

text \<open>
  Properties of the filter index: it answers as a scan of the documents does, a delta update
  equals a rebuild, and the inputs on which it does not agree with the scan.
\<close>

text \<open>
  C3. The inverted index answers a filter as a scan of the documents would: for a segment
  that represents the documents and a filter over indexed fields with plain scalar values, the
  matching ids are exactly those of the documents on which the filter evaluates to true.
\<close>

theorem filter_index_equals_scan:
  assumes "f64_printing T" and "seg_rep T flds docs seg" and "docs_plain docs" and "expr_indexable flds docs e"
  shows "\<exists>ids. matching_doc_ids T seg e = Some ids \<and>
    fset ids = {i. \<exists>d. fmlookup docs i = Some d \<and> eval_filter e d}"
  using f64_printing.matching_correct [OF assms] by (auto simp: matches_def)

definition number_doc :: "string \<Rightarrow> rat \<Rightarrow> document" where
  "number_doc i q = \<lparr>doc_id = i, attributes = fmupd ''n'' (JNumber (Float (Fin q))) fmempty\<rparr>"

definition two_docs :: "(string \<times> document) list" where
  "two_docs = [(''x'', number_doc ''x'' 3), (''y'', number_doc ''y'' 1)]"

lemma field_number_doc: "f \<noteq> ''id'' \<Longrightarrow> doc_field_value (number_doc i q) f = (if f = ''n'' then Some (FNumber (Fin q)) else None)"
  by (simp add: doc_field_value_def number_doc_def attr_to_filter_value_def)

lemma two_docs_cases: "fmlookup (fmap_of_list two_docs) i = Some d \<Longrightarrow> d = number_doc ''x'' 3 \<or> d = number_doc ''y'' 1"
  by (auto simp: two_docs_def split: if_splits)

lemma two_docs_plain: "docs_plain (fmap_of_list two_docs)"
  by (auto simp: docs_plain_def field_number_doc dest!: two_docs_cases split: if_splits)

theorem filter_index_equals_scan_witness:
  "\<exists>ids. matching_doc_ids ref_text (filter_build ref_text 1 JNull two_docs)
       (FAnd [FCmp ''n'' OpGt (FNumber (Fin 2)), FCmp ''n'' OpNe (FNumber (Fin 4))]) = Some ids \<and> ''x'' |\<in>| ids \<and> ''y'' |\<notin>| ids"
proof -
  let ?e = "FAnd [FCmp ''n'' OpGt (FNumber (Fin 2)), FCmp ''n'' OpNe (FNumber (Fin 4))]"
  have rep: "seg_rep ref_text [] (fmap_of_list two_docs) (filter_build ref_text 1 JNull two_docs)"
    using build_rep [of two_docs ref_text JNull 1] by (simp add: two_docs_def filter_fields_from_schema_def)
  have ix: "expr_indexable [] (fmap_of_list two_docs) ?e"
    by (auto simp: indexed_def field_number_doc dest!: two_docs_cases)
  have ev: "eval_filter ?e (number_doc ''x'' 3)" "\<not> eval_filter ?e (number_doc ''y'' 1)"
    by (simp_all add: eval_cmp_def field_number_doc resolve_rhs_def cmp_both_def cmp_of_def)
  have "fmlookup (fmap_of_list two_docs) ''x'' = Some (number_doc ''x'' 3)"
    "fmlookup (fmap_of_list two_docs) ''y'' = Some (number_doc ''y'' 1)"
    by (simp_all add: two_docs_def)
  then show ?thesis
    using filter_index_equals_scan [OF reftext.f64_printing_axioms rep two_docs_plain ix] ev by auto
qed

text \<open>
  C19. Incremental maintenance equals a rebuild: applying a delta of deleted ids and upserted
  documents to the segment built from a document map gives, field for field, the segment built
  from the updated map.
\<close>

theorem filter_delta_equals_rebuild:
  assumes "distinct (map fst old)" and "distinct (map fst new)"
    and "fmap_of_list new = fold (\<lambda>(i, d). fmupd i d) ups (fmdrop_list dels (fmap_of_list old))"
  shows "filter_apply_delta T sch ups dels (filter_build T sid sch old) = filter_build T sid sch new"
proof -
  let ?f = "filter_fields_from_schema sch"
  note old = build_rep [OF assms(1), of T sch sid]
  note dels = remove_documents_rep [OF conjunct1 [OF old], of dels]
  note ups = upsert_documents_rep [OF conjunct1 [OF dels], of ups]
  show ?thesis
    by (rule seg_rep_unique [of T ?f "fmap_of_list new"])
      (use old dels ups build_rep [OF assms(2), of T sch sid] in \<open>simp_all add: filter_apply_delta_def Let_def assms(3)\<close>)
qed

theorem filter_delta_equals_rebuild_witness:
  "filter_apply_delta ref_text JNull [(''z'', number_doc ''z'' 5)] [''y''] (filter_build ref_text 1 JNull two_docs) =
     filter_build ref_text 1 JNull [(''z'', number_doc ''z'' 5), (''x'', number_doc ''x'' 3)]"
  by (rule filter_delta_equals_rebuild) (auto simp: two_docs_def intro!: fmap_ext)


end
