(* ===== verification/Buffer.thy ===== *)
theory Buffer
  imports Namespace_Append "HOL-Library.Multiset"
begin

text \<open>
  The group-commit write buffer (\<^verbatim>\<open>src/buffer.rs\<close>).  The critical sections are functions on the
  state of one namespace's buffer; \<open>buf_step\<close> interleaves them as the tasks of the process do.
  A sleeping timer task is named by a number, its \<^verbatim>\<open>AbortHandle\<close> in the state by the same number;
  time and durations are counted in milliseconds.
\<close>

section \<open>State\<close>

record write_buffer_config =
  max_delay :: nat
  max_batch_ops :: nat
  min_commit_interval :: nat

definition default_buffer_config :: write_buffer_config where
  "default_buffer_config = \<lparr>max_delay = 1000, max_batch_ops = 512, min_commit_interval = 1000\<rparr>"

record committed_batch =
  cb_seq :: u64
  cb_entry :: wal_entry
  cb_stats :: write_stats

text \<open>A waiter's channel is the number of its request.\<close>

record write_waiter =
  w_stats :: write_stats
  w_tx :: nat

record buffer_state =
  bs_upserts :: "document list"
  bs_patches :: "document list"
  bs_deletes :: "string list"
  bs_schema_patch :: "json option"
  bs_distance_metric :: "distance_metric option"
  bs_waiters :: "write_waiter list"
  bs_timer :: "nat option"

definition empty_buffer_state :: buffer_state where
  "empty_buffer_state =
     \<lparr>bs_upserts = [], bs_patches = [], bs_deletes = [], bs_schema_patch = None, bs_distance_metric = None,
      bs_waiters = [], bs_timer = None\<rparr>"

record write_op =
  op_upserts :: "document list"
  op_patches :: "document list"
  op_deletes :: "string list"
  op_schema_patch :: "json option"
  op_distance_metric :: "distance_metric option"
  op_stats :: write_stats

definition remaining_commit_cooldown :: "nat option \<Rightarrow> nat \<Rightarrow> nat \<Rightarrow> nat" where
  "remaining_commit_cooldown last_committed_at min_interval now =
     (case last_committed_at of None \<Rightarrow> 0 | Some t \<Rightarrow> min_interval - (now - t))"

section \<open>Enqueueing\<close>

definition buffer_ops :: "buffer_state \<Rightarrow> nat" where
  "buffer_ops st = length (bs_upserts st) + length (bs_patches st) + length (bs_deletes st)"

definition metadata_only :: "buffer_state \<Rightarrow> bool" where
  "metadata_only st \<longleftrightarrow> buffer_ops st = 0 \<and> (bs_schema_patch st \<noteq> None \<or> bs_distance_metric st \<noteq> None)"

definition extend_rows :: "write_op \<Rightarrow> buffer_state \<Rightarrow> buffer_state" where
  "extend_rows w st =
     st\<lparr>bs_upserts := bs_upserts st @ op_upserts w, bs_patches := bs_patches st @ op_patches w,
        bs_deletes := bs_deletes st @ op_deletes w\<rparr>"

text \<open>
  The merge takes the stored patch out before it can fail.
\<close>

definition extend_schema :: "json option \<Rightarrow> buffer_state \<Rightarrow> unit res \<times> buffer_state" where
  "extend_schema schema_patch st =
     (case schema_patch of
        None \<Rightarrow> (Inr (), st)
      | Some patch \<Rightarrow>
          (case bs_schema_patch st of
             None \<Rightarrow> (Inr (), st\<lparr>bs_schema_patch := Some patch\<rparr>)
           | Some existing \<Rightarrow>
               (case merge_schema existing patch of
                  Inl e \<Rightarrow> (Inl e, st\<lparr>bs_schema_patch := None\<rparr>)
                | Inr merged \<Rightarrow> (Inr (), st\<lparr>bs_schema_patch := Some merged\<rparr>))))"

datatype enqueued = FlushNow | ArmTimer | Batched

text \<open>The locked section of \<^verbatim>\<open>write\<close>; \<open>t\<close> names the timer task it may spawn.\<close>

definition buffer_write ::
  "write_buffer_config \<Rightarrow> write_op \<Rightarrow> nat \<Rightarrow> nat \<Rightarrow> buffer_state \<Rightarrow> enqueued res \<times> buffer_state" where
  "buffer_write cfg w tx t st =
     (case extend_schema (op_schema_patch w) (extend_rows w st) of
        (Inl e, st1) \<Rightarrow> (Inl e, st1)
      | (Inr _, st1) \<Rightarrow>
          (let st2 = (case op_distance_metric w of None \<Rightarrow> st1 | Some dm \<Rightarrow> st1\<lparr>bs_distance_metric := Some dm\<rparr>);
               st3 = st2\<lparr>bs_waiters := bs_waiters st2 @ [\<lparr>w_stats = op_stats w, w_tx = tx\<rparr>]\<rparr>
           in if max_batch_ops cfg \<le> buffer_ops st3 \<or> metadata_only st3 then (Inr FlushNow, st3)
              else if bs_timer st3 = None then (Inr ArmTimer, st3\<lparr>bs_timer := Some t\<rparr>)
              else (Inr Batched, st3)))"

section \<open>Flushing\<close>

definition nothing_buffered :: "buffer_state \<Rightarrow> bool" where
  "nothing_buffered st \<longleftrightarrow>
     bs_upserts st = [] \<and> bs_patches st = [] \<and> bs_deletes st = [] \<and> bs_schema_patch st = None \<and>
     bs_distance_metric st = None"

record drained =
  dr_upserts :: "document list"
  dr_patches :: "document list"
  dr_deletes :: "string list"
  dr_schema_patch :: "json option"
  dr_distance_metric :: "distance_metric option"
  dr_waiters :: "write_waiter list"

definition flush_drain :: "buffer_state \<Rightarrow> drained option \<times> buffer_state" where
  "flush_drain st =
     (if nothing_buffered st then (None, st)
      else (Some \<lparr>dr_upserts = bs_upserts st, dr_patches = bs_patches st, dr_deletes = bs_deletes st,
                  dr_schema_patch = bs_schema_patch st, dr_distance_metric = bs_distance_metric st,
                  dr_waiters = bs_waiters st\<rparr>,
            empty_buffer_state))"

text \<open>The second lock of the empty case, and the batch its waiters get.\<close>

definition flush_empty :: "buffer_state \<Rightarrow> write_waiter list \<times> buffer_state" where
  "flush_empty st =
     (let st1 = st\<lparr>bs_timer := None\<rparr>
      in if nothing_buffered st1 then (bs_waiters st1, st1\<lparr>bs_waiters := []\<rparr>) else ([], st1))"

definition empty_batch :: "write_waiter \<Rightarrow> committed_batch" where
  "empty_batch w =
     \<lparr>cb_seq = 0, cb_entry = \<lparr>upserts = [], patches = [], deletes = []\<rparr>, cb_stats = w_stats w\<rparr>"

type_synonym answer = "nat \<times> committed_batch res"

definition flush_commit ::
  "'s s3_client \<Rightarrow> 'z ns_codec_scheme \<Rightarrow> string \<Rightarrow> drained \<Rightarrow> 's \<Rightarrow> (u64 \<times> wal_entry) res \<times> 's" where
  "flush_commit S cd ns dr s =
     (case from_write cd (dr_upserts dr) (dr_patches dr) (dr_deletes dr) of
        Inl e \<Rightarrow> (Inl e, s)
      | Inr entry \<Rightarrow>
          (case append_wal S cd ns entry (dr_schema_patch dr) (dr_distance_metric dr) s of
             (Inl e, s') \<Rightarrow> (Inl e, s')
           | (Inr q, s') \<Rightarrow> (Inr (q, entry), s')))"

definition flush_answers :: "write_waiter list \<Rightarrow> (u64 \<times> wal_entry) res \<Rightarrow> answer list" where
  "flush_answers ws r =
     map (\<lambda>w. (w_tx w, map_ok (\<lambda>(q, entry). \<lparr>cb_seq = q, cb_entry = entry, cb_stats = w_stats w\<rparr>) r)) ws"

definition buffer_pending :: "buffer_state \<Rightarrow> bool" where
  "buffer_pending st \<longleftrightarrow> 0 < buffer_ops st \<or> metadata_only st"

text \<open>
  \<^verbatim>\<open>arm_cooldown_flush_timer\<close> on uncontended locks: the timer task \<open>t\<close> it spawns, if any.
\<close>

definition arm_cooldown_flush_timer :: "nat \<Rightarrow> buffer_state \<Rightarrow> bool \<times> buffer_state" where
  "arm_cooldown_flush_timer t st =
     (if buffer_pending st \<and> bs_timer st = None then (True, st\<lparr>bs_timer := Some t\<rparr>) else (False, st))"

datatype after_flush = Done | FlushAgain | TryArm

definition after_flush_task :: "write_buffer_config \<Rightarrow> nat option \<Rightarrow> nat \<Rightarrow> buffer_state \<Rightarrow> after_flush" where
  "after_flush_task cfg last_committed now st =
     (if \<not> buffer_pending st then Done
      else if remaining_commit_cooldown last_committed (min_commit_interval cfg) now = 0 then FlushAgain
      else TryArm)"

text \<open>\<^verbatim>\<open>flush_namespace\<close> when no other task runs in between.\<close>

definition flush_namespace ::
  "'s s3_client \<Rightarrow> 'z ns_codec_scheme \<Rightarrow> string \<Rightarrow> buffer_state \<Rightarrow> 's \<Rightarrow>
   (unit res \<times> answer list \<times> buffer_state) \<times> 's" where
  "flush_namespace S cd ns st s =
     (case flush_drain st of
        (None, st1) \<Rightarrow>
          (case flush_empty st1 of
             (ws, st2) \<Rightarrow> ((Inr (), map (\<lambda>w. (w_tx w, Inr (empty_batch w))) ws, st2), s))
      | (Some dr, st1) \<Rightarrow>
          (case flush_commit S cd ns dr s of
             (r, s') \<Rightarrow> ((map_ok (\<lambda>_. ()) r, flush_answers (dr_waiters dr) r, st1), s')))"

text \<open>The inner loop of \<^verbatim>\<open>flush_all\<close> on one namespace; None when the fuel runs out.\<close>

fun flush_until_empty ::
  "'s s3_client \<Rightarrow> 'z ns_codec_scheme \<Rightarrow> string \<Rightarrow> nat \<Rightarrow> buffer_state \<Rightarrow> 's \<Rightarrow>
   ((unit res \<times> answer list \<times> buffer_state) \<times> 's) option" where
  "flush_until_empty S cd ns 0 st s = None"
| "flush_until_empty S cd ns (Suc fuel) st s =
     (case flush_namespace S cd ns st s of
        ((Inl e, ans, st'), s') \<Rightarrow> Some ((Inl e, ans, st'), s')
      | ((Inr _, ans, st'), s') \<Rightarrow>
          if 0 < buffer_ops st' \<or> bs_schema_patch st' \<noteq> None \<or> bs_distance_metric st' \<noteq> None
          then map_option (\<lambda>((r, ans', st''), s''). ((r, ans @ ans', st''), s''))
                 (flush_until_empty S cd ns fuel st' s')
          else Some ((Inr (), ans, st'), s'))"

definition overlay_pending_writes ::
  "'z codec_scheme \<Rightarrow> buffer_state option \<Rightarrow> docs \<Rightarrow> docs \<times> unit res" where
  "overlay_pending_writes cd buf docs =
     (case buf of
        None \<Rightarrow> (docs, Inr ())
      | Some st \<Rightarrow>
          if bs_upserts st = [] \<and> bs_patches st = [] \<and> bs_deletes st = [] then (docs, Inr ())
          else (case from_write cd (bs_upserts st) (bs_patches st) (bs_deletes st) of
                  Inl e \<Rightarrow> (docs, Inl e)
                | Inr entry \<Rightarrow> apply_entry cd docs entry))"

section \<open>Interleaving\<close>

text \<open>
  The flush task of a namespace: requested and waiting for the cooldown, committing what it
  drained, or about to run \<^verbatim>\<open>after_flush_task\<close>.  \<^verbatim>\<open>flush_running\<close> is true in all but \<open>Idle\<close>.
\<close>

datatype flush_phase = Idle | Waiting | Committing drained | Finished

record 's machine =
  mc_store :: 's
  mc_state :: buffer_state
  mc_phase :: flush_phase
  mc_last :: "nat option"
  mc_now :: nat
  mc_sleeping :: "nat list"
  mc_fresh :: nat
  mc_answers :: "answer list"

definition request_flush :: "'s machine \<Rightarrow> 's machine" where
  "request_flush m = (if mc_phase m = Idle then m\<lparr>mc_phase := Waiting\<rparr> else m)"

text \<open>\<open>write\<close> as a task: the locked section, then either the flush request or the new timer task.\<close>

definition machine_write :: "write_buffer_config \<Rightarrow> write_op \<Rightarrow> nat \<Rightarrow> 's machine \<Rightarrow> 's machine" where
  "machine_write cfg w tx m =
     (case buffer_write cfg w tx (mc_fresh m) (mc_state m) of
        (Inl e, st) \<Rightarrow> m\<lparr>mc_state := st, mc_answers := mc_answers m @ [(tx, Inl e)]\<rparr>
      | (Inr FlushNow, st) \<Rightarrow>
          request_flush (m\<lparr>mc_state := st\<lparr>bs_timer := None\<rparr>,
            mc_sleeping := (case bs_timer st of None \<Rightarrow> mc_sleeping m | Some t \<Rightarrow> remove1 t (mc_sleeping m))\<rparr>)
      | (Inr ArmTimer, st) \<Rightarrow>
          m\<lparr>mc_state := st, mc_sleeping := mc_sleeping m @ [mc_fresh m], mc_fresh := Suc (mc_fresh m)\<rparr>
      | (Inr Batched, st) \<Rightarrow> m\<lparr>mc_state := st\<rparr>)"

definition machine_fire :: "nat \<Rightarrow> 's machine \<Rightarrow> 's machine" where
  "machine_fire t m = request_flush (m\<lparr>mc_sleeping := remove1 t (mc_sleeping m)\<rparr>)"

definition machine_drain :: "'s machine \<Rightarrow> 's machine" where
  "machine_drain m =
     (case flush_drain (mc_state m) of
        (Some dr, st) \<Rightarrow> m\<lparr>mc_state := st, mc_phase := Committing dr\<rparr>
      | (None, st) \<Rightarrow>
          (case flush_empty st of
             (ws, st') \<Rightarrow>
               m\<lparr>mc_state := st', mc_phase := Finished,
                 mc_answers := mc_answers m @ map (\<lambda>w. (w_tx w, Inr (empty_batch w))) ws\<rparr>))"

definition machine_commit ::
  "'s s3_client \<Rightarrow> 'z ns_codec_scheme \<Rightarrow> string \<Rightarrow> drained \<Rightarrow> 's machine \<Rightarrow> 's machine" where
  "machine_commit S cd ns dr m =
     (case flush_commit S cd ns dr (mc_store m) of
        (r, s') \<Rightarrow>
          m\<lparr>mc_store := s', mc_phase := Finished,
            mc_last := (case r of Inr _ \<Rightarrow> Some (mc_now m) | Inl _ \<Rightarrow> mc_last m),
            mc_answers := mc_answers m @ flush_answers (dr_waiters dr) r\<rparr>)"

definition machine_after :: "write_buffer_config \<Rightarrow> 's machine \<Rightarrow> 's machine" where
  "machine_after cfg m =
     (let m1 = m\<lparr>mc_phase := Idle\<rparr> in
      case after_flush_task cfg (mc_last m) (mc_now m) (mc_state m) of
        Done \<Rightarrow> m1
      | FlushAgain \<Rightarrow> request_flush m1
      | TryArm \<Rightarrow>
          (case arm_cooldown_flush_timer (mc_fresh m) (mc_state m) of
             (False, _) \<Rightarrow> m1
           | (True, st) \<Rightarrow>
               m1\<lparr>mc_state := st, mc_sleeping := mc_sleeping m @ [mc_fresh m], mc_fresh := Suc (mc_fresh m)\<rparr>))"

datatype buf_event = EvWrite write_op nat | EvFire nat | EvDrain | EvCommit | EvAfter | EvTick nat

inductive buf_step ::
  "'s s3_client \<Rightarrow> 'z ns_codec_scheme \<Rightarrow> string \<Rightarrow> write_buffer_config \<Rightarrow> 's machine \<Rightarrow> buf_event \<Rightarrow> 's machine \<Rightarrow> bool"
  for S cd ns cfg where
  step_write: "buf_step S cd ns cfg m (EvWrite w tx) (machine_write cfg w tx m)"
| step_fire: "t \<in> set (mc_sleeping m) \<Longrightarrow> buf_step S cd ns cfg m (EvFire t) (machine_fire t m)"
| step_drain:
    "mc_phase m = Waiting \<Longrightarrow>
     remaining_commit_cooldown (mc_last m) (min_commit_interval cfg) (mc_now m) = 0 \<Longrightarrow>
     buf_step S cd ns cfg m EvDrain (machine_drain m)"
| step_commit: "mc_phase m = Committing dr \<Longrightarrow> buf_step S cd ns cfg m EvCommit (machine_commit S cd ns dr m)"
| step_after: "mc_phase m = Finished \<Longrightarrow> buf_step S cd ns cfg m EvAfter (machine_after cfg m)"
| step_tick: "buf_step S cd ns cfg m (EvTick d) (m\<lparr>mc_now := mc_now m + d\<rparr>)"

inductive buf_run ::
  "'s s3_client \<Rightarrow> 'z ns_codec_scheme \<Rightarrow> string \<Rightarrow> write_buffer_config \<Rightarrow> 's machine \<Rightarrow> buf_event list \<Rightarrow> 's machine \<Rightarrow> bool"
  for S cd ns cfg where
  run_nil: "buf_run S cd ns cfg m [] m"
| run_snoc: "buf_run S cd ns cfg m evs m' \<Longrightarrow> buf_step S cd ns cfg m' ev m'' \<Longrightarrow>
    buf_run S cd ns cfg m (evs @ [ev]) m''"

inductive_cases buf_run_emptyE: "buf_run S cd ns cfg m [] m'"

definition machine_start :: "'s \<Rightarrow> 's machine" where
  "machine_start s =
     \<lparr>mc_store = s, mc_state = empty_buffer_state, mc_phase = Idle, mc_last = None, mc_now = 0,
      mc_sleeping = [], mc_fresh = 0, mc_answers = []\<rparr>"

end
