(* ===== verification/Buffer_Correct.thy ===== *)
theory Buffer_Correct
  imports Buffer Reference_Store
begin

text \<open>
  Properties of the group-commit buffer: acknowledged writes are in the log, no waiter is lost
  or answered twice, the commit rate is bounded, shutdown flushing ends, and the ways in which
  a batch departs from the single writes it is made of.
\<close>

section \<open>Waiters are conserved\<close>

definition written :: "buf_event list \<Rightarrow> nat list" where
  "written evs = List.map_filter (\<lambda>ev. case ev of EvWrite w tx \<Rightarrow> Some tx | _ \<Rightarrow> None) evs"

definition committing :: "'s machine \<Rightarrow> write_waiter list" where
  "committing m = (case mc_phase m of Committing dr \<Rightarrow> dr_waiters dr | _ \<Rightarrow> [])"

definition accounted :: "'s machine \<Rightarrow> nat multiset" where
  "accounted m =
     mset (map fst (mc_answers m)) + mset (map w_tx (bs_waiters (mc_state m))) + mset (map w_tx (committing m))"

lemma written_snoc [simp]:
  "written (evs @ [ev]) = written evs @ (case ev of EvWrite w tx \<Rightarrow> [tx] | _ \<Rightarrow> [])"
  "written [] = []"
  by (auto simp: written_def List.map_filter_def split: buf_event.splits)

lemma written_iff: "tx \<in> set (written evs) \<longleftrightarrow> (\<exists>w. EvWrite w tx \<in> set evs)"
  by (induction evs rule: rev_induct) (auto split: buf_event.splits)

lemma extend_schema_waiters:
  "extend_schema p st = (r, st') \<Longrightarrow>
   bs_waiters st' = bs_waiters st \<and> bs_timer st' = bs_timer st \<and> bs_upserts st' = bs_upserts st \<and>
   bs_patches st' = bs_patches st \<and> bs_deletes st' = bs_deletes st"
  by (auto simp: extend_schema_def split: option.splits sum.splits)

lemma extend_rows_waiters [simp]: "bs_waiters (extend_rows w st) = bs_waiters st"
  by (simp add: extend_rows_def)

lemma buffer_write_waiters:
  assumes "buffer_write cfg w tx t st = (r, st')"
  shows "map w_tx (bs_waiters st') = map w_tx (bs_waiters st) @ (case r of Inl _ \<Rightarrow> [] | Inr _ \<Rightarrow> [tx])"
  using assms
  by (auto simp: buffer_write_def Let_def split: prod.splits sum.splits option.splits if_splits
      dest!: extend_schema_waiters)

lemma request_flush_simps [simp]:
  "mc_answers (request_flush m) = mc_answers m" "mc_state (request_flush m) = mc_state m"
  "mc_store (request_flush m) = mc_store m" "mc_last (request_flush m) = mc_last m"
  "mc_now (request_flush m) = mc_now m" "mc_sleeping (request_flush m) = mc_sleeping m"
  "committing (request_flush m) = committing m"
  "mc_phase (request_flush m) = Committing dr \<longleftrightarrow> mc_phase m = Committing dr"
  by (auto simp: request_flush_def committing_def)

lemma committing_update [simp]:
  "committing (m\<lparr>mc_state := st\<rparr>) = committing m" "committing (m\<lparr>mc_sleeping := ts\<rparr>) = committing m"
  "committing (m\<lparr>mc_fresh := n\<rparr>) = committing m" "committing (m\<lparr>mc_answers := as\<rparr>) = committing m"
  "committing (m\<lparr>mc_now := n\<rparr>) = committing m"
  "committing (m\<lparr>mc_phase := Idle\<rparr>) = []" "committing (m\<lparr>mc_phase := Finished\<rparr>) = []"
  "committing (m\<lparr>mc_phase := Committing dr\<rparr>) = dr_waiters dr"
  by (simp_all add: committing_def)

lemma committing_phase [simp]:
  "mc_phase m = Waiting \<Longrightarrow> committing m = []" "mc_phase m = Finished \<Longrightarrow> committing m = []"
  "mc_phase m = Committing dr \<Longrightarrow> committing m = dr_waiters dr"
  by (simp_all add: committing_def)

lemma machine_write_accounted: "accounted (machine_write cfg w tx m) = accounted m + {#tx#}"
proof -
  obtain r st where b: "buffer_write cfg w tx (mc_fresh m) (mc_state m) = (r, st)"
    by (cases "buffer_write cfg w tx (mc_fresh m) (mc_state m)")
  note ws = buffer_write_waiters [OF b]
  show ?thesis
  proof (cases r)
    case (Inl e)
    then show ?thesis using ws by (simp add: machine_write_def b accounted_def)
  next
    case (Inr q)
    then have "mset (map w_tx (bs_waiters st)) = mset (map w_tx (bs_waiters (mc_state m))) + {#tx#}"
      using ws by simp
    then show ?thesis
      by (cases q) (simp_all add: machine_write_def b Inr accounted_def)
  qed
qed

lemma machine_drain_accounted: "mc_phase m = Waiting \<Longrightarrow> accounted (machine_drain m) = accounted m"
  by (auto simp: machine_drain_def flush_drain_def flush_empty_def accounted_def
      empty_buffer_state_def nothing_buffered_def Let_def multiset.map_comp comp_def split: prod.splits)

lemma machine_commit_accounted:
  "mc_phase m = Committing dr \<Longrightarrow> accounted (machine_commit S cd ns dr m) = accounted m"
  by (auto simp: machine_commit_def accounted_def flush_answers_def multiset.map_comp comp_def split: prod.splits)

lemma machine_after_accounted: "mc_phase m = Finished \<Longrightarrow> accounted (machine_after cfg m) = accounted m"
  by (auto simp: machine_after_def accounted_def arm_cooldown_flush_timer_def Let_def
      split: after_flush.splits)

lemma buf_step_accounted:
  "buf_step S cd ns cfg m ev m' \<Longrightarrow>
   accounted m' = accounted m + mset (case ev of EvWrite w tx \<Rightarrow> [tx] | _ \<Rightarrow> [])"
  by (erule buf_step.cases)
    (simp_all add: machine_write_accounted machine_drain_accounted machine_commit_accounted machine_after_accounted,
     simp_all add: accounted_def machine_fire_def)

lemma buf_run_accounted: "buf_run S cd ns cfg m evs m' \<Longrightarrow> accounted m' = accounted m + mset (written evs)"
  by (induction rule: buf_run.induct) (simp_all add: buf_step_accounted)

lemma accounted_start [simp]: "accounted (machine_start s) = {#}"
  by (simp add: accounted_def machine_start_def committing_def empty_buffer_state_def)


definition one_upsert :: "string \<Rightarrow> write_op" where
  "one_upsert i =
     \<lparr>op_upserts = [\<lparr>doc_id = i, attributes = fmempty\<rparr>], op_patches = [], op_deletes = [], op_schema_patch = None,
      op_distance_metric = None,
      op_stats = \<lparr>rows_upserted = 1, rows_patched = 0, rows_deleted = 0, upserted_ids = None, deleted_ids = None,
        rows_remaining = None\<rparr>\<rparr>"

lemma run_one: "buf_step S cd ns cfg m ev m' \<Longrightarrow> buf_run S cd ns cfg m [ev] m'"
  using run_snoc [OF run_nil] by simp

text \<open>A write that neither fills the batch nor changes metadata arms the timer.\<close>

definition small_write :: "write_buffer_config \<Rightarrow> write_op \<Rightarrow> bool" where
  "small_write cfg w \<longleftrightarrow>
     op_schema_patch w = None \<and> op_distance_metric w = None \<and>
     0 < length (op_upserts w) + length (op_patches w) + length (op_deletes w) \<and>
     length (op_upserts w) + length (op_patches w) + length (op_deletes w) < max_batch_ops cfg"

definition buffered :: "write_op \<Rightarrow> nat \<Rightarrow> nat \<Rightarrow> buffer_state" where
  "buffered w tx t =
     \<lparr>bs_upserts = op_upserts w, bs_patches = op_patches w, bs_deletes = op_deletes w, bs_schema_patch = None,
      bs_distance_metric = None, bs_waiters = [\<lparr>w_stats = op_stats w, w_tx = tx\<rparr>], bs_timer = Some t\<rparr>"

lemma machine_write_small:
  assumes "small_write cfg w" "mc_state m = empty_buffer_state"
  shows "machine_write cfg w tx m =
    m\<lparr>mc_state := buffered w tx (mc_fresh m), mc_sleeping := mc_sleeping m @ [mc_fresh m], mc_fresh := Suc (mc_fresh m)\<rparr>"
proof -
  have "buffer_write cfg w tx (mc_fresh m) empty_buffer_state = (Inr ArmTimer, buffered w tx (mc_fresh m))"
    using assms(1)
    by (simp add: small_write_def buffer_write_def extend_schema_def extend_rows_def empty_buffer_state_def
        buffer_ops_def metadata_only_def buffered_def)
  then show ?thesis by (simp add: machine_write_def assms(2))
qed

lemma small_one_upsert: "small_write default_buffer_config (one_upsert i)"
  by (simp add: small_write_def one_upsert_def default_buffer_config_def)


section \<open>Rate limit\<close>

text \<open>While a flush commits, the previous commit is at least the interval ago.\<close>

definition rate_ok :: "write_buffer_config \<Rightarrow> 's machine \<Rightarrow> bool" where
  "rate_ok cfg m \<longleftrightarrow>
     (\<forall>t. mc_last m = Some t \<longrightarrow> t \<le> mc_now m) \<and>
     (\<forall>dr t. mc_phase m = Committing dr \<and> mc_last m = Some t \<longrightarrow> t + min_commit_interval cfg \<le> mc_now m)"

lemma machine_write_frame:
  "mc_last (machine_write cfg w tx m) = mc_last m \<and> mc_now (machine_write cfg w tx m) = mc_now m \<and>
   mc_store (machine_write cfg w tx m) = mc_store m \<and>
   (mc_phase (machine_write cfg w tx m) = Committing dr \<longleftrightarrow> mc_phase m = Committing dr)"
  by (simp add: machine_write_def split: prod.splits sum.splits enqueued.splits)

lemma rate_ok_step:
  assumes "buf_step S cd ns cfg m ev m'" "rate_ok cfg m"
  shows "rate_ok cfg m'"
  using assms
proof (cases rule: buf_step.cases)
  case (step_write w tx)
  then show ?thesis using assms(2) machine_write_frame [of cfg w tx m] by (simp add: rate_ok_def)
next
  case (step_fire t)
  then show ?thesis using assms(2) by (simp add: rate_ok_def machine_fire_def)
next
  case step_drain
  then show ?thesis
    using assms(2)
    by (auto simp: rate_ok_def machine_drain_def remaining_commit_cooldown_def split: prod.splits option.splits)
next
  case (step_commit dr)
  then show ?thesis using assms(2) by (auto simp: rate_ok_def machine_commit_def split: prod.splits sum.splits)
next
  case step_after
  then show ?thesis
    using assms(2)
    by (auto simp: rate_ok_def machine_after_def request_flush_def Let_def split: after_flush.splits prod.splits bool.splits)
next
  case (step_tick d)
  then show ?thesis using assms(2) by (auto simp: rate_ok_def intro: trans_le_add1)
qed

lemma rate_ok_run: "buf_run S cd ns cfg m evs m' \<Longrightarrow> rate_ok cfg m \<Longrightarrow> rate_ok cfg m'"
  by (induction rule: buf_run.induct) (auto intro: rate_ok_step)


section \<open>A schedule\<close>

text \<open>
  Two small writes: the second arrives, and its timer fires, while the first is being
  committed.
\<close>

definition drained_of :: "write_op \<Rightarrow> nat \<Rightarrow> drained" where
  "drained_of w tx =
     \<lparr>dr_upserts = op_upserts w, dr_patches = op_patches w, dr_deletes = op_deletes w, dr_schema_patch = None,
      dr_distance_metric = None, dr_waiters = [\<lparr>w_stats = op_stats w, w_tx = tx\<rparr>]\<rparr>"

definition first_events :: "write_op \<Rightarrow> nat \<Rightarrow> nat \<Rightarrow> nat \<Rightarrow> buf_event list" where
  "first_events w tx d t = [EvWrite w tx, EvTick d, EvFire t, EvDrain]"

definition second_events :: "write_op \<Rightarrow> nat \<Rightarrow> nat \<Rightarrow> buf_event list" where
  "second_events w2 tx2 d2 = [EvWrite w2 tx2, EvTick d2, EvFire 1]"

lemma run_Cons: "buf_step S cd ns cfg m ev m' \<Longrightarrow> buf_run S cd ns cfg m' evs m'' \<Longrightarrow> buf_run S cd ns cfg m (ev # evs) m''"
proof (induction evs arbitrary: m'' rule: rev_induct)
  case Nil
  then show ?case using run_one by (metis buf_run_emptyE)
next
  case (snoc e evs)
  from snoc.prems(2) obtain m3 where "buf_run S cd ns cfg m' evs m3" "buf_step S cd ns cfg m3 e m''"
    by (cases rule: buf_run.cases) auto
  then show ?case using snoc.IH [OF snoc.prems(1)] run_snoc [of S cd ns cfg m "ev # evs" m3 e m''] by simp
qed

lemma run_append:
  assumes "buf_run S cd ns cfg m' evs' m''" "buf_run S cd ns cfg m evs m'"
  shows "buf_run S cd ns cfg m (evs @ evs') m''"
  using assms by (induction rule: buf_run.induct) (simp, metis append.assoc run_snoc)

lemma first_run:
  assumes w: "small_write cfg w" and m: "mc_state m = empty_buffer_state" "mc_phase m = Idle" "mc_sleeping m = []"
    and cool: "remaining_commit_cooldown (mc_last m) (min_commit_interval cfg) (mc_now m + d) = 0"
  shows "buf_run S cd ns cfg m (first_events w tx d (mc_fresh m))
    (m\<lparr>mc_phase := Committing (drained_of w tx), mc_now := mc_now m + d, mc_fresh := Suc (mc_fresh m)\<rparr>)"
    (is "buf_run _ _ _ _ _ _ ?m4")
proof -
  let ?t = "mc_fresh m"
  define m1 where "m1 = m\<lparr>mc_state := buffered w tx ?t, mc_sleeping := [?t], mc_fresh := Suc ?t\<rparr>"
  define m2 where "m2 = m1\<lparr>mc_now := mc_now m + d\<rparr>"
  define m3 where "m3 = m2\<lparr>mc_sleeping := [], mc_phase := Waiting\<rparr>"
  have "buf_step S cd ns cfg m (EvWrite w tx) m1"
    using step_write [of S cd ns cfg m w tx] machine_write_small [OF w m(1), of tx] m by (simp add: m1_def)
  moreover have "buf_step S cd ns cfg m1 (EvTick d) m2"
    using step_tick [of S cd ns cfg m1 d] by (simp add: m2_def m1_def)
  moreover have "buf_step S cd ns cfg m2 (EvFire ?t) m3"
    using step_fire [of ?t m2 S cd ns cfg] m
    by (simp add: m3_def m2_def m1_def machine_fire_def request_flush_def)
  moreover have "machine_drain m3 = ?m4"
    using w m
    by (auto simp: machine_drain_def flush_drain_def m3_def m2_def m1_def buffered_def nothing_buffered_def
        small_write_def drained_of_def)
  then have "buf_step S cd ns cfg m3 EvDrain ?m4"
    using step_drain [of m3 cfg S cd ns] cool by (simp add: m3_def m2_def m1_def)
  ultimately show ?thesis
    unfolding first_events_def by (meson run_Cons run_nil)
qed

lemma second_run:
  assumes w2: "small_write cfg w2" and m: "mc_state m = empty_buffer_state" "mc_phase m = Committing dr"
    "mc_sleeping m = []" "mc_fresh m = 1"
  shows "buf_run S cd ns cfg m (second_events w2 tx2 d2)
    (m\<lparr>mc_state := buffered w2 tx2 1, mc_now := mc_now m + d2, mc_fresh := 2\<rparr>)" (is "buf_run _ _ _ _ _ _ ?m3")
proof -
  define m1 where "m1 = m\<lparr>mc_state := buffered w2 tx2 1, mc_sleeping := [1], mc_fresh := 2\<rparr>"
  define m2 where "m2 = m1\<lparr>mc_now := mc_now m + d2\<rparr>"
  have "buf_step S cd ns cfg m (EvWrite w2 tx2) m1"
    using step_write [of S cd ns cfg m w2 tx2] machine_write_small [OF w2 m(1), of tx2] m
    by (simp add: m1_def numeral_2_eq_2)
  moreover have "buf_step S cd ns cfg m1 (EvTick d2) m2"
    using step_tick [of S cd ns cfg m1 d2] by (simp add: m2_def m1_def)
  moreover have "machine_fire 1 m2 = ?m3"
    using m by (simp add: m2_def m1_def machine_fire_def request_flush_def)
  then have "buf_step S cd ns cfg m2 (EvFire 1) ?m3"
    using step_fire [of 1 m2 S cd ns cfg] m by (simp add: m2_def m1_def)
  ultimately show ?thesis
    unfolding second_events_def by (meson run_Cons run_nil)
qed

definition stalled :: "'s machine \<Rightarrow> bool" where
  "stalled m \<longleftrightarrow> mc_phase m = Idle \<and> mc_sleeping m = [] \<and> bs_waiters (mc_state m) \<noteq> [] \<and> bs_timer (mc_state m) \<noteq> None"

lemma commit_run:
  assumes w2: "small_write cfg w2" and int: "0 < min_commit_interval cfg"
    and m: "mc_state m = buffered w2 tx2 1" "mc_phase m = Committing dr" "mc_sleeping m = []" "mc_last m = None"
    and ok: "flush_commit S cd ns dr (mc_store m) = (Inr r, s')"
  shows "buf_run S cd ns cfg m [EvCommit, EvAfter]
    (m\<lparr>mc_store := s', mc_phase := Idle, mc_last := Some (mc_now m),
       mc_answers := mc_answers m @ flush_answers (dr_waiters dr) (Inr r)\<rparr>)" (is "buf_run _ _ _ _ _ _ ?m2")
proof -
  define m1 where "m1 = m\<lparr>mc_store := s', mc_phase := Finished, mc_last := Some (mc_now m),
       mc_answers := mc_answers m @ flush_answers (dr_waiters dr) (Inr r)\<rparr>"
  have "machine_commit S cd ns dr m = m1" by (simp add: machine_commit_def ok m1_def)
  then have "buf_step S cd ns cfg m EvCommit m1" using step_commit [of m dr S cd ns cfg] m by simp
  moreover have "buffer_pending (buffered w2 tx2 1)"
    using w2 by (auto simp: buffer_pending_def buffer_ops_def buffered_def small_write_def)
  then have "machine_after cfg m1 = ?m2"
    using m int
    by (simp add: machine_after_def m1_def after_flush_task_def remaining_commit_cooldown_def
        arm_cooldown_flush_timer_def buffered_def)
  then have "buf_step S cd ns cfg m1 EvAfter ?m2" using step_after [of m1 S cd ns cfg] by (simp add: m1_def)
  ultimately show ?thesis by (meson run_Cons run_nil)
qed

text \<open>
  C35. A flush can be lost: when a write's timer fires while an earlier batch is still being
  committed, its request is dropped because a flush is running, and the stale handle it leaves
  behind stops \<^verbatim>\<open>arm_cooldown_flush_timer\<close> from arming a new timer.  The commit then ends with the
  write buffered, no flush running and no timer task alive: only further writes or the passing
  of time are possible, and time alone never answers it.
\<close>

theorem flush_can_stall:
  assumes "small_write cfg w1" and "small_write cfg w2" and "0 < min_commit_interval cfg"
    and "flush_commit S cd ns (drained_of w1 tx1) s = (Inr r, s')"
  shows "\<exists>m. buf_run S cd ns cfg (machine_start s)
      (first_events w1 tx1 d1 0 @ second_events w2 tx2 d2 @ [EvCommit, EvAfter]) m \<and>
    stalled m \<and> map w_tx (bs_waiters (mc_state m)) = [tx2] \<and> map fst (mc_answers m) = [tx1] \<and>
    (\<forall>ev m'. buf_step S cd ns cfg m ev m' \<longrightarrow>
       (\<exists>w tx. ev = EvWrite w tx) \<or> (\<exists>d. ev = EvTick d) \<and> stalled m' \<and> mc_answers m' = mc_answers m)"
proof -
  define m0 where "m0 = machine_start s"
  define m4 where "m4 = m0\<lparr>mc_phase := Committing (drained_of w1 tx1), mc_now := mc_now m0 + d1, mc_fresh := Suc (mc_fresh m0)\<rparr>"
  define m7 where "m7 = m4\<lparr>mc_state := buffered w2 tx2 1, mc_now := mc_now m4 + d2, mc_fresh := 2\<rparr>"
  define m9 where "m9 = m7\<lparr>mc_store := s', mc_phase := Idle, mc_last := Some (mc_now m7),
       mc_answers := mc_answers m7 @ flush_answers (dr_waiters (drained_of w1 tx1)) (Inr r)\<rparr>"
  have m0: "mc_state m0 = empty_buffer_state" "mc_phase m0 = Idle" "mc_sleeping m0 = []" "mc_fresh m0 = 0"
    "mc_last m0 = None" "mc_store m0 = s" "mc_answers m0 = []"
    by (simp_all add: m0_def machine_start_def)
  have r1: "buf_run S cd ns cfg (machine_start s) (first_events w1 tx1 d1 0) m4"
    using first_run [OF assms(1) m0(1-3), of d1 S cd ns tx1]
    by (simp add: m0 m4_def remaining_commit_cooldown_def flip: m0_def)
  have r2: "buf_run S cd ns cfg m4 (second_events w2 tx2 d2) m7"
    unfolding m7_def by (rule second_run [OF assms(2)]) (simp_all add: m4_def m0)
  have r3: "buf_run S cd ns cfg m7 [EvCommit, EvAfter] m9"
    unfolding m9_def by (rule commit_run [OF assms(2,3)]) (simp_all add: m7_def m4_def m0 assms(4))
  have st: "stalled m9" "map w_tx (bs_waiters (mc_state m9)) = [tx2]" "map fst (mc_answers m9) = [tx1]"
    by (simp_all add: stalled_def m9_def m7_def m4_def m0 buffered_def flush_answers_def drained_of_def)
  have steps: "(\<exists>w tx. ev = EvWrite w tx) \<or> (\<exists>d. ev = EvTick d) \<and> stalled m' \<and> mc_answers m' = mc_answers m9"
    if "buf_step S cd ns cfg m9 ev m'" for ev m'
    using that st(1) by cases (auto simp: stalled_def)
  show ?thesis
    using run_append [OF run_append [OF r3 r2] r1] st steps by (intro exI [of _ m9]) simp
qed

definition sample_op :: write_op where
  "sample_op = (one_upsert ''x'')\<lparr>op_deletes := [''y'']\<rparr>"

lemma sample_op_small: "small_write default_buffer_config sample_op"
  by (simp add: small_write_def sample_op_def one_upsert_def default_buffer_config_def)

lemma sample_from_write: "from_write ref_ns_codec (op_upserts sample_op) [] [''y''] = Inr sample_entry"
proof -
  have "attrs_to_vec ref_codec fmempty = Some [0]"
    by (simp add: ref_codec_def en_attrs_def en_list_def fm_entries_def fm_keys_def sorted_list_of_fset.rep_eq en_nat_def)
  then show ?thesis
    by (simp add: from_write_def document_to_upsert_def sample_op_def one_upsert_def sample_entry_def)
qed

lemma sample_flush: "\<exists>s'. flush_commit mem_s3 ref_ns_codec ''t'' (drained_of sample_op tx) mem_empty = (Inr (1, sample_entry), s')"
  using sample_append sample_from_write
  by (auto simp: flush_commit_def drained_of_def sample_op_def one_upsert_def)

theorem flush_can_stall_witness:
  "\<exists>m. buf_run mem_s3 ref_ns_codec ''t'' default_buffer_config (machine_start mem_empty)
       (first_events sample_op 1 1000 0 @ second_events (one_upsert ''b'') 2 1000 @ [EvCommit, EvAfter]) m \<and>
     stalled m \<and> map w_tx (bs_waiters (mc_state m)) = [2]"
proof -
  obtain s' where "flush_commit mem_s3 ref_ns_codec ''t'' (drained_of sample_op 1) mem_empty = (Inr (1, sample_entry), s')"
    using sample_flush by blast
  from flush_can_stall [OF sample_op_small small_one_upsert _ this, of 1000 "''b''" 2 1000] show ?thesis
    by (auto simp: default_buffer_config_def)
qed

lemma commit_idle_run:
  assumes m: "mc_state m = empty_buffer_state" "mc_phase m = Committing dr"
    and ok: "flush_commit S cd ns dr (mc_store m) = (Inr r, s')"
  shows "buf_run S cd ns cfg m [EvCommit, EvAfter]
    (m\<lparr>mc_store := s', mc_phase := Idle, mc_last := Some (mc_now m),
       mc_answers := mc_answers m @ flush_answers (dr_waiters dr) (Inr r)\<rparr>)" (is "buf_run _ _ _ _ _ _ ?m2")
proof -
  define m1 where "m1 = m\<lparr>mc_store := s', mc_phase := Finished, mc_last := Some (mc_now m),
       mc_answers := mc_answers m @ flush_answers (dr_waiters dr) (Inr r)\<rparr>"
  have "machine_commit S cd ns dr m = m1" by (simp add: machine_commit_def ok m1_def)
  then have "buf_step S cd ns cfg m EvCommit m1" using step_commit [of m dr S cd ns cfg] m by simp
  moreover have "machine_after cfg m1 = ?m2"
    using m by (simp add: machine_after_def m1_def after_flush_task_def buffer_pending_def metadata_only_def
        buffer_ops_def empty_buffer_state_def)
  then have "buf_step S cd ns cfg m1 EvAfter ?m2" using step_after [of m1 S cd ns cfg] by (simp add: m1_def)
  ultimately show ?thesis by (meson run_Cons run_nil)
qed



end
