(* ===== verification/Buffer_Log.thy ===== *)
theory Buffer_Log
  imports Buffer_Correct
begin

text \<open>
  The buffer against the committed log: what an acknowledgement means, what a batch does to
  the documents, and how that compares with applying the writes one by one.
\<close>

section \<open>Acknowledged writes\<close>

definition covers :: "write_op \<Rightarrow> document list \<Rightarrow> document list \<Rightarrow> string list \<Rightarrow> bool" where
  "covers w ups pats dels \<longleftrightarrow>
     set (op_upserts w) \<subseteq> set ups \<and> set (op_patches w) \<subseteq> set pats \<and> set (op_deletes w) \<subseteq> set dels"

definition acked :: "batch list \<Rightarrow> write_op \<Rightarrow> committed_batch \<Rightarrow> bool" where
  "acked log w b \<longleftrightarrow>
     (if cb_seq b = 0 then op_upserts w = [] \<and> op_patches w = [] \<and> op_deletes w = []
      else cb_seq b \<le> length log \<and>
        (let x = log ! (cb_seq b - 1) in covers w (b_upserts x) (b_patches x) (b_deletes x)))"

definition tracked :: "'s machine \<Rightarrow> batch list \<Rightarrow> write_op \<Rightarrow> nat \<Rightarrow> bool" where
  "tracked m log w tx \<longleftrightarrow>
     (tx \<in> w_tx ` set (bs_waiters (mc_state m)) \<longrightarrow>
        covers w (bs_upserts (mc_state m)) (bs_patches (mc_state m)) (bs_deletes (mc_state m))) \<and>
     (\<forall>dr. mc_phase m = Committing dr \<and> tx \<in> w_tx ` set (dr_waiters dr) \<longrightarrow>
        covers w (dr_upserts dr) (dr_patches dr) (dr_deletes dr)) \<and>
     (\<forall>b. (tx, Inr b) \<in> set (mc_answers m) \<longrightarrow> acked log w b)"

lemma acked_append: "acked log w b \<Longrightarrow> acked (log @ log') w b"
  by (auto simp: acked_def nth_append Let_def split: if_splits)

lemma tracked_append: "tracked m log w tx \<Longrightarrow> tracked m (log @ log') w tx"
  by (auto simp: tracked_def intro: acked_append)

lemma covers_extend: "covers w u p d \<Longrightarrow> covers w (u @ u') (p @ p') (d @ d')"
  by (auto simp: covers_def)

lemma buffer_write_rows:
  assumes "buffer_write cfg w tx t st = (r, st')"
  shows "bs_upserts st' = bs_upserts st @ op_upserts w \<and> bs_patches st' = bs_patches st @ op_patches w \<and>
    bs_deletes st' = bs_deletes st @ op_deletes w"
proof -
  obtain r1 st1 where e: "extend_schema (op_schema_patch w) (extend_rows w st) = (r1, st1)"
    by (cases "extend_schema (op_schema_patch w) (extend_rows w st)")
  have "bs_upserts st' = bs_upserts st1 \<and> bs_patches st' = bs_patches st1 \<and> bs_deletes st' = bs_deletes st1"
    using assms e by (auto simp: buffer_write_def Let_def split: sum.splits option.splits if_splits)
  then show ?thesis using extend_schema_waiters [OF e] by (simp add: extend_rows_def)
qed

lemma buffer_write_waiter_set:
  assumes "buffer_write cfg w tx t st = (r, st')"
  shows "w_tx ` set (bs_waiters st') = w_tx ` set (bs_waiters st) \<union> (case r of Inl _ \<Rightarrow> {} | Inr _ \<Rightarrow> {tx})"
proof -
  have "set (map w_tx (bs_waiters st')) = set (map w_tx (bs_waiters st) @ (case r of Inl _ \<Rightarrow> [] | Inr _ \<Rightarrow> [tx]))"
    using buffer_write_waiters [OF assms] by simp
  then show ?thesis by (simp split: sum.splits)
qed

lemma machine_write_state:
  assumes "buffer_write cfg w tx (mc_fresh m) (mc_state m) = (r, st)"
  shows "mc_answers (machine_write cfg w tx m) = mc_answers m @ (case r of Inl e \<Rightarrow> [(tx, Inl e)] | Inr _ \<Rightarrow> []) \<and>
    (\<exists>t. mc_state (machine_write cfg w tx m) = st\<lparr>bs_timer := t\<rparr>)"
proof -
  have "\<exists>t. st = st\<lparr>bs_timer := t\<rparr>" by (rule exI [of _ "bs_timer st"]) simp
  then show ?thesis using assms by (auto simp: machine_write_def split: sum.splits enqueued.splits)
qed

lemma tracked_write_old:
  assumes "tracked m log w tx" "tx' \<noteq> tx"
  shows "tracked (machine_write cfg w' tx' m) log w tx"
proof -
  obtain r st where b: "buffer_write cfg w' tx' (mc_fresh m) (mc_state m) = (r, st)"
    by (cases "buffer_write cfg w' tx' (mc_fresh m) (mc_state m)")
  obtain t where s: "mc_state (machine_write cfg w' tx' m) = st\<lparr>bs_timer := t\<rparr>"
    "mc_answers (machine_write cfg w' tx' m) = mc_answers m @ (case r of Inl e \<Rightarrow> [(tx', Inl e)] | Inr _ \<Rightarrow> [])"
    using machine_write_state [OF b] by blast
  show ?thesis
    using assms buffer_write_waiter_set [OF b] machine_write_frame [of cfg w' tx' m] buffer_write_rows [OF b]
    by (auto simp: tracked_def s intro: covers_extend split: sum.splits)
qed

lemma tracked_write_new:
  assumes "tx \<notin> set (map fst (mc_answers m))" "tx \<notin> w_tx ` set (committing m)"
  shows "tracked (machine_write cfg w tx m) log w tx"
proof -
  obtain r st where b: "buffer_write cfg w tx (mc_fresh m) (mc_state m) = (r, st)"
    by (cases "buffer_write cfg w tx (mc_fresh m) (mc_state m)")
  obtain t where s: "mc_state (machine_write cfg w tx m) = st\<lparr>bs_timer := t\<rparr>"
    "mc_answers (machine_write cfg w tx m) = mc_answers m @ (case r of Inl e \<Rightarrow> [(tx, Inl e)] | Inr _ \<Rightarrow> [])"
    using machine_write_state [OF b] by blast
  have "(tx, Inr x) \<notin> set (mc_answers (machine_write cfg w tx m))" for x
    using assms(1) s by (force split: sum.splits)
  moreover have "tx \<notin> w_tx ` set (dr_waiters dr)" if "mc_phase (machine_write cfg w tx m) = Committing dr" for dr
    using that assms(2) machine_write_frame [of cfg w tx m dr] by simp
  ultimately show ?thesis
    using buffer_write_rows [OF b] by (auto simp: tracked_def s covers_def)
qed

lemma acked_empty: "covers w [] [] [] \<Longrightarrow> acked log w (empty_batch x)"
  by (simp add: acked_def covers_def empty_batch_def)

lemma tracked_drain:
  assumes "tracked m log w tx" "mc_phase m = Waiting"
  shows "tracked (machine_drain m) log w tx"
proof (cases "nothing_buffered (mc_state m)")
  case True
  then show ?thesis
    using assms
    by (auto simp: tracked_def machine_drain_def flush_drain_def flush_empty_def nothing_buffered_def Let_def
        intro: acked_empty)
next
  case False
  then show ?thesis
    using assms by (auto simp: tracked_def machine_drain_def flush_drain_def empty_buffer_state_def)
qed

lemma tracked_after: "tracked m log w tx \<Longrightarrow> tracked (machine_after cfg m) log w tx"
  by (auto simp: tracked_def machine_after_def request_flush_def arm_cooldown_flush_timer_def Let_def
      split: after_flush.splits)

lemma tracked_commit:
  assumes t: "tracked m log w tx" and ph: "mc_phase m = Committing dr"
    and r: "flush_commit S cd ns dr (mc_store m) = (r, s')"
    and ok: "\<And>q e. r = Inr (q, e) \<Longrightarrow> q = Suc (length log) \<and>
      log' = [\<lparr>b_upserts = dr_upserts dr, b_patches = dr_patches dr, b_deletes = dr_deletes dr\<rparr>]"
  shows "tracked (machine_commit S cd ns dr m) (log @ log') w tx"
proof -
  have "acked (log @ log') w b" if ans: "(tx, Inr b) \<in> set (flush_answers (dr_waiters dr) r)" for b
  proof -
    obtain x q e where x: "x \<in> set (dr_waiters dr)" "tx = w_tx x" "r = Inr (q, e)" "cb_seq b = q"
      using ans by (auto simp: flush_answers_def eq_commute [of "Inr b"])
    then have "covers w (dr_upserts dr) (dr_patches dr) (dr_deletes dr)"
      using t ph by (auto simp: tracked_def)
    then show ?thesis using ok [OF x(3)] x(4) by (simp add: acked_def)
  qed
  then show ?thesis
    using t ph r by (auto simp: tracked_def machine_commit_def intro: acked_append)
qed

context ns_store
begin

lemma flush_commit_log:
  assumes "ns_rep cd (objs s) ns mt p log" "length log < u64_max" "flush_commit S cd ns dr s = (r, s')"
  shows "\<exists>mt' log'. ns_rep cd (objs s') ns mt' p (log @ log') \<and> length log' \<le> 1 \<and>
    (\<forall>q e. r = Inr (q, e) \<longrightarrow> q = Suc (length log) \<and> from_write cd (dr_upserts dr) (dr_patches dr) (dr_deletes dr) = Inr e \<and>
       log' = [\<lparr>b_upserts = dr_upserts dr, b_patches = dr_patches dr, b_deletes = dr_deletes dr\<rparr>])"
proof (cases "from_write cd (dr_upserts dr) (dr_patches dr) (dr_deletes dr)")
  case (Inl e)
  then have "s' = s" "r = Inl e" using assms(3) by (simp_all add: flush_commit_def)
  then show ?thesis using assms(1) by (intro exI [of _ mt] exI [of _ "[]"]) simp
next
  case (Inr e)
  let ?b = "\<lparr>b_upserts = dr_upserts dr, b_patches = dr_patches dr, b_deletes = dr_deletes dr\<rparr>"
  obtain ar s1 where a: "append_wal S cd ns e (dr_schema_patch dr) (dr_distance_metric dr) s = (ar, s1)"
    by (cases "append_wal S cd ns e (dr_schema_patch dr) (dr_distance_metric dr) s")
  have s1: "s1 = s'" and res: "r = (case ar of Inl x \<Rightarrow> Inl x | Inr q \<Rightarrow> Inr (q, e))"
    using assms(3) Inr a by (auto simp: flush_commit_def split: sum.splits)
  note out = append_attempts_log [OF assms(1,2) from_write_decodes [OF Inr] a [unfolded append_wal_def]]
  show ?thesis
  proof (cases "ns_rep cd (objs s') ns mt p log \<and> isl ar")
    case True
    then show ?thesis using res by (intro exI [of _ mt] exI [of _ "[]"]) (auto split: sum.splits)
  next
    case False
    then obtain mt' where "ns_rep cd (objs s') ns mt' p (log @ [?b])"
      using out s1 by (auto simp: appended_def split: sum.splits)
    then show ?thesis
      using out res Inr by (intro exI [of _ mt'] exI [of _ "[?b]"]) (auto split: sum.splits)
  qed
qed

lemma buf_run_tracked:
  assumes "buf_run S cd ns cfg m0 evs m" "m0 = machine_start s" "ns_rep cd (objs s) ns mt p log0"
    "distinct (written evs)" "length log0 + length evs < u64_max"
  shows "\<exists>mt' log. ns_rep cd (objs (mc_store m)) ns mt' p (log0 @ log) \<and> length log \<le> length evs \<and>
    (\<forall>w tx. EvWrite w tx \<in> set evs \<longrightarrow> tracked m (log0 @ log) w tx)"
  using assms
proof (induction rule: buf_run.induct)
  case (run_nil m)
  then show ?case by (intro exI [of _ mt] exI [of _ "[]"]) (simp add: machine_start_def)
next
  case (run_snoc m evs m' ev m'')
  have "distinct (written evs)" using run_snoc.prems(3) by (simp split: buf_event.splits)
  then obtain mt' log where rep: "ns_rep cd (objs (mc_store m')) ns mt' p (log0 @ log)" "length log \<le> length evs"
    and tr: "\<And>w tx. EvWrite w tx \<in> set evs \<Longrightarrow> tracked m' (log0 @ log) w tx"
    using run_snoc.IH [OF run_snoc.prems(1,2)] run_snoc.prems(4) by auto
  have acc: "accounted m' = mset (written evs)"
    using buf_run_accounted [OF run_snoc.hyps(1)] run_snoc.prems(1) by simp
  show ?case
  proof (cases "\<exists>dr. mc_phase m' = Committing dr \<and> ev = EvCommit")
    case True
    then obtain dr where dr: "mc_phase m' = Committing dr" "ev = EvCommit" by blast
    then have m'': "m'' = machine_commit S cd ns dr m'" using run_snoc.hyps(2) by (auto elim: buf_step.cases)
    obtain r s' where fc: "flush_commit S cd ns dr (mc_store m') = (r, s')"
      by (cases "flush_commit S cd ns dr (mc_store m')")
    have lt: "length (log0 @ log) < u64_max" using rep(2) run_snoc.prems(4) by simp
    obtain mt'' log' where l: "ns_rep cd (objs s') ns mt'' p ((log0 @ log) @ log')" "length log' \<le> 1"
      "\<And>q e. r = Inr (q, e) \<Longrightarrow> q = Suc (length (log0 @ log)) \<and>
         log' = [\<lparr>b_upserts = dr_upserts dr, b_patches = dr_patches dr, b_deletes = dr_deletes dr\<rparr>]"
      using flush_commit_log [OF rep(1) lt fc] by blast
    have "tracked m'' ((log0 @ log) @ log') w tx" if "EvWrite w tx \<in> set (evs @ [ev])" for w tx
      unfolding m'' by (rule tracked_commit [OF tr dr(1) fc l(3)]) (use that dr in auto)
    moreover have "mc_store m'' = s'" by (simp add: m'' machine_commit_def fc)
    ultimately show ?thesis
      using l(1,2) rep(2) by (intro exI [of _ mt''] exI [of _ "log @ log'"]) simp
  next
    case False
    from run_snoc.hyps(2) have fr: "mc_store m'' = mc_store m'"
      by (cases rule: buf_step.cases, use False machine_write_frame [of cfg _ _ m'] in
          \<open>auto simp: machine_fire_def machine_drain_def machine_after_def Let_def
             split: prod.splits after_flush.splits option.splits bool.splits\<close>)
    have "tracked m'' (log0 @ log) w tx" if ev: "EvWrite w tx \<in> set (evs @ [ev])" for w tx
      using run_snoc.hyps(2)
    proof (cases rule: buf_step.cases)
      case (step_write w' tx')
      have fresh: "tx' \<notin># accounted m'" using run_snoc.prems(3) step_write acc by simp
      show ?thesis
      proof (cases "EvWrite w tx \<in> set evs")
        case True
        then have "tx \<in># accounted m'" using acc by (auto simp: written_iff)
        then have "tx' \<noteq> tx" using fresh by auto
        then show ?thesis using tracked_write_old [OF tr [OF True]] step_write by simp
      next
        case new: False
        then have "w = w'" "tx = tx'" using ev step_write by auto
        then show ?thesis using tracked_write_new [of tx' m'] fresh step_write by (auto simp: accounted_def)
      qed
    next
      case (step_fire t)
      then show ?thesis using tr [of w tx] ev by (auto simp: tracked_def machine_fire_def)
    next
      case step_drain
      then show ?thesis using tracked_drain [OF tr [of w tx]] ev by auto
    next
      case (step_commit dr)
      then show ?thesis using False by blast
    next
      case step_after
      then show ?thesis using tracked_after [OF tr [of w tx]] ev by auto
    next
      case (step_tick d)
      then show ?thesis using tr [of w tx] ev by (auto simp: tracked_def)
    qed
    then show ?thesis using rep fr by (intro exI [of _ mt'] exI [of _ log]) simp
  qed
qed

end



section \<open>Shutdown\<close>

lemma flush_namespace_outcome:
  "\<exists>r ans st' s'. flush_namespace S cd ns st s = ((r, ans, st'), s') \<and> nothing_buffered st' \<and>
     bs_waiters st' = [] \<and> map fst ans = map w_tx (bs_waiters st)"
proof (cases "nothing_buffered st")
  case True
  then show ?thesis
    by (simp add: flush_namespace_def flush_drain_def flush_empty_def nothing_buffered_def Let_def comp_def)
next
  case False
  then obtain dr where "flush_drain st = (Some dr, empty_buffer_state)" "dr_waiters dr = bs_waiters st"
    by (simp add: flush_drain_def)
  then show ?thesis
    by (cases "flush_commit S cd ns dr s")
      (simp add: flush_namespace_def flush_answers_def empty_buffer_state_def nothing_buffered_def comp_def)
qed


section \<open>Batches and single writes\<close>

definition batch_of :: "write_op \<Rightarrow> batch" where
  "batch_of w = \<lparr>b_upserts = op_upserts w, b_patches = op_patches w, b_deletes = op_deletes w\<rparr>"

definition join_batches :: "batch \<Rightarrow> batch \<Rightarrow> batch" where
  "join_batches a b =
     \<lparr>b_upserts = b_upserts a @ b_upserts b, b_patches = b_patches a @ b_patches b, b_deletes = b_deletes a @ b_deletes b\<rparr>"

text \<open>\<open>b\<close> may follow \<open>a\<close> in one batch: it deletes nothing \<open>a\<close> upserts and upserts nothing \<open>a\<close> patches.\<close>

definition may_follow :: "batch \<Rightarrow> batch \<Rightarrow> bool" where
  "may_follow a b \<longleftrightarrow>
     set (b_deletes b) \<inter> doc_id ` set (b_upserts a) = {} \<and>
     doc_id ` set (b_upserts b) \<inter> doc_id ` set (b_patches a) = {}"

lemma find_append: "List.find P (us @ vs) = (case List.find P us of Some y \<Rightarrow> Some y | None \<Rightarrow> List.find P vs)"
  by (induction us) auto

lemma row_after_join:
  assumes "may_follow a b"
  shows "row_after (join_batches a b) k cur = row_after b k (row_after a k cur)"
proof (cases "List.find (\<lambda>d. doc_id d = k) (rev (b_upserts b))")
  case None
  have "k \<notin> set (b_deletes b)" if "List.find (\<lambda>d. doc_id d = k) (rev (b_upserts a)) = Some d" for d
  proof -
    have "k \<in> doc_id ` set (b_upserts a)"
      using that by (auto simp: find_Some_iff) (metis image_eqI nth_mem set_rev length_rev)
    then show ?thesis using assms by (auto simp: may_follow_def)
  qed
  then show ?thesis
    using None
    by (auto simp: row_after_def join_batches_def find_append option.map_comp comp_def split: option.splits)
next
  case (Some d)
  then have "k \<in> doc_id ` set (b_upserts b)"
    by (auto simp: find_Some_iff) (metis image_eqI nth_mem set_rev length_rev)
  then have "filter (\<lambda>p. doc_id p = k) (b_patches a) = []"
    using assms by (auto simp: may_follow_def filter_empty_conv)
  then show ?thesis using Some by (simp add: row_after_def join_batches_def find_append)
qed

lemma apply_join: "may_follow a b \<Longrightarrow> apply_batch docs (join_batches a b) = apply_batch (apply_batch docs a) b"
  by (intro fmap_ext) (simp add: lookup_apply_batch row_after_join)


lemma buffer_write_ok:
  "op_schema_patch w = None \<Longrightarrow> \<exists>a st'. buffer_write cfg w tx t st = (Inr a, st')"
  by (simp add: buffer_write_def extend_schema_def Let_def)


text \<open>
  Conflicting writes in one batch have an effect no order of the two writes has: of two
  requests that each upsert one document and delete the other's, both documents survive the
  batch, while in either order one of them is deleted.
\<close>

theorem group_commit_not_serialisable:
  "let x = \<lparr>doc_id = ''x'', attributes = fmempty\<rparr>; y = \<lparr>doc_id = ''y'', attributes = fmempty\<rparr>;
       a = \<lparr>b_upserts = [x], b_patches = [], b_deletes = [''y'']\<rparr>;
       b = \<lparr>b_upserts = [y], b_patches = [], b_deletes = [''x'']\<rparr>
   in apply_batch docs (join_batches a b) \<noteq> apply_batch (apply_batch docs a) b \<and>
      apply_batch docs (join_batches a b) \<noteq> apply_batch (apply_batch docs b) a"
proof -
  let ?x = "\<lparr>doc_id = ''x'', attributes = fmempty\<rparr>" and ?y = "\<lparr>doc_id = ''y'', attributes = fmempty\<rparr>"
  let ?a = "\<lparr>b_upserts = [?x], b_patches = [], b_deletes = [''y'']\<rparr>"
  let ?b = "\<lparr>b_upserts = [?y], b_patches = [], b_deletes = [''x'']\<rparr>"
  have "fmlookup (apply_batch docs (join_batches ?a ?b)) ''x'' = Some ?x"
    "fmlookup (apply_batch docs (join_batches ?a ?b)) ''y'' = Some ?y"
    "fmlookup (apply_batch (apply_batch docs ?a) ?b) ''x'' = None"
    "fmlookup (apply_batch (apply_batch docs ?b) ?a) ''y'' = None"
    by (simp_all add: lookup_apply_batch row_after_def join_batches_def)
  then show ?thesis unfolding Let_def by (metis option.distinct(1))
qed





end
