(* ===== verification/Fts_Tokenizer.thy ===== *)
theory Fts_Tokenizer
  imports Models
begin

text \<open>
  The tokenizer of the full-text index (\<^verbatim>\<open>src/index/fts_tokenizer.rs\<close>).  NFKC normalisation
  and the English stemmer are third-party crates, the character properties and the lower-case
  mapping are the Unicode tables of the standard library: all five are parameters.  A
  character is its UTF-8 encoding.
\<close>

section \<open>Characters of a string\<close>

definition utf8_len :: "char \<Rightarrow> nat" where
  "utf8_len c =
     (let n = (of_char c :: nat) in if n < 128 then 1 else if n < 224 then 2 else if n < 240 then 3 else 4)"

fun chars :: "string \<Rightarrow> string list" where
  "chars [] = []"
| "chars (c # cs) = (c # take (utf8_len c - 1) cs) # chars (drop (utf8_len c - 1) cs)"

definition utf8_ok :: "string \<Rightarrow> bool" where
  "utf8_ok s \<longleftrightarrow> list_all (\<lambda>ch. length ch = utf8_len (hd ch)) (chars s)"

section \<open>Options\<close>

record text_ops =
  nfkc :: "string \<Rightarrow> string"
  is_alphabetic :: "string \<Rightarrow> bool"
  is_numeric :: "string \<Rightarrow> bool"
  to_lowercase :: "string \<Rightarrow> string"
  stem_english :: "string \<Rightarrow> string"
  stem_env :: "string option"

record tokenize_options =
  opt_stem :: bool

definition options_from_env :: "string option \<Rightarrow> tokenize_options" where
  "options_from_env var =
     \<lparr>opt_stem = (case var of
        Some v \<Rightarrow> to_ascii_lowercase (trim v) \<in> {''1'', ''true'', ''yes'', ''on''}
      | None \<Rightarrow> False)\<rparr>"

section \<open>Tokens\<close>

definition STOPWORD_LIST :: "string list" where
  "STOPWORD_LIST =
     [''a'', ''an'', ''and'', ''are'', ''as'', ''at'', ''be'', ''been'', ''being'', ''but'', ''by'', ''can'', ''did'', ''do'',
      ''does'', ''for'', ''from'', ''had'', ''has'', ''have'', ''he'', ''her'', ''him'', ''his'', ''if'', ''in'', ''into'',
      ''is'', ''it'', ''its'', ''may'', ''might'', ''must'', ''no'', ''nor'', ''not'', ''of'', ''on'', ''or'', ''our'',
      ''shall'', ''she'', ''should'', ''so'', ''such'', ''than'', ''that'', ''the'', ''their'', ''them'', ''then'',
      ''there'', ''these'', ''they'', ''this'', ''those'', ''to'', ''too'', ''was'', ''we'', ''were'', ''what'', ''when'',
      ''where'', ''which'', ''while'', ''who'', ''whom'', ''why'', ''will'', ''with'', ''would'', ''you'', ''your'']"

definition is_token_char :: "'z text_ops_scheme \<Rightarrow> string \<Rightarrow> bool" where
  "is_token_char U ch \<longleftrightarrow> is_alphabetic U ch \<or> is_numeric U ch"

definition push_token :: "'z text_ops_scheme \<Rightarrow> tokenize_options \<Rightarrow> string list \<Rightarrow> string \<Rightarrow> string list" where
  "push_token U opts out raw =
     (let term = to_lowercase U raw in
      if term = [] \<or> term \<in> set STOPWORD_LIST then out
      else if opt_stem opts
        then (let term' = stem_english U term in
              if term' = [] \<or> term' \<in> set STOPWORD_LIST then out else out @ [term'])
      else out @ [term])"

fun tokenize_loop ::
  "'z text_ops_scheme \<Rightarrow> tokenize_options \<Rightarrow> string list \<Rightarrow> string \<Rightarrow> string list \<Rightarrow> string list" where
  "tokenize_loop U opts tokens cur [] = (if cur \<noteq> [] then push_token U opts tokens cur else tokens)"
| "tokenize_loop U opts tokens cur (ch # chs) =
     (if is_token_char U ch then tokenize_loop U opts tokens (cur @ ch) chs
      else if cur \<noteq> [] then tokenize_loop U opts (push_token U opts tokens cur) [] chs
      else tokenize_loop U opts tokens cur chs)"

definition tokenize_with_options :: "'z text_ops_scheme \<Rightarrow> string \<Rightarrow> tokenize_options \<Rightarrow> string list" where
  "tokenize_with_options U text opts = tokenize_loop U opts [] [] (chars (nfkc U text))"

definition tokenize :: "'z text_ops_scheme \<Rightarrow> string \<Rightarrow> string list" where
  "tokenize U text = tokenize_with_options U text (options_from_env (stem_env U))"

section \<open>Lemmas\<close>

lemma chars_append: "utf8_ok x \<Longrightarrow> chars (x @ y) = chars x @ chars y"
proof (induction x rule: chars.induct)
  case (2 c cs)
  have len: "utf8_len c \<ge> 1" by (simp add: utf8_len_def Let_def)
  have "length (c # take (utf8_len c - 1) cs) = utf8_len c" and ok: "utf8_ok (drop (utf8_len c - 1) cs)"
    using 2(2) by (simp_all add: utf8_ok_def)
  then have "utf8_len c - 1 \<le> length cs" using len by (auto simp: min_def split: if_splits)
  then show ?case using 2(1) [OF ok] by simp
qed simp

lemma push_token_append: "push_token U opts tokens raw = tokens @ push_token U opts [] raw"
  by (simp add: push_token_def Let_def)

lemma tokenize_loop_append:
  "tokenize_loop U opts tokens cur chs = tokens @ tokenize_loop U opts [] cur chs"
proof (induction chs arbitrary: tokens cur)
  case Nil
  then show ?case using push_token_append [of U opts tokens cur] by simp
next
  case (Cons ch chs)
  show ?case
    using Cons [of tokens "cur @ ch"] Cons [of "push_token U opts tokens cur" "[]"]
      Cons [of "push_token U opts [] cur" "[]"] Cons [of tokens "[]"] push_token_append [of U opts tokens cur]
    by simp
qed

lemma tokenize_loop_sep:
  assumes "\<not> is_token_char U sep"
  shows "tokenize_loop U opts [] cur (xs @ sep # ys) = tokenize_loop U opts [] cur xs @ tokenize_loop U opts [] [] ys"
proof (induction xs arbitrary: cur)
  case Nil
  then show ?case
    using assms tokenize_loop_append [of U opts "push_token U opts [] cur" "[]" ys] by simp
next
  case (Cons ch xs)
  show ?case
    using Cons [of "cur @ ch"] Cons [of "[]"] tokenize_loop_append [of U opts "push_token U opts [] cur" "[]" "xs @ sep # ys"]
      tokenize_loop_append [of U opts "push_token U opts [] cur" "[]" xs]
    by simp
qed

lemma set_push_token: "t \<in> set (push_token U opts [] raw) \<Longrightarrow> t \<noteq> [] \<and> t \<notin> set STOPWORD_LIST"
  by (auto simp: push_token_def Let_def split: if_splits)

lemma set_tokenize_loop: "t \<in> set (tokenize_loop U opts [] cur chs) \<Longrightarrow> t \<noteq> [] \<and> t \<notin> set STOPWORD_LIST"
proof (induction chs arbitrary: cur)
  case Nil
  then show ?case by (auto dest: set_push_token split: if_splits)
next
  case (Cons ch chs)
  then show ?case
    using tokenize_loop_append [of U opts "push_token U opts [] cur" "[]" chs]
    by (auto dest: set_push_token split: if_splits)
qed

section \<open>Properties\<close>

text \<open>
  C27. Tokens are clean and local: no token is empty or a stopword, and a text cut at a
  separating ASCII character has the tokens of its two parts in order, so that the tokens of
  attribute values joined by blanks are the tokens of the values.  (NFKC normalises the two
  sides of such a character independently.)
\<close>

theorem tokens_split_at_separators:
  assumes "nfkc U (a @ sep # b) = nfkc U a @ sep # nfkc U b" and "utf8_ok (nfkc U a)"
    and "utf8_len sep = 1" and "\<not> is_token_char U [sep]"
  shows "tokenize U (a @ sep # b) = tokenize U a @ tokenize U b \<and>
    list_all (\<lambda>t. t \<noteq> [] \<and> t \<notin> set STOPWORD_LIST) (tokenize U (a @ sep # b))"
proof
  have "chars (nfkc U (a @ sep # b)) = chars (nfkc U a) @ [sep] # chars (nfkc U b)"
    using chars_append [OF assms(2), of "sep # nfkc U b"] assms(1,3) by simp
  then show "tokenize U (a @ sep # b) = tokenize U a @ tokenize U b"
    by (simp add: tokenize_def tokenize_with_options_def tokenize_loop_sep [OF assms(4)])
  show "list_all (\<lambda>t. t \<noteq> [] \<and> t \<notin> set STOPWORD_LIST) (tokenize U (a @ sep # b))"
    unfolding list_all_iff tokenize_def tokenize_with_options_def using set_tokenize_loop by blast
qed

text \<open>ASCII text is its own normal form; the reference operations are those of ASCII text.\<close>

definition ascii_ops :: text_ops where
  "ascii_ops =
     \<lparr>nfkc = id,
      is_alphabetic = (\<lambda>ch. ch \<noteq> [] \<and> CHR ''a'' \<le> ascii_lower_char (hd ch) \<and> ascii_lower_char (hd ch) \<le> CHR ''z''),
      is_numeric = (\<lambda>ch. ch \<noteq> [] \<and> CHR ''0'' \<le> hd ch \<and> hd ch \<le> CHR ''9''),
      to_lowercase = to_ascii_lowercase, stem_english = id, stem_env = None\<rparr>"

theorem tokens_split_at_separators_witness:
  "tokenize ascii_ops ''The Quick-fox'' = [''quick''] @ [''fox'']"
proof -
  have "tokenize ascii_ops (''The Quick'' @ CHR ''-'' # ''fox'') = tokenize ascii_ops ''The Quick'' @ tokenize ascii_ops ''fox''"
    by (rule tokens_split_at_separators [THEN conjunct1])
      (simp_all add: ascii_ops_def utf8_ok_def utf8_len_def is_token_char_def ascii_lower_char_def less_eq_char_def)
  moreover have "tokenize ascii_ops ''The Quick'' = [''quick'']" by code_simp
  moreover have "tokenize ascii_ops ''fox'' = [''fox'']" by code_simp
  ultimately show ?thesis by simp
qed

end
