(* ===== verification/F64_Arith.thy ===== *)
theory F64_Arith
  imports Json
begin

text \<open>
  IEEE 754 binary64 arithmetic on the \<^verbatim>\<open>f64\<close> values of Json: every operation is the exact
  rational result rounded to nearest, ties to even, with gradual underflow and overflow to
  infinity.
\<close>

section \<open>Rounding\<close>

text \<open>\<open>ilog2 q\<close> is the exponent of a positive rational: \<open>2 ^ ilog2 q \<le> q < 2 ^ (ilog2 q + 1)\<close>.\<close>

definition pow2 :: "int \<Rightarrow> rat" where
  "pow2 e = (if 0 \<le> e then 2 ^ nat e else 1 / 2 ^ nat (- e))"

definition ilog2 :: "rat \<Rightarrow> int" where
  "ilog2 q =
     (case quotient_of q of
        (n, d) \<Rightarrow> let e = int (bit_len (nat n)) - int (bit_len (nat d)) in if q < pow2 e then e - 1 else e)"

definition round_half_even :: "rat \<Rightarrow> int" where
  "round_half_even q =
     (let f = \<lfloor>q\<rfloor>; r = q - of_int f
      in if r < 1 / 2 then f else if 1 / 2 < r then f + 1 else if even f then f else f + 1)"

definition f64_of_rat :: "rat \<Rightarrow> f64" where
  "f64_of_rat q =
     (if q = 0 then Fin 0
      else let u = pow2 (max (ilog2 \<bar>q\<bar> - 52) (- 1074)); r = of_int (round_half_even (q / u)) * u
           in if r = 0 then (if q < 0 then NegZero else Fin 0)
              else if pow2 1024 \<le> r then PosInf
              else if r \<le> - pow2 1024 then NegInf
              else Fin r)"

section \<open>Operations\<close>

fun f64_val :: "f64 \<Rightarrow> rat" where
  "f64_val (Fin q) = q"
| "f64_val _ = 0"

fun f64_neg_sign :: "f64 \<Rightarrow> bool" where
  "f64_neg_sign (Fin q) = (q < 0)"
| "f64_neg_sign NegZero = True"
| "f64_neg_sign NegInf = True"
| "f64_neg_sign _ = False"

definition f64_is_inf :: "f64 \<Rightarrow> bool" where
  "f64_is_inf x \<longleftrightarrow> x = PosInf \<or> x = NegInf"

definition f64_zero :: "bool \<Rightarrow> f64" where
  "f64_zero neg = (if neg then NegZero else Fin 0)"

definition f64_inf :: "bool \<Rightarrow> f64" where
  "f64_inf neg = (if neg then NegInf else PosInf)"

fun f64_neg :: "f64 \<Rightarrow> f64" where
  "f64_neg (Fin q) = (if q = 0 then NegZero else Fin (- q))"
| "f64_neg NegZero = Fin 0"
| "f64_neg PosInf = NegInf"
| "f64_neg NegInf = PosInf"
| "f64_neg NaN = NaN"

text \<open>The arithmetic operations round their exact result with \<open>rnd\<close>.\<close>

definition fp_add :: "(rat \<Rightarrow> f64) \<Rightarrow> f64 \<Rightarrow> f64 \<Rightarrow> f64" where
  "fp_add rnd a b =
     (if a = NaN \<or> b = NaN then NaN
      else if f64_is_inf a then (if f64_is_inf b \<and> a \<noteq> b then NaN else a)
      else if f64_is_inf b then b
      else if f64_val a + f64_val b = 0
        then (if a = NegZero \<and> b = NegZero then NegZero else Fin 0)
      else rnd (f64_val a + f64_val b))"

definition fp_sub :: "(rat \<Rightarrow> f64) \<Rightarrow> f64 \<Rightarrow> f64 \<Rightarrow> f64" where
  "fp_sub rnd a b = fp_add rnd a (f64_neg b)"

definition fp_mul :: "(rat \<Rightarrow> f64) \<Rightarrow> f64 \<Rightarrow> f64 \<Rightarrow> f64" where
  "fp_mul rnd a b =
     (let neg = (f64_neg_sign a \<noteq> f64_neg_sign b) in
      if a = NaN \<or> b = NaN then NaN
      else if f64_is_inf a \<or> f64_is_inf b
        then (if (\<not> f64_is_inf a \<and> f64_val a = 0) \<or> (\<not> f64_is_inf b \<and> f64_val b = 0) then NaN else f64_inf neg)
      else if f64_val a * f64_val b = 0 then f64_zero neg
      else rnd (f64_val a * f64_val b))"

definition fp_div :: "(rat \<Rightarrow> f64) \<Rightarrow> f64 \<Rightarrow> f64 \<Rightarrow> f64" where
  "fp_div rnd a b =
     (let neg = (f64_neg_sign a \<noteq> f64_neg_sign b) in
      if a = NaN \<or> b = NaN then NaN
      else if f64_is_inf a then (if f64_is_inf b then NaN else f64_inf neg)
      else if f64_is_inf b then f64_zero neg
      else if f64_val b = 0 then (if f64_val a = 0 then NaN else f64_inf neg)
      else if f64_val a = 0 then f64_zero neg
      else rnd (f64_val a / f64_val b))"

text \<open>
  The square root is rounded from \<open>(2 * n + 1) / 2 ^ (k + 1)\<close> when it lies strictly between
  \<open>n / 2 ^ k\<close> and \<open>(n + 1) / 2 ^ k\<close>: for \<open>k\<close> this large no value of either format and no midpoint of
  two such values lies between, so that the rounding is that of the exact root.
\<close>

fun isqrt :: "nat \<Rightarrow> nat" where
  "isqrt n = (if n = 0 then 0 else let r = 2 * isqrt (n div 4) in if (r + 1) ^ 2 \<le> n then r + 1 else r)"

declare isqrt.simps [simp del]

definition fp_sqrt :: "(rat \<Rightarrow> f64) \<Rightarrow> f64 \<Rightarrow> f64" where
  "fp_sqrt rnd x =
     (case x of
        Fin q \<Rightarrow>
          if q < 0 then NaN
          else if q = 0 then Fin 0
          else (case quotient_of q of
                  (a, d) \<Rightarrow>
                    (let k = 64 + bit_len (nat d); n = isqrt (nat a * 4 ^ k div nat d)
                     in if of_nat n ^ 2 = q * 4 ^ k then rnd (of_nat n / 2 ^ k)
                        else rnd (of_nat (2 * n + 1) / 2 ^ (k + 1))))
      | NegZero \<Rightarrow> NegZero
      | PosInf \<Rightarrow> PosInf
      | _ \<Rightarrow> NaN)"

abbreviation f64_add :: "f64 \<Rightarrow> f64 \<Rightarrow> f64" where "f64_add \<equiv> fp_add f64_of_rat"

abbreviation f64_sub :: "f64 \<Rightarrow> f64 \<Rightarrow> f64" where "f64_sub \<equiv> fp_sub f64_of_rat"

abbreviation f64_mul :: "f64 \<Rightarrow> f64 \<Rightarrow> f64" where "f64_mul \<equiv> fp_mul f64_of_rat"

abbreviation f64_div :: "f64 \<Rightarrow> f64 \<Rightarrow> f64" where "f64_div \<equiv> fp_div f64_of_rat"

definition f64_lt :: "f64 \<Rightarrow> f64 \<Rightarrow> bool" where
  "f64_lt a b \<longleftrightarrow> f64_partial_cmp a b = Some Less"

text \<open>\<^verbatim>\<open>f64::max\<close>, \<^verbatim>\<open>f64::min\<close>: the other operand when one is NaN.\<close>

definition f64_max :: "f64 \<Rightarrow> f64 \<Rightarrow> f64" where
  "f64_max a b = (if a = NaN then b else if f64_lt a b then b else a)"

definition f64_min :: "f64 \<Rightarrow> f64 \<Rightarrow> f64" where
  "f64_min a b = (if a = NaN then b else if f64_lt b a then b else a)"

definition f64_clamp :: "f64 \<Rightarrow> f64 \<Rightarrow> f64 \<Rightarrow> f64" where
  "f64_clamp x lo hi = (if f64_lt x lo then lo else if f64_lt hi x then hi else x)"

definition f64_abs :: "f64 \<Rightarrow> f64" where
  "f64_abs x = (if f64_neg_sign x then f64_neg x else x)"

section \<open>Laws\<close>

lemma f64_of_rat_not_NaN [simp]: "f64_of_rat q \<noteq> NaN"
  by (simp add: f64_of_rat_def Let_def)

lemma pow2_pos: "0 < pow2 e"
  by (simp add: pow2_def)

lemma pow2_shift: "pow2 (e + 1) = 2 * pow2 e"
proof -
  consider "0 \<le> e" | "e = - 1" | "e < - 1" by linarith
  then show ?thesis
  proof cases
    case 3
    then have "nat (- e) = Suc (nat (- e - 1))" by simp
    then show ?thesis using 3 by (simp add: pow2_def)
  qed (simp_all add: pow2_def nat_add_distrib)
qed

lemma round_half_even_int [simp]: "round_half_even (of_int n) = n"
  by (simp add: round_half_even_def)

lemma round_half_even_mono_0: "0 \<le> q \<Longrightarrow> 0 \<le> round_half_even q"
  by (auto simp: round_half_even_def Let_def)

lemma f64_of_rat_nonneg: "0 \<le> q \<Longrightarrow> \<exists>r \<ge> 0. f64_of_rat q = Fin r \<or> f64_of_rat q = PosInf"
proof -
  assume q: "0 \<le> q"
  define u where "u = pow2 (max (ilog2 q - 52) (- 1074))"
  have u: "0 < u" by (simp add: u_def pow2_pos)
  define r where "r = of_int (round_half_even (q / u)) * u"
  have "0 \<le> of_int (round_half_even (q / u)) * u"
    using u round_half_even_mono_0 [of "q / u"] q by simp
  then have r: "0 \<le> r" by (simp only: r_def)
  have "f64_of_rat q = (if q = 0 then Fin 0 else if r = 0 then Fin 0 else if pow2 1024 \<le> r then PosInf
          else if r \<le> - pow2 1024 then NegInf else Fin r)"
    unfolding f64_of_rat_def Let_def abs_of_nonneg [OF q] u_def [symmetric] r_def [symmetric] using q by simp
  then show ?thesis using r pow2_pos [of 1024] by auto
qed

lemma bit_len_bounds: "0 < n \<Longrightarrow> 2 ^ (bit_len n - 1) \<le> n \<and> n < 2 ^ bit_len n"
proof (induction n rule: less_induct)
  case (less n)
  have step: "bit_len n = Suc (bit_len (n div 2))" using less.prems by (simp add: bit_len.simps [of n])
  show ?case
  proof (cases "n div 2 = 0")
    case True
    then have "n = 1" using less.prems by auto
    then show ?thesis by (simp add: bit_len.simps)
  next
    case False
    have ih: "2 ^ (bit_len (n div 2) - 1) \<le> n div 2" "n div 2 < 2 ^ bit_len (n div 2)"
      using less.IH [of "n div 2"] False less.prems by auto
    have "bit_len (n div 2) = Suc (bit_len (n div 2) - 1)"
      using False by (simp add: bit_len.simps [of "n div 2"])
    then have "(2::nat) ^ bit_len (n div 2) = 2 * 2 ^ (bit_len (n div 2) - 1)" by (metis power_Suc)
    moreover have "2 * (n div 2) \<le> n" "n < 2 * (n div 2) + 2" by simp_all
    ultimately show ?thesis using ih unfolding step diff_Suc_1 power_Suc by linarith
  qed
qed

lemma pow2_diff: "pow2 (int a - int b) = 2 ^ a / 2 ^ b"
proof (cases "b \<le> a")
  case True
  then have "nat (int a - int b) = a - b" by simp
  then show ?thesis using True by (simp add: pow2_def power_diff)
next
  case False
  then have "nat (int b - int a) = b - a" by simp
  then show ?thesis using False by (simp add: pow2_def power_diff)
qed

lemma pow2_mono: "a \<le> b \<Longrightarrow> pow2 a \<le> pow2 b"
proof -
  assume "a \<le> b"
  then obtain n where "b = a + int n" by (metis zle_iff_zadd)
  moreover have "pow2 a \<le> pow2 (a + int n)" for n
  proof (induction n)
    case (Suc n)
    have "pow2 (a + int (Suc n)) = 2 * pow2 (a + int n)" using pow2_shift [of "a + int n"] by (simp add: ac_simps)
    then show ?case using Suc pow2_pos [of "a + int n"] by simp
  qed simp
  ultimately show ?thesis by simp
qed

lemma pow_rat:
  "2 ^ k \<le> m \<Longrightarrow> (2::rat) ^ k \<le> of_nat m"
  "m < 2 ^ k \<Longrightarrow> (of_nat m :: rat) < 2 ^ k"
  by (metis of_nat_le_iff of_nat_numeral of_nat_power, metis of_nat_less_iff of_nat_numeral of_nat_power)

lemma ilog2_bounds:
  assumes "0 < q"
  shows "pow2 (ilog2 q) \<le> q \<and> q < pow2 (ilog2 q + 1)"
proof -
  obtain n d where nd: "quotient_of q = (n, d)" by (cases "quotient_of q")
  then have q: "q = of_int n / of_int d" and d: "0 < d"
    using quotient_of_div quotient_of_denom_pos by blast+
  have n: "0 < n" using assms d unfolding q by (simp add: zero_less_divide_iff)
  define bn bd where "bn = bit_len (nat n)" and "bd = bit_len (nat d)"
  have b: "2 ^ (bn - 1) \<le> nat n" "nat n < 2 ^ bn" "2 ^ (bd - 1) \<le> nat d" "nat d < 2 ^ bd"
    using bit_len_bounds [of "nat n"] bit_len_bounds [of "nat d"] n d by (simp_all add: bn_def bd_def)
  have pos: "0 < bn" "0 < bd" using n d by (simp_all add: bn_def bd_def bit_len.simps)
  have ni: "(of_int n :: rat) = of_nat (nat n)" "(of_int d :: rat) = of_nat (nat d)" using n d by simp_all
  have r: "(2::rat) ^ (bn - 1) \<le> of_int n" "(of_int n :: rat) < 2 ^ bn" "(2::rat) ^ (bd - 1) \<le> of_int d" "(of_int d :: rat) < 2 ^ bd"
    unfolding ni using b pow_rat by blast+
  let ?e = "int bn - int bd"
  have "pow2 (?e - 1) = 2 ^ (bn - 1) / 2 ^ bd"
    using pow2_diff [of "bn - 1" bd] pos by (simp add: algebra_simps of_nat_diff)
  also have "\<dots> \<le> q"
    unfolding q using r d n by (intro frac_le) auto
  finally have lo: "pow2 (?e - 1) \<le> q" .
  have "q < 2 ^ bn / 2 ^ (bd - 1)"
    unfolding q using r d n by (intro frac_less) auto
  also have "\<dots> = pow2 (?e + 1)"
    using pow2_diff [of bn "bd - 1"] pos by (simp add: algebra_simps of_nat_diff)
  finally have hi: "q < pow2 (?e + 1)" .
  show ?thesis
    using lo hi by (auto simp: ilog2_def nd Let_def simp flip: bn_def bd_def)
qed

lemma round_half_even_error: "\<bar>of_int (round_half_even q) - q\<bar> \<le> 1 / 2"
proof -
  have "of_int \<lfloor>q\<rfloor> \<le> q" "q < of_int \<lfloor>q\<rfloor> + 1" by linarith+
  then show ?thesis by (auto simp: round_half_even_def Let_def abs_le_iff)
qed

lemma round_half_even_ge: "of_int n \<le> q \<Longrightarrow> n \<le> round_half_even q"
proof -
  assume "of_int n \<le> q"
  then have "n \<le> \<lfloor>q\<rfloor>" by (simp add: le_floor_iff)
  then show ?thesis by (auto simp: round_half_even_def Let_def)
qed

text \<open>Rounding stays within a factor of two, and above one.\<close>

lemma f64_of_rat_bounds:
  assumes lo: "pow2 (- 1000) \<le> q" and hi: "q \<le> pow2 1000"
  shows "\<exists>r. f64_of_rat q = Fin r \<and> q / 2 \<le> r \<and> r \<le> 2 * q \<and> (1 \<le> q \<longrightarrow> 1 \<le> r)"
proof -
  have q: "0 < q" using lo pow2_pos [of "- 1000"] by linarith
  define e where "e = ilog2 q"
  define u where "u = pow2 (max (e - 52) (- 1074))"
  define r where "r = of_int (round_half_even (q / u)) * u"
  have u: "0 < u" by (simp add: u_def pow2_pos)
  have e: "pow2 e \<le> q" "q < pow2 (e + 1)" using ilog2_bounds [OF q] by (simp_all add: e_def)
  have "pow2 (e - 52) \<le> q" "pow2 (- 1074) \<le> q"
    using pow2_mono [of "e - 52" e] e(1) pow2_mono [of "- 1074" "- 1000"] lo by simp_all
  then have uq: "u \<le> q" by (simp add: u_def max_def)
  have "\<bar>r - q\<bar> = \<bar>of_int (round_half_even (q / u)) - q / u\<bar> * u"
    using u by (simp add: r_def abs_mult_pos left_diff_distrib)
  also have "\<dots> \<le> 1 / 2 * u"
    using round_half_even_error [of "q / u"] u by (intro mult_right_mono) auto
  finally have err: "\<bar>r - q\<bar> \<le> q / 2" using uq by simp
  have b: "q / 2 \<le> r" "r \<le> 2 * q" using err q unfolding abs_le_iff by linarith+
  have "2 * q < pow2 1024"
    using hi pow2_shift [of 1000] pow2_mono [of 1002 1024] pow2_shift [of 1001] pow2_pos [of 1000] by simp
  then have "f64_of_rat q = Fin r"
    unfolding f64_of_rat_def Let_def abs_of_pos [OF q] e_def [symmetric] u_def [symmetric] r_def [symmetric]
    using q b pow2_pos [of 1024] by auto
  moreover have "1 \<le> r" if "1 \<le> q"
  proof -
    have "\<not> e < 0"
    proof
      assume "e < 0"
      then have "pow2 (e + 1) \<le> pow2 0" by (intro pow2_mono) simp
      then show False using e(2) that by (simp add: pow2_def)
    qed
    then obtain k where k: "e = int k" by (metis nat_0_le not_less)
    then have ud: "u = 2 ^ k / 2 ^ 52" using pow2_diff [of k 52] by (simp add: u_def)
    have "of_int (2 ^ 52) \<le> q / u" using e(1) u by (simp add: ud k pow2_def field_simps)
    then have "2 ^ 52 \<le> round_half_even (q / u)" by (rule round_half_even_ge)
    then have "(2 ^ 52 :: rat) \<le> of_int (round_half_even (q / u))" by (metis of_int_le_iff of_int_numeral of_int_power)
    then have "2 ^ 52 * u \<le> r" unfolding r_def using u by (intro mult_right_mono) auto
    moreover have "1 \<le> (2::rat) ^ k" by simp
    ultimately have "2 ^ 52 * u \<le> r" and "1 \<le> 2 ^ 52 * u" by (simp_all add: ud)
    then show ?thesis by (rule order_trans [rotated])
  qed
  ultimately show ?thesis using b by blast
qed

lemma f64_lt_Fin [simp]: "f64_lt (Fin p) (Fin q) \<longleftrightarrow> p < q"
  by (simp add: f64_lt_def)

lemma f64_clamp_unit:
  "x \<noteq> NaN \<Longrightarrow> \<exists>q. (f64_clamp x (Fin 0) (Fin 1) = Fin q \<or> (q = 0 \<and> f64_clamp x (Fin 0) (Fin 1) = NegZero)) \<and> 0 \<le> q \<and> q \<le> 1"
  by (cases x) (auto simp: f64_clamp_def f64_lt_def f64_partial_cmp_def)

section \<open>Ranges\<close>

definition f64_in :: "rat \<Rightarrow> rat \<Rightarrow> f64 \<Rightarrow> bool" where
  "f64_in lo hi x \<longleftrightarrow> (\<exists>q. x = Fin q \<and> lo \<le> q \<and> q \<le> hi)"

definition f64_nonneg :: "f64 \<Rightarrow> bool" where
  "f64_nonneg x \<longleftrightarrow> x = PosInf \<or> (\<exists>q. x = Fin q \<and> 0 \<le> q)"

lemma f64_in_Fin [simp]: "f64_in lo hi (Fin q) \<longleftrightarrow> lo \<le> q \<and> q \<le> hi"
  by (simp add: f64_in_def)

lemma f64_in_mono: "f64_in a b x \<Longrightarrow> c \<le> a \<Longrightarrow> b \<le> d \<Longrightarrow> f64_in c d x"
  by (auto simp: f64_in_def)

lemma f64_nonneg_not_NaN: "f64_nonneg x \<Longrightarrow> x \<noteq> NaN"
  by (auto simp: f64_nonneg_def)

lemma f64_in_nonneg: "f64_in lo hi x \<Longrightarrow> 0 \<le> lo \<Longrightarrow> f64_nonneg x"
  by (auto simp: f64_in_def f64_nonneg_def)

lemma f64_add_nonneg:
  assumes "f64_nonneg a" "f64_nonneg b"
  shows "f64_nonneg (f64_add a b)"
proof -
  have r: "f64_nonneg (f64_of_rat q)" if "0 \<le> q" for q
    using f64_of_rat_nonneg [OF that] unfolding f64_nonneg_def by blast
  consider "a = PosInf" | "b = PosInf" "a \<noteq> PosInf" | p q where "a = Fin p" "b = Fin q" "0 \<le> p" "0 \<le> q"
    using assms unfolding f64_nonneg_def by blast
  then show ?thesis
  proof cases
    case 1
    then show ?thesis using assms(2) by (auto simp: f64_nonneg_def fp_add_def f64_is_inf_def)
  next
    case 2
    then show ?thesis using assms(1) by (auto simp: f64_nonneg_def fp_add_def f64_is_inf_def)
  next
    case 3
    have "f64_add a b = (if p + q = 0 then Fin 0 else f64_of_rat (p + q))"
      using 3 by (simp add: fp_add_def f64_is_inf_def)
    moreover have "f64_nonneg (Fin 0)" by (simp add: f64_nonneg_def)
    ultimately show ?thesis using r [of "p + q"] 3 by simp
  qed
qed

lemma pow2_numerals: "pow2 (- 1000) \<le> 1 / 2 ^ 200" "2 ^ 200 \<le> pow2 1000"
  using pow2_mono [of "- 1000" "- 200"] pow2_mono [of 200 1000] by (simp_all add: pow2_def)

lemma f64_of_rat_in:
  assumes "a \<le> q" "q \<le> b" "1 / 2 ^ 200 \<le> a" "b \<le> 2 ^ 200"
  shows "f64_in (a / 2) (2 * b) (f64_of_rat q)" and "1 \<le> q \<Longrightarrow> f64_in 1 (2 * b) (f64_of_rat q)"
proof -
  have "pow2 (- 1000) \<le> q" "q \<le> pow2 1000" using assms pow2_numerals by linarith+
  then obtain r where "f64_of_rat q = Fin r" "q / 2 \<le> r" "r \<le> 2 * q" "1 \<le> q \<longrightarrow> 1 \<le> r"
    using f64_of_rat_bounds by blast
  then show "f64_in (a / 2) (2 * b) (f64_of_rat q)" "1 \<le> q \<Longrightarrow> f64_in 1 (2 * b) (f64_of_rat q)"
    using assms by auto
qed

lemma f64_add_in:
  assumes "f64_in a b x" "f64_in c d y" "1 / 2 ^ 200 \<le> a + c" "b + d \<le> 2 ^ 200"
  shows "f64_in ((a + c) / 2) (2 * (b + d)) (f64_add x y)"
    and "1 \<le> a + c \<Longrightarrow> f64_in 1 (2 * (b + d)) (f64_add x y)"
proof -
  obtain p q where xy: "x = Fin p" "y = Fin q" "a \<le> p" "p \<le> b" "c \<le> q" "q \<le> d"
    using assms(1,2) by (auto simp: f64_in_def)
  have s: "a + c \<le> p + q" "p + q \<le> b + d" using xy by linarith+
  have "0 < (1 / 2 ^ 200 :: rat)" by simp
  then have "0 < p + q" using s(1) assms(3) by (meson less_le_trans)
  then have "f64_add x y = f64_of_rat (p + q)" by (simp add: fp_add_def f64_is_inf_def xy)
  then show "f64_in ((a + c) / 2) (2 * (b + d)) (f64_add x y)"
    "1 \<le> a + c \<Longrightarrow> f64_in 1 (2 * (b + d)) (f64_add x y)"
    using f64_of_rat_in [OF s assms(3,4)] s by auto
qed

lemma f64_mul_in:
  assumes "f64_in a b x" "f64_in c d y" "0 < a" "0 < c" "1 / 2 ^ 200 \<le> a * c" "b * d \<le> 2 ^ 200"
  shows "f64_in (a * c / 2) (2 * (b * d)) (f64_mul x y)"
proof -
  obtain p q where xy: "x = Fin p" "y = Fin q" "a \<le> p" "p \<le> b" "c \<le> q" "q \<le> d"
    using assms(1,2) by (auto simp: f64_in_def)
  have s: "a * c \<le> p * q" "p * q \<le> b * d" and pos: "0 < p" "0 < q"
    using xy assms(3,4) by (auto intro!: mult_mono)
  have "f64_mul x y = f64_of_rat (p * q)" using pos by (simp add: fp_mul_def f64_is_inf_def xy Let_def)
  then show ?thesis using f64_of_rat_in(1) [OF s assms(5,6)] by simp
qed

lemma f64_div_in:
  assumes "f64_in a b x" "f64_in c d y" "0 < a" "0 < c" "1 / 2 ^ 200 \<le> a / d" "b / c \<le> 2 ^ 200"
  shows "f64_in (a / d / 2) (2 * (b / c)) (f64_div x y)"
    and "d \<le> a \<Longrightarrow> f64_in 1 (2 * (b / c)) (f64_div x y)"
proof -
  obtain p q where xy: "x = Fin p" "y = Fin q" "a \<le> p" "p \<le> b" "c \<le> q" "q \<le> d"
    using assms(1,2) by (auto simp: f64_in_def)
  have pos: "0 < p" "0 < q" using xy assms(3,4) by linarith+
  then have s: "a / d \<le> p / q" "p / q \<le> b / c"
    using xy assms(3,4) by (auto intro!: frac_le)
  have "f64_div x y = f64_of_rat (p / q)" using pos by (simp add: fp_div_def f64_is_inf_def xy Let_def)
  moreover have "1 \<le> p / q" if "d \<le> a" using that xy pos by (simp add: le_divide_eq)
  ultimately show "f64_in (a / d / 2) (2 * (b / c)) (f64_div x y)" "d \<le> a \<Longrightarrow> f64_in 1 (2 * (b / c)) (f64_div x y)"
    using f64_of_rat_in [OF s assms(5,6)] by auto
qed

lemma f64_of_nat_small: "n < 2 ^ 53 \<Longrightarrow> f64_of_nat n = Fin (of_nat n)"
  by (simp add: f64_of_nat_def round53_def)

lemma f64_sub_nonneg:
  assumes "0 \<le> p - q" "p - q \<le> 2 ^ 100" "p - q = of_nat k"
  shows "f64_in 0 (2 * (p - q)) (f64_sub (Fin p) (Fin q))"
proof (cases "p = q")
  case True
  then show ?thesis by (simp add: fp_sub_def fp_add_def f64_is_inf_def)
next
  case False
  then have "1 \<le> p - q" using assms by (cases k) auto
  moreover have "f64_sub (Fin p) (Fin q) = f64_of_rat (p - q)"
    using False by (auto simp: fp_sub_def fp_add_def f64_is_inf_def)
  ultimately show ?thesis
    using f64_of_rat_in(2) [of 1 "p - q" "p - q"] assms(2) f64_in_mono [of 1 "2 * (p - q)"] by auto
qed

lemma f64_mul_nonneg:
  assumes "f64_nonneg x" "f64_in a b y" "0 < a"
  shows "f64_nonneg (f64_mul x y)"
proof -
  obtain q where y: "y = Fin q" "0 < q" using assms(2,3) by (auto simp: f64_in_def)
  show ?thesis
  proof (cases "x = PosInf")
    case False
    then obtain p where x: "x = Fin p" "0 \<le> p" using assms(1) by (auto simp: f64_nonneg_def)
    then have "f64_mul x y = (if p = 0 then Fin 0 else f64_of_rat (p * q))"
      using y by (auto simp: fp_mul_def f64_is_inf_def Let_def f64_zero_def)
    then show ?thesis using f64_of_rat_nonneg [of "p * q"] x y by (auto simp: f64_nonneg_def)
  qed (use y in \<open>simp add: fp_mul_def f64_is_inf_def Let_def f64_inf_def f64_nonneg_def\<close>)
qed

lemma f64_div_nonneg:
  assumes "f64_nonneg x" "f64_in a b y" "0 < a"
  shows "f64_nonneg (f64_div x y)"
proof -
  obtain q where y: "y = Fin q" "0 < q" using assms(2,3) by (auto simp: f64_in_def)
  show ?thesis
  proof (cases "x = PosInf")
    case False
    then obtain p where x: "x = Fin p" "0 \<le> p" using assms(1) by (auto simp: f64_nonneg_def)
    then have "f64_div x y = (if p = 0 then Fin 0 else f64_of_rat (p / q))"
      using y by (auto simp: fp_div_def f64_is_inf_def Let_def f64_zero_def)
    then show ?thesis using f64_of_rat_nonneg [of "p / q"] x y by (auto simp: f64_nonneg_def)
  qed (use y in \<open>simp add: fp_div_def f64_is_inf_def Let_def f64_inf_def f64_nonneg_def\<close>)
qed

lemma ilog2_unique: "pow2 e \<le> q \<Longrightarrow> q < pow2 (e + 1) \<Longrightarrow> ilog2 q = e"
proof -
  assume a: "pow2 e \<le> q" "q < pow2 (e + 1)"
  then have q: "0 < q" using pow2_pos [of e] by linarith
  note b = ilog2_bounds [OF q]
  have "\<not> e < ilog2 q" using pow2_mono [of "e + 1" "ilog2 q"] a b by auto
  moreover have "\<not> ilog2 q < e" using pow2_mono [of "ilog2 q + 1" e] a b by auto
  ultimately show ?thesis by simp
qed

lemma three_quarters: "f64_of_rat (75 / 100) = Fin (3 / 4)"
proof -
  have "ilog2 (3 / 4) = - 1" by (rule ilog2_unique) (simp_all add: pow2_def)
  moreover have "pow2 1024 > 1" using pow2_mono [of 1 1024] by (simp add: pow2_def)
  moreover have "3 / 4 / pow2 (- 53) = of_int (3 * 2 ^ 51)" by (simp add: pow2_def)
  then have "round_half_even (3 / 4 / pow2 (- 53)) = 3 * 2 ^ 51" by (metis round_half_even_int)
  ultimately show ?thesis by (simp add: f64_of_rat_def Let_def pow2_def [of "- 53"])
qed

end
