(* ===== verification/Sort_By.thy ===== *)
theory Sort_By
  imports F64_Arith "HOL-Library.Multiset"
begin

text \<open>
  \<^verbatim>\<open>slice::sort_by\<close>: the stable sort by a comparison function.  The comparisons the program
  sorts with are total orders on the elements it sorts, on which every sort gives the result of
  insertion sort.
\<close>

fun insert_by :: "('a \<Rightarrow> 'a \<Rightarrow> ordering) \<Rightarrow> 'a \<Rightarrow> 'a list \<Rightarrow> 'a list" where
  "insert_by cmp x [] = [x]"
| "insert_by cmp x (y # ys) = (if cmp x y = Greater then y # insert_by cmp x ys else x # y # ys)"

fun sort_by :: "('a \<Rightarrow> 'a \<Rightarrow> ordering) \<Rightarrow> 'a list \<Rightarrow> 'a list" where
  "sort_by cmp [] = []"
| "sort_by cmp (x # xs) = insert_by cmp x (sort_by cmp xs)"

definition total_cmp :: "('a \<Rightarrow> 'a \<Rightarrow> ordering) \<Rightarrow> 'a set \<Rightarrow> bool" where
  "total_cmp cmp A \<longleftrightarrow>
     (\<forall>x \<in> A. \<forall>y \<in> A. cmp x y = Greater \<longrightarrow> cmp y x \<noteq> Greater) \<and>
     (\<forall>x \<in> A. \<forall>y \<in> A. \<forall>z \<in> A. cmp x y \<noteq> Greater \<longrightarrow> cmp y z \<noteq> Greater \<longrightarrow> cmp x z \<noteq> Greater)"

lemma mset_insert_by [simp]: "mset (insert_by cmp x xs) = add_mset x (mset xs)"
  by (induction xs) auto

lemma mset_sort_by [simp]: "mset (sort_by cmp xs) = mset xs"
  by (induction xs) auto

lemma set_sort_by [simp]: "set (sort_by cmp xs) = set xs"
  by (metis mset_sort_by set_mset_mset)

lemma length_sort_by [simp]: "length (sort_by cmp xs) = length xs"
  by (metis mset_sort_by size_mset)

lemma distinct_sort_by [simp]: "distinct (map f (sort_by cmp xs)) \<longleftrightarrow> distinct (map f xs)"
proof -
  have "mset (map f (sort_by cmp xs)) = mset (map f xs)" by simp
  then show ?thesis by (metis mset_eq_imp_distinct_iff)
qed

lemma set_insert_by [simp]: "set (insert_by cmp x xs) = insert x (set xs)"
  by (induction xs) auto

lemma sorted_insert_by:
  assumes "total_cmp cmp A" and "insert x (set xs) \<subseteq> A" and "sorted_wrt (\<lambda>a b. cmp a b \<noteq> Greater) xs"
  shows "sorted_wrt (\<lambda>a b. cmp a b \<noteq> Greater) (insert_by cmp x xs)"
  using assms(2,3)
proof (induction xs)
  case (Cons y ys)
  show ?case
  proof (cases "cmp x y = Greater")
    case True
    then have "cmp y x \<noteq> Greater" using assms(1) Cons.prems(1) by (auto simp: total_cmp_def)
    then show ?thesis using Cons True by auto
  next
    case False
    have "cmp x z \<noteq> Greater" if z: "z \<in> set ys" for z
    proof -
      have "x \<in> A" "y \<in> A" "z \<in> A" "cmp y z \<noteq> Greater" using Cons.prems z by auto
      then show ?thesis using False assms(1) unfolding total_cmp_def by blast
    qed
    then show ?thesis using Cons.prems False by auto
  qed
qed simp

lemma total_cmp_subset: "total_cmp cmp A \<Longrightarrow> B \<subseteq> A \<Longrightarrow> total_cmp cmp B"
  unfolding total_cmp_def by (meson subsetD)

lemma sorted_sort_by:
  "total_cmp cmp (set xs) \<Longrightarrow> sorted_wrt (\<lambda>a b. cmp a b \<noteq> Greater) (sort_by cmp xs)"
proof (induction xs)
  case (Cons x xs)
  have "total_cmp cmp (set xs)" by (rule total_cmp_subset [OF Cons.prems]) auto
  then show ?case using Cons.IH sorted_insert_by [OF Cons.prems, of x "sort_by cmp xs"] by simp
qed simp

section \<open>Ranking by score\<close>

text \<open>Descending score, then ascending id: the comparison of every ranked list of the program.\<close>

definition score_cmp :: "'k::linorder \<times> f64 \<Rightarrow> 'k \<times> f64 \<Rightarrow> ordering" where
  "score_cmp a b =
     then_ord (case f64_partial_cmp (snd b) (snd a) of Some o1 \<Rightarrow> o1 | None \<Rightarrow> Equal) (cmp_of (fst a) (fst b))"

lemma f64_pos_some: "x \<noteq> NaN \<Longrightarrow> \<exists>p. f64_pos x = Some p"
  by (cases x) auto

lemma then_ord_Greater: "then_ord a b = Greater \<longleftrightarrow> a = Greater \<or> (a = Equal \<and> b = Greater)"
  by (cases a) auto

lemma score_cmp_Greater:
  "f64_pos (snd a) = Some p \<Longrightarrow> f64_pos (snd b) = Some q \<Longrightarrow>
   score_cmp a b = Greater \<longleftrightarrow> p < q \<or> (p = q \<and> fst b < fst a)"
  by (auto simp: score_cmp_def f64_partial_cmp_def then_ord_Greater)

lemma lex_order:
  fixes p q r :: "'a::linorder" and a b c :: "'b::linorder"
  shows "p < q \<or> (p = q \<and> b < a) \<Longrightarrow> \<not> (q < p \<or> (q = p \<and> a < b))"
    and "\<not> (p < q \<or> (p = q \<and> b < a)) \<Longrightarrow> \<not> (q < r \<or> (q = r \<and> c < b)) \<Longrightarrow> \<not> (p < r \<or> (p = r \<and> c < a))"
  by (auto dest: order.strict_trans)

lemma total_score_cmp: "(\<And>x. x \<in> A \<Longrightarrow> snd x \<noteq> NaN) \<Longrightarrow> total_cmp score_cmp A"
  unfolding total_cmp_def
proof (intro conjI ballI impI)
  fix x y assume n: "\<And>x. x \<in> A \<Longrightarrow> snd x \<noteq> NaN" and "x \<in> A" "y \<in> A" and g: "score_cmp x y = Greater"
  then obtain p q where "f64_pos (snd x) = Some p" "f64_pos (snd y) = Some q" by (meson f64_pos_some)
  note sc = score_cmp_Greater [OF this] score_cmp_Greater [OF this(2,1)]
  show "score_cmp y x \<noteq> Greater" using g unfolding sc by (rule lex_order(1))
next
  fix x y z assume n: "\<And>x. x \<in> A \<Longrightarrow> snd x \<noteq> NaN" and "x \<in> A" "y \<in> A" "z \<in> A"
    and g: "score_cmp x y \<noteq> Greater" "score_cmp y z \<noteq> Greater"
  then obtain p q r where "f64_pos (snd x) = Some p" "f64_pos (snd y) = Some q" "f64_pos (snd z) = Some r"
    using n f64_pos_some by metis
  note sc = score_cmp_Greater [OF this(1,2)] score_cmp_Greater [OF this(2,3)] score_cmp_Greater [OF this(1,3)]
  show "score_cmp x z \<noteq> Greater" using g unfolding sc by (rule lex_order(2))
qed

end
