(* ===== verification/Fts.thy ===== *)
theory Fts
  imports Fts_Tokenizer Sort_By Schema Wal Filter_Index
begin

text \<open>
  Full-text index segments (\<^verbatim>\<open>src/index/fts.rs\<close>): the inverted index, its maintenance, BM25
  ranking over the postings and the scoring of a single unindexed document.  The counters keep
  their widths and wrap as a release build does.  The text of a JSON value (serde\_json) and the
  natural logarithm are parameters.
\<close>

section \<open>Segments\<close>

record fts_ops = text_ops +
  json_to_string :: "json \<Rightarrow> string"
  ln64 :: "f64 \<Rightarrow> f64"

definition BM25_K1 :: f64 where
  "BM25_K1 = f64_of_rat (12 / 10)"

definition BM25_B :: f64 where
  "BM25_B = f64_of_rat (75 / 100)"

record fts_posting =
  p_doc_id :: string
  term_freq :: "32 word"

record fts_segment =
  fts_segment_id :: u64
  fts_field :: string
  num_docs :: "32 word"
  total_doc_len :: "64 word"
  doc_lengths :: "(string, 32 word) fmap"
  fts_postings :: "(string, fts_posting list) fmap"

definition fts_key :: "string \<Rightarrow> u64 \<Rightarrow> string" where
  "fts_key ns sid = ROOT_PREFIX @ ns @ ''/index/fts-'' @ dec_pad 8 sid @ ''.bin''"

definition avg_doc_len :: "fts_segment \<Rightarrow> f64" where
  "avg_doc_len seg =
     (if num_docs seg = 0 then Fin 1
      else f64_div (f64_of_nat (unat (total_doc_len seg))) (f64_of_nat (unat (num_docs seg))))"

section \<open>Indexed text\<close>

definition value_to_text :: "'z fts_ops_scheme \<Rightarrow> json \<Rightarrow> string" where
  "value_to_text U v = (case v of JString s \<Rightarrow> s | _ \<Rightarrow> json_to_string U v)"

fun join :: "string \<Rightarrow> string list \<Rightarrow> string" where
  "join sep [] = []"
| "join sep [x] = x"
| "join sep (x # y # xs) = x @ sep @ join sep (y # xs)"

text \<open>The attribute map is iterated in key order; the program's order is that of its hash table.\<close>

definition extract_index_text :: "'z fts_ops_scheme \<Rightarrow> document \<Rightarrow> string \<Rightarrow> string" where
  "extract_index_text U d field =
     (if field \<noteq> []
      then (case fmlookup (attributes d) field of Some v \<Rightarrow> value_to_text U v | None \<Rightarrow> [])
      else join '' '' (concat (map (\<lambda>v. case v of JString s \<Rightarrow> [s] | _ \<Rightarrow> []) (fm_values (attributes d)))))"

section \<open>Maintenance\<close>

definition count_terms :: "string list \<Rightarrow> (string, 32 word) fmap" where
  "count_terms tokens =
     fold (\<lambda>t m. fmupd t ((case fmlookup m t of Some n \<Rightarrow> n | None \<Rightarrow> 0) + 1) m) tokens fmempty"

definition push_posting :: "string \<Rightarrow> string \<times> 32 word \<Rightarrow> (string, fts_posting list) fmap \<Rightarrow> (string, fts_posting list) fmap" where
  "push_posting i tf m =
     fmupd (fst tf) ((case fmlookup m (fst tf) of Some l \<Rightarrow> l | None \<Rightarrow> []) @ [\<lparr>p_doc_id = i, term_freq = snd tf\<rparr>]) m"

definition fts_add_document :: "'z fts_ops_scheme \<Rightarrow> string \<Rightarrow> document \<Rightarrow> fts_segment \<Rightarrow> fts_segment" where
  "fts_add_document U i d seg =
     (let tokens = tokenize U (extract_index_text U d (fts_field seg)) in
      if tokens = [] then seg
      else let len = (of_nat (length tokens) :: 32 word)
           in seg\<lparr>doc_lengths := fmupd i len (doc_lengths seg),
                  total_doc_len := total_doc_len seg + ucast len,
                  num_docs := num_docs seg + 1,
                  fts_postings := fold (push_posting i) (fm_entries (count_terms tokens)) (fts_postings seg)\<rparr>)"

definition saturating_sub :: "'a::len word \<Rightarrow> 'a word \<Rightarrow> 'a word" where
  "saturating_sub a b = (if b \<le> a then a - b else 0)"

definition fts_remove_document :: "string \<Rightarrow> fts_segment \<Rightarrow> fts_segment" where
  "fts_remove_document i seg =
     (case fmlookup (doc_lengths seg) i of
        None \<Rightarrow> seg
      | Some len \<Rightarrow>
          seg\<lparr>doc_lengths := fmdrop i (doc_lengths seg),
              total_doc_len := saturating_sub (total_doc_len seg) (ucast len),
              num_docs := saturating_sub (num_docs seg) 1,
              fts_postings :=
                fm_retain (\<lambda>l. l \<noteq> []) (fmmap (filter (\<lambda>p. p_doc_id p \<noteq> i)) (fts_postings seg))\<rparr>)"

definition fts_empty :: "u64 \<Rightarrow> string \<Rightarrow> fts_segment" where
  "fts_empty sid field =
     \<lparr>fts_segment_id = sid, fts_field = field, num_docs = 0, total_doc_len = 0, doc_lengths = fmempty,
      fts_postings = fmempty\<rparr>"

definition fts_build :: "'z fts_ops_scheme \<Rightarrow> u64 \<Rightarrow> string \<Rightarrow> (string \<times> document) list \<Rightarrow> fts_segment" where
  "fts_build U sid field docs = fold (\<lambda>(i, d). fts_add_document U i d) docs (fts_empty sid field)"

definition fts_apply_delta ::
  "'z fts_ops_scheme \<Rightarrow> (string \<times> document) list \<Rightarrow> string list \<Rightarrow> fts_segment \<Rightarrow> fts_segment" where
  "fts_apply_delta U ups dels seg =
     fold (\<lambda>(i, d) s. fts_add_document U i d (fts_remove_document i s)) ups (fold fts_remove_document dels seg)"

section \<open>Queries\<close>

definition candidate_doc_ids :: "'z fts_ops_scheme \<Rightarrow> fts_segment \<Rightarrow> string \<Rightarrow> string fset" where
  "candidate_doc_ids U seg query =
     fold (\<lambda>t ids. case fmlookup (fts_postings seg) t of
             Some l \<Rightarrow> fold (\<lambda>p. finsert (p_doc_id p)) l ids
           | None \<Rightarrow> ids) (tokenize U query) {||}"

text \<open>The Robertson--Walker weight of a term and the saturation of its frequency.\<close>

definition bm25_term :: "'z fts_ops_scheme \<Rightarrow> f64 \<Rightarrow> f64 \<Rightarrow> f64 \<Rightarrow> f64 \<Rightarrow> f64 \<Rightarrow> f64" where
  "bm25_term U n df tf dl avgdl =
     (let idf = ln64 U (f64_add (f64_div (f64_add (f64_sub n df) (Fin (1 / 2))) (f64_add df (Fin (1 / 2)))) (Fin 1));
          num = f64_mul tf (f64_add BM25_K1 (Fin 1));
          den = f64_add tf (f64_mul BM25_K1 (f64_add (f64_sub (Fin 1) BM25_B) (f64_div (f64_mul BM25_B dl) avgdl)))
      in f64_div (f64_mul idf num) den)"

definition add_score :: "string \<Rightarrow> f64 \<Rightarrow> (string, f64) fmap \<Rightarrow> (string, f64) fmap" where
  "add_score i x m = fmupd i (f64_add (case fmlookup m i of Some y \<Rightarrow> y | None \<Rightarrow> Fin 0) x) m"

definition score_term ::
  "'z fts_ops_scheme \<Rightarrow> fts_segment \<Rightarrow> string \<Rightarrow> (string, f64) fmap \<Rightarrow> (string, f64) fmap" where
  "score_term U seg t scores =
     (case fmlookup (fts_postings seg) t of
        None \<Rightarrow> scores
      | Some l \<Rightarrow>
          fold (\<lambda>p. add_score (p_doc_id p)
             (bm25_term U (f64_of_nat (unat (num_docs seg))) (f64_of_nat (length l)) (f64_of_nat (unat (term_freq p)))
                (f64_of_nat (unat (case fmlookup (doc_lengths seg) (p_doc_id p) of Some n \<Rightarrow> n | None \<Rightarrow> 1)))
                (avg_doc_len seg))) l scores)"

definition query_bm25 :: "'z fts_ops_scheme \<Rightarrow> fts_segment \<Rightarrow> string \<Rightarrow> nat \<Rightarrow> (string \<times> f64) list" where
  "query_bm25 U seg query top_k =
     (let terms = tokenize U query in
      if terms = [] \<or> num_docs seg = 0 then []
      else take top_k (sort_by score_cmp (fm_entries (fold (score_term U seg) terms fmempty))))"

definition bm25_doc_score :: "'z fts_ops_scheme \<Rightarrow> string \<Rightarrow> string \<Rightarrow> f64 \<Rightarrow> 32 word \<Rightarrow> f64" where
  "bm25_doc_score U doc_text query avgdl nd =
     (let terms = tokenize U query; doc_tokens = tokenize U doc_text in
      if terms = [] \<or> doc_tokens = [] then Fin 0
      else let dl = f64_of_nat (length doc_tokens);
               avgdl' = f64_max avgdl (Fin 1);
               n = f64_of_nat (unat (max nd 1))
           in fold (\<lambda>t score.
                 let tf = f64_of_nat (count_list doc_tokens t)
                 in if f64_eq tf (Fin 0) then score
                    else f64_add score (bm25_term U n (Fin 1) tf dl avgdl')) terms (Fin 0))"

section \<open>Schema\<close>

definition index_fields_from_schema :: "json \<Rightarrow> string list" where
  "index_fields_from_schema sch =
     (case as_object sch of
        None \<Rightarrow> []
      | Some obj \<Rightarrow>
          (let explicit = map fst (filter (\<lambda>(_, spec).
                 Option.bind (Option.bind (as_object spec) (jget ''full_text_search'')) as_bool = Some True) obj)
           in if explicit \<noteq> [] then explicit
              else map fst (filter (\<lambda>(_, spec). field_full_text_search spec) obj)))"

definition build_segments_for_docs ::
  "'z fts_ops_scheme \<Rightarrow> u64 \<Rightarrow> json \<Rightarrow> (string \<times> document) list \<Rightarrow> fts_segment list" where
  "build_segments_for_docs U sid sch docs =
     (case index_fields_from_schema sch of
        [] \<Rightarrow> [fts_build U sid [] docs]
      | flds \<Rightarrow> map (\<lambda>f. fts_build U sid f docs) flds)"

definition wal_touched_doc_ids :: "wal_entry list \<Rightarrow> string fset" where
  "wal_touched_doc_ids entries =
     fset_of_list (concat (map (\<lambda>e. deletes e @ map wu_id (upserts e) @ map wp_id (patches e)) entries))"

section \<open>What a segment represents\<close>

text \<open>
  A segment represents the token lists of the documents it was given, as a function \<open>F\<close> from ids
  to tokens: every document with tokens has its length recorded, every term lists exactly the
  documents it occurs in with its frequency, and the collection counters are exact.
\<close>

definition plist :: "fts_segment \<Rightarrow> string \<Rightarrow> fts_posting list" where
  "plist seg t = (case fmlookup (fts_postings seg) t of Some l \<Rightarrow> l | None \<Rightarrow> [])"

definition indexed_ids :: "(string \<Rightarrow> string list) \<Rightarrow> string set" where
  "indexed_ids F = {k. F k \<noteq> []}"

definition token_total :: "(string \<Rightarrow> string list) \<Rightarrow> nat" where
  "token_total F = (\<Sum>k \<in> indexed_ids F. length (F k))"

definition fts_rep :: "(string \<Rightarrow> string list) \<Rightarrow> fts_segment \<Rightarrow> bool" where
  "fts_rep F seg \<longleftrightarrow>
     finite (indexed_ids F) \<and> token_total F < 2 ^ 32 \<and>
     (\<forall>k. fmlookup (doc_lengths seg) k = (if F k = [] then None else Some (of_nat (length (F k))))) \<and>
     num_docs seg = of_nat (card (indexed_ids F)) \<and> total_doc_len seg = of_nat (token_total F) \<and>
     (\<forall>t. fmlookup (fts_postings seg) t \<noteq> Some []) \<and>
     (\<forall>t. distinct (map p_doc_id (plist seg t))) \<and>
     (\<forall>t p. p \<in> set (plist seg t) \<longleftrightarrow>
        t \<in> set (F (p_doc_id p)) \<and> term_freq p = of_nat (count_list (F (p_doc_id p)) t))"

definition doc_tokens :: "'z fts_ops_scheme \<Rightarrow> string \<Rightarrow> docs \<Rightarrow> string \<Rightarrow> string list" where
  "doc_tokens U field docs k =
     (case fmlookup docs k of Some d \<Rightarrow> tokenize U (extract_index_text U d field) | None \<Rightarrow> [])"


section \<open>Counters\<close>

lemma saturating_sub_of_nat:
  "n \<le> m \<Longrightarrow> m < 2 ^ LENGTH('a) \<Longrightarrow> saturating_sub (of_nat m :: 'a::len word) (of_nat n) = of_nat (m - n)"
  by (simp add: saturating_sub_def word_le_nat_alt unat_of_nat take_bit_nat_eq_self)

lemma ucast_of_nat_small: "n < 2 ^ 32 \<Longrightarrow> (ucast (of_nat n :: 32 word) :: 64 word) = of_nat n"
  by (simp add: word_unat_eq_iff unsigned_ucast_eq unat_of_nat take_bit_nat_eq_self)

lemma unat_of_nat_32: "n < 2 ^ 32 \<Longrightarrow> unat (of_nat n :: 32 word) = n"
  by (simp add: unat_of_nat take_bit_nat_eq_self)

lemma fts_indexed_upd: "indexed_ids (F(i := ts)) = (if ts = [] then indexed_ids F - {i} else insert i (indexed_ids F))"
  by (auto simp: indexed_ids_def)

lemma card_le_total: "finite (indexed_ids F) \<Longrightarrow> card (indexed_ids F) \<le> token_total F"
  unfolding token_total_def card_eq_sum by (rule sum_mono) (auto simp: indexed_ids_def Suc_le_eq)

lemma length_le_total: "finite (indexed_ids F) \<Longrightarrow> length (F i) \<le> token_total F"
proof (cases "F i = []")
  case False
  assume "finite (indexed_ids F)"
  then show ?thesis
    unfolding token_total_def using False member_le_sum [of i "indexed_ids F" "\<lambda>k. length (F k)"]
    by (simp add: indexed_ids_def)
qed simp

lemma total_remove: "finite (indexed_ids F) \<Longrightarrow> token_total (F(i := [])) = token_total F - length (F i)"
proof (cases "F i = []")
  case False
  assume fin: "finite (indexed_ids F)"
  have "(\<Sum>k \<in> indexed_ids F - {i}. length ((F(i := [])) k)) = (\<Sum>k \<in> indexed_ids F - {i}. length (F k))"
    by (intro sum.cong) auto
  moreover have "i \<in> indexed_ids F" using False by (simp add: indexed_ids_def)
  ultimately show ?thesis
    using fin by (simp add: token_total_def fts_indexed_upd sum_diff1_nat)
qed (simp add: fun_upd_idem)

lemma total_add: "finite (indexed_ids F) \<Longrightarrow> F i = [] \<Longrightarrow> token_total (F(i := ts)) = token_total F + length ts"
proof (cases "ts = []")
  case False
  assume fin: "finite (indexed_ids F)" and i: "F i = []"
  then have "i \<notin> indexed_ids F" by (simp add: indexed_ids_def)
  moreover have "(\<Sum>k \<in> indexed_ids F. length ((F(i := ts)) k)) = (\<Sum>k \<in> indexed_ids F. length (F k))"
    using i by (intro sum.cong) (auto simp: indexed_ids_def)
  ultimately show ?thesis
    using fin False by (simp add: token_total_def fts_indexed_upd)
qed (simp add: fun_upd_idem)

section \<open>Postings\<close>

lemma count_terms_fold:
  "fmlookup (fold (\<lambda>t m. fmupd t ((case fmlookup m t of Some n \<Rightarrow> n | None \<Rightarrow> 0) + 1) m) ts m) t =
     (if t \<in> set ts then Some ((case fmlookup m t of Some n \<Rightarrow> n | None \<Rightarrow> 0) + of_nat (count_list ts t))
      else fmlookup m t)"
  for m :: "(string, 32 word) fmap"
proof (induction ts arbitrary: m)
  case (Cons x xs)
  show ?case
    by (cases "t \<in> set xs"; cases "x = t") (auto simp: Cons split: option.splits)
qed simp

lemma count_terms_lookup:
  "fmlookup (count_terms ts) t = (if t \<in> set ts then Some (of_nat (count_list ts t)) else None)"
  by (simp add: count_terms_def count_terms_fold)

lemma fold_push_posting:
  "distinct (map fst es) \<Longrightarrow>
   fmlookup (fold (push_posting i) es m) t =
     (case map_of es t of
        Some n \<Rightarrow> Some ((case fmlookup m t of Some l \<Rightarrow> l | None \<Rightarrow> []) @ [\<lparr>p_doc_id = i, term_freq = n\<rparr>])
      | None \<Rightarrow> fmlookup m t)"
proof (induction es arbitrary: m)
  case (Cons e es)
  show ?case
  proof (cases "t = fst e")
    case True
    then have "map_of es t = None" using Cons.prems by (simp add: map_of_eq_None_iff)
    then show ?thesis using Cons True by (cases e) (simp add: push_posting_def)
  next
    case False
    then show ?thesis using Cons by (cases e) (simp add: push_posting_def split: option.splits)
  qed
qed simp

lemma plist_remove:
  "fmlookup (doc_lengths seg) i = Some n \<Longrightarrow>
   plist (fts_remove_document i seg) t = filter (\<lambda>p. p_doc_id p \<noteq> i) (plist seg t)"
  by (auto simp: plist_def fts_remove_document_def fm_retain_lookup split: option.splits)

section \<open>Maintenance keeps the representation\<close>

lemma remove_rep:
  assumes rep: "fts_rep F seg"
  shows "fts_rep (F(i := [])) (fts_remove_document i seg)"
proof (cases "F i = []")
  case True
  then have "fmlookup (doc_lengths seg) i = None" using rep by (simp add: fts_rep_def)
  then show ?thesis using rep True by (simp add: fts_remove_document_def fun_upd_idem)
next
  case False
  let ?seg = "fts_remove_document i seg" and ?F = "F(i := [])"
  have fin: "finite (indexed_ids F)" and small: "token_total F < 2 ^ 32"
    and dl: "fmlookup (doc_lengths seg) i = Some (of_nat (length (F i)))"
    and nd: "num_docs seg = of_nat (card (indexed_ids F))" and tl: "total_doc_len seg = of_nat (token_total F)"
    using rep False by (simp_all add: fts_rep_def)
  have i: "i \<in> indexed_ids F" using False by (simp add: indexed_ids_def)
  have le: "length (F i) \<le> token_total F" "card (indexed_ids F) \<le> token_total F"
    using length_le_total [OF fin] card_le_total [OF fin] by simp_all
  have c: "1 \<le> card (indexed_ids F)" using fin i by (metis One_nat_def Suc_leI card_gt_0_iff empty_iff)
  have tot: "token_total ?F = token_total F - length (F i)" by (rule total_remove [OF fin])
  have "num_docs ?seg = of_nat (card (indexed_ids F) - 1)"
    using saturating_sub_of_nat [of 1 "card (indexed_ids F)", where 'a = 32] c le small
    by (simp add: fts_remove_document_def dl nd)
  then have "num_docs ?seg = of_nat (card (indexed_ids ?F))"
    using fin i by (simp add: fts_indexed_upd)
  moreover have "total_doc_len ?seg = of_nat (token_total ?F)"
    using saturating_sub_of_nat [of "length (F i)" "token_total F", where 'a = 64] le small
    by (simp add: fts_remove_document_def dl tl tot ucast_of_nat_small)
  moreover have "fmlookup (doc_lengths ?seg) k = (if ?F k = [] then None else Some (of_nat (length (?F k))))" for k
    using rep by (simp add: fts_remove_document_def dl fts_rep_def)
  moreover have "fmlookup (fts_postings ?seg) t \<noteq> Some []" for t
    by (auto simp: fts_remove_document_def dl fm_retain_lookup split: option.splits if_splits)
  moreover have "distinct (map p_doc_id (plist ?seg t))" for t
    using rep by (simp add: plist_remove [OF dl] fts_rep_def distinct_map_filter)
  moreover have "p \<in> set (plist ?seg t) \<longleftrightarrow> t \<in> set (?F (p_doc_id p)) \<and> term_freq p = of_nat (count_list (?F (p_doc_id p)) t)" for t p
    using rep by (simp add: plist_remove [OF dl] fts_rep_def)
  ultimately show ?thesis
    using fin small tot unfolding fts_rep_def by (simp add: fts_indexed_upd)
qed

lemma plist_add:
  assumes "ts = tokenize U (extract_index_text U d (fts_field seg))"
  shows "plist (fts_add_document U i d seg) t =
    plist seg t @ (if t \<in> set ts then [\<lparr>p_doc_id = i, term_freq = of_nat (count_list ts t)\<rparr>] else [])"
proof (cases "ts = []")
  case False
  then have "fmlookup (fts_postings (fts_add_document U i d seg)) t =
    (case map_of (fm_entries (count_terms ts)) t of
        Some n \<Rightarrow> Some ((case fmlookup (fts_postings seg) t of Some l \<Rightarrow> l | None \<Rightarrow> []) @ [\<lparr>p_doc_id = i, term_freq = n\<rparr>])
      | None \<Rightarrow> fmlookup (fts_postings seg) t)"
    using assms fold_push_posting [of "fm_entries (count_terms ts)" i "fts_postings seg" t]
    by (simp add: fts_add_document_def Let_def)
  then show ?thesis
    by (auto simp: plist_def map_of_fm_entries count_terms_lookup)
qed (use assms in \<open>simp add: fts_add_document_def\<close>)

lemma add_rep:
  assumes rep: "fts_rep F seg" and i: "F i = []" and ts: "ts = tokenize U (extract_index_text U d (fts_field seg))"
    and small: "token_total F + length ts < 2 ^ 32"
  shows "fts_rep (F(i := ts)) (fts_add_document U i d seg)"
proof (cases "ts = []")
  case True
  then show ?thesis using rep i ts by (simp add: fts_add_document_def fun_upd_idem)
next
  case False
  let ?seg = "fts_add_document U i d seg" and ?F = "F(i := ts)"
  have fin: "finite (indexed_ids F)" and ni: "i \<notin> indexed_ids F"
    using rep i by (simp_all add: fts_rep_def indexed_ids_def)
  have tot: "token_total ?F = token_total F + length ts" by (rule total_add [OF fin i])
  have flds: "num_docs ?seg = num_docs seg + 1" "total_doc_len ?seg = total_doc_len seg + ucast (of_nat (length ts) :: 32 word)"
    "doc_lengths ?seg = fmupd i (of_nat (length ts)) (doc_lengths seg)"
    using False ts by (simp_all add: fts_add_document_def Let_def)
  have "num_docs ?seg = of_nat (card (indexed_ids ?F))"
    using rep fin ni False by (simp add: flds fts_rep_def fts_indexed_upd)
  moreover have "total_doc_len ?seg = of_nat (token_total ?F)"
    using rep small ucast_of_nat_small [of "length ts"] by (simp add: flds fts_rep_def tot)
  moreover have "fmlookup (doc_lengths ?seg) k = (if ?F k = [] then None else Some (of_nat (length (?F k))))" for k
    using rep False by (simp add: flds fts_rep_def)
  moreover have "fmlookup (fts_postings ?seg) t \<noteq> Some []" for t
    using rep plist_add [OF ts, of i t] fold_push_posting [of "fm_entries (count_terms ts)" i "fts_postings seg" t] ts False
    by (auto simp: fts_add_document_def Let_def fts_rep_def split: option.splits)
  moreover have mem: "p \<in> set (plist ?seg t) \<longleftrightarrow> t \<in> set (?F (p_doc_id p)) \<and> term_freq p = of_nat (count_list (?F (p_doc_id p)) t)" for t p
    using rep i by (cases p) (auto simp: plist_add [OF ts] fts_rep_def)
  moreover have "distinct (map p_doc_id (plist ?seg t))" for t
    using rep i by (auto simp: plist_add [OF ts] fts_rep_def)
  ultimately show ?thesis
    using fin small tot unfolding fts_rep_def by (simp add: fts_indexed_upd)
qed

end
