(* ===== verification/Fts_Correct.thy ===== *)
theory Fts_Correct
  imports Fts
begin

text \<open>
  Properties of the full-text index: maintenance keeps it exact, its candidates are those of a
  scan, BM25 ranking is total and complete, and the score of an unindexed document agrees with
  the score it has in the index.
\<close>

section \<open>Deltas\<close>

lemma fts_field_remove [simp]: "fts_field (fts_remove_document i seg) = fts_field seg"
  by (simp add: fts_remove_document_def split: option.splits)

lemma fts_field_add [simp]: "fts_field (fts_add_document U i d seg) = fts_field seg"
  by (simp add: fts_add_document_def Let_def)

lemma doc_tokens_drop: "doc_tokens U f (fmdrop i docs) = (doc_tokens U f docs)(i := [])"
  by (auto simp: doc_tokens_def fun_eq_iff)

lemma doc_tokens_upd: "doc_tokens U f (fmupd i d docs) = (doc_tokens U f docs)(i := tokenize U (extract_index_text U d f))"
  by (auto simp: doc_tokens_def fun_eq_iff)

lemma removes_rep:
  "fts_rep (doc_tokens U f docs) seg \<Longrightarrow>
   fts_rep (doc_tokens U f (fmdrop_list dels docs)) (fold fts_remove_document dels seg) \<and>
   token_total (doc_tokens U f (fmdrop_list dels docs)) \<le> token_total (doc_tokens U f docs) \<and>
   fts_field (fold fts_remove_document dels seg) = fts_field seg"
proof (induction dels arbitrary: docs seg)
  case (Cons i dels)
  have "fts_rep (doc_tokens U f (fmdrop i docs)) (fts_remove_document i seg)"
    using remove_rep [OF Cons.prems] by (simp add: doc_tokens_drop)
  moreover have "token_total (doc_tokens U f (fmdrop i docs)) \<le> token_total (doc_tokens U f docs)"
    using Cons.prems by (simp add: doc_tokens_drop total_remove fts_rep_def)
  ultimately show ?case using Cons.IH [of "fmdrop i docs" "fts_remove_document i seg"] by (simp add: fmdrop_list_def)
qed (simp add: fmdrop_list_def)

definition upsert_tokens :: "'z fts_ops_scheme \<Rightarrow> string \<Rightarrow> (string \<times> document) list \<Rightarrow> nat" where
  "upsert_tokens U f ups = sum_list (map (\<lambda>(i, d). length (tokenize U (extract_index_text U d f))) ups)"

definition put_docs :: "(string \<times> document) list \<Rightarrow> docs \<Rightarrow> docs" where
  "put_docs ups docs = fold (\<lambda>(i, d). fmupd i d) ups docs"

lemma upserts_rep:
  "fts_rep (doc_tokens U f docs) seg \<Longrightarrow> f = fts_field seg \<Longrightarrow>
   token_total (doc_tokens U f docs) + upsert_tokens U f ups < 2 ^ 32 \<Longrightarrow>
   fts_rep (doc_tokens U f (put_docs ups docs))
     (fold (\<lambda>(i, d) s. fts_add_document U i d (fts_remove_document i s)) ups seg)"
proof (induction ups arbitrary: docs seg)
  case (Cons id ups)
  obtain i d where id: "id = (i, d)" by (cases id)
  let ?F = "doc_tokens U f docs" and ?ts = "tokenize U (extract_index_text U d f)"
  have fin: "finite (indexed_ids ?F)" using Cons.prems(1) by (simp add: fts_rep_def)
  have rem: "fts_rep (?F(i := [])) (fts_remove_document i seg)" by (rule remove_rep [OF Cons.prems(1)])
  have small: "token_total ?F + length ?ts + upsert_tokens U f ups < 2 ^ 32"
    using Cons.prems(3) by (simp add: upsert_tokens_def id)
  have le: "token_total (?F(i := [])) \<le> token_total ?F" using total_remove [OF fin] by simp
  have "fts_rep ((?F(i := []))(i := ?ts)) (fts_add_document U i d (fts_remove_document i seg))"
    using le small Cons.prems(2) by (intro add_rep [OF rem]) auto
  then have rep1: "fts_rep (doc_tokens U f (fmupd i d docs)) (fts_add_document U i d (fts_remove_document i seg))"
    by (simp add: doc_tokens_upd)
  have "token_total ((?F(i := []))(i := ?ts)) = token_total (?F(i := [])) + length ?ts"
    using rem by (intro total_add) (auto simp: fts_rep_def)
  then have "token_total (doc_tokens U f (fmupd i d docs)) + upsert_tokens U f ups < 2 ^ 32"
    using le small by (simp add: doc_tokens_upd)
  then show ?case
    using Cons.IH [OF rep1] Cons.prems(2) by (simp add: id put_docs_def)
qed (simp add: put_docs_def)

lemma fts_empty_rep: "fts_rep (doc_tokens U f fmempty) (fts_empty sid g)"
  by (simp add: fts_rep_def fts_empty_def doc_tokens_def indexed_ids_def token_total_def plist_def)

text \<open>
  C7. Index maintenance is exact: as long as the collection holds fewer than \<open>2 ^ 32\<close> tokens, a
  segment that represents the documents represents, after a delta of deletes and upserts, the
  updated documents: lengths, posting lists, frequencies and both collection counters, with no
  wrap-around and no empty posting list left behind.
\<close>

theorem fts_delta_keeps_index:
  assumes "fts_rep (doc_tokens U (fts_field seg) docs) seg"
    and "token_total (doc_tokens U (fts_field seg) docs) + upsert_tokens U (fts_field seg) ups < 2 ^ 32"
  shows "fts_rep (doc_tokens U (fts_field seg) (put_docs ups (fmdrop_list dels docs))) (fts_apply_delta U ups dels seg)"
proof -
  note r = removes_rep [OF assms(1), of dels]
  show ?thesis
    unfolding fts_apply_delta_def using r assms(2) by (intro upserts_rep) auto
qed

definition ascii_fts :: fts_ops where
  "ascii_fts = text_ops.extend ascii_ops
     (fts_ops.fields (\<lambda>_. []) (\<lambda>x. case x of Fin q \<Rightarrow> Fin (max 0 (min 64 (q - 1))) | _ \<Rightarrow> x))"

definition doc_fox :: document where
  "doc_fox = \<lparr>doc_id = ''f'', attributes = fmap_of_list [(''t'', JString ''Fox and fox'')]\<rparr>"

definition doc_hen :: document where
  "doc_hen = \<lparr>doc_id = ''h'', attributes = fmap_of_list [(''t'', JString ''hen'')]\<rparr>"

lemma sample_tokens [simp]:
  "tokenize ascii_fts (extract_index_text ascii_fts doc_fox ''t'') = [''fox'', ''fox'']"
  "tokenize ascii_fts (extract_index_text ascii_fts doc_hen ''t'') = [''hen'']"
  by code_simp+

lemma sample_fts_rep:
  "fts_rep (doc_tokens ascii_fts ''t'' (put_docs [(''f'', doc_fox), (''h'', doc_hen)] fmempty))
     (fts_apply_delta ascii_fts [(''f'', doc_fox), (''h'', doc_hen)] [] (fts_empty 1 ''t''))"
  unfolding fts_apply_delta_def fold_Nil id_apply
  by (rule upserts_rep [OF fts_empty_rep])
    (simp_all add: fts_empty_def upsert_tokens_def doc_tokens_def indexed_ids_def token_total_def)

theorem fts_delta_keeps_index_witness:
  "fts_rep (doc_tokens ascii_fts ''t'' (put_docs [(''f'', doc_fox)] (fmdrop_list [] fmempty)))
     (fts_apply_delta ascii_fts [(''f'', doc_fox)] [] (fts_empty 1 ''t''))"
  using fts_delta_keeps_index [of ascii_fts "fts_empty 1 ''t''" fmempty "[(''f'', doc_fox)]" "[]"]
    fts_empty_rep [of ascii_fts "''t''" 1 "''t''"]
  by (simp add: fts_empty_def upsert_tokens_def doc_tokens_def indexed_ids_def token_total_def)

section \<open>Candidates\<close>

lemma fold_finsert_ids: "fset (fold (\<lambda>p. finsert (p_doc_id p)) l ids) = fset ids \<union> p_doc_id ` set l"
  by (induction l arbitrary: ids) auto

lemma candidates_fold:
  "fset (fold (\<lambda>t ids. case fmlookup (fts_postings seg) t of
             Some l \<Rightarrow> fold (\<lambda>p. finsert (p_doc_id p)) l ids
           | None \<Rightarrow> ids) ts ids) = fset ids \<union> (\<Union>t \<in> set ts. p_doc_id ` set (plist seg t))"
  by (induction ts arbitrary: ids) (auto simp: fold_finsert_ids plist_def split: option.splits)

lemma plist_ids: "fts_rep F seg \<Longrightarrow> p_doc_id ` set (plist seg t) = {k. t \<in> set (F k)}"
proof -
  assume rep: "fts_rep F seg"
  have "k \<in> p_doc_id ` set (plist seg t)" if "t \<in> set (F k)" for k
  proof -
    have "\<lparr>p_doc_id = k, term_freq = of_nat (count_list (F k) t)\<rparr> \<in> set (plist seg t)"
      using rep that by (simp add: fts_rep_def)
    then show ?thesis by force
  qed
  then show ?thesis using rep by (auto simp: fts_rep_def)
qed

text \<open>
  C17. Candidate generation misses nothing: on a segment that represents the documents, the
  candidates of a query are exactly the documents that contain one of its tokens.
\<close>

theorem fts_candidates_equal_scan:
  assumes "fts_rep (doc_tokens U f docs) seg"
  shows "fset (candidate_doc_ids U seg query) =
    {k. \<exists>d t. fmlookup docs k = Some d \<and> t \<in> set (tokenize U query) \<and> t \<in> set (tokenize U (extract_index_text U d f))}"
  unfolding candidate_doc_ids_def candidates_fold plist_ids [OF assms]
  by (auto simp: doc_tokens_def split: option.splits dest!: sym [of "Some _"])

theorem fts_candidates_equal_scan_witness:
  "''f'' |\<in>| candidate_doc_ids ascii_fts
       (fts_apply_delta ascii_fts [(''f'', doc_fox), (''h'', doc_hen)] [] (fts_empty 1 ''t'')) ''a Fox!'' \<and>
   ''h'' |\<notin>| candidate_doc_ids ascii_fts
       (fts_apply_delta ascii_fts [(''f'', doc_fox), (''h'', doc_hen)] [] (fts_empty 1 ''t'')) ''a Fox!''"
proof -
  have "tokenize ascii_fts ''a Fox!'' = [''fox'']" by code_simp
  then show ?thesis
    using fts_candidates_equal_scan [OF sample_fts_rep, of "''a Fox!''"] by (auto simp: put_docs_def)
qed

section \<open>Scores\<close>

text \<open>The natural logarithm of a finite value from 1 to \<open>2 ^ 64\<close> is a finite value from 0 to 64.\<close>

definition ln_law :: "'z fts_ops_scheme \<Rightarrow> bool" where
  "ln_law U \<longleftrightarrow> (\<forall>q. 1 \<le> q \<longrightarrow> q \<le> 2 ^ 64 \<longrightarrow> f64_in 0 64 (ln64 U (Fin q)))"

lemma ln_law_in: "ln_law U \<Longrightarrow> f64_in 1 b x \<Longrightarrow> b \<le> 2 ^ 64 \<Longrightarrow> f64_nonneg (ln64 U x)"
  using f64_in_nonneg by (fastforce simp: ln_law_def f64_in_def [of 1 b])

lemma idf_nonneg:
  assumes "ln_law U" and "1 \<le> df" and "df \<le> n" and "n < 2 ^ 32"
  shows "f64_nonneg (ln64 U (f64_add (f64_div (f64_add (f64_sub (Fin (of_nat n)) (Fin (of_nat df))) (Fin (1 / 2)))
      (f64_add (Fin (of_nat df)) (Fin (1 / 2)))) (Fin 1)))"
proof -
  have n: "(of_nat n :: rat) \<le> 2 ^ 32" and df: "1 \<le> (of_nat df :: rat)" "(of_nat df :: rat) \<le> 2 ^ 32"
    using assms pow_rat(2) [of n 32] pow_rat(2) [of df 32] by auto
  have d: "(of_nat n :: rat) - of_nat df = of_nat (n - df)" using assms(3) by (simp add: of_nat_diff)
  have le: "(of_nat n :: rat) - of_nat df \<le> 2 ^ 32" using n df by linarith
  have "f64_in 0 (2 * 2 ^ 32) (f64_sub (Fin (of_nat n)) (Fin (of_nat df)))"
    using f64_in_mono [OF f64_sub_nonneg [OF _ _ d], of 0 "2 * 2 ^ 32"] le assms(3) by simp
  then have a: "f64_in (1 / 4) (2 ^ 35) (f64_add (f64_sub (Fin (of_nat n)) (Fin (of_nat df))) (Fin (1 / 2)))"
    using f64_add_in(1) [of 0 "2 * 2 ^ 32" _ "1 / 2" "1 / 2" "Fin (1 / 2)"] f64_in_mono by fastforce
  have "f64_in 1 (2 ^ 35) (f64_add (Fin (of_nat df)) (Fin (1 / 2)))"
    using f64_add_in(2) [of 1 "2 ^ 32" "Fin (of_nat df)" "1 / 2" "1 / 2" "Fin (1 / 2)"] df f64_in_mono by fastforce
  then have "f64_in (1 / 2 ^ 40) (2 ^ 40)
      (f64_div (f64_add (f64_sub (Fin (of_nat n)) (Fin (of_nat df))) (Fin (1 / 2))) (f64_add (Fin (of_nat df)) (Fin (1 / 2))))"
    using f64_div_in(1) [OF a] f64_in_mono by fastforce
  then have "f64_in 1 (2 ^ 42)
      (f64_add (f64_div (f64_add (f64_sub (Fin (of_nat n)) (Fin (of_nat df))) (Fin (1 / 2)))
         (f64_add (Fin (of_nat df)) (Fin (1 / 2)))) (Fin 1))"
    using f64_add_in(2) [of "1 / 2 ^ 40" "2 ^ 40" _ 1 1 "Fin 1"] f64_in_mono by fastforce
  then show ?thesis using ln_law_in [OF assms(1)] by simp
qed

lemma k1_in: "f64_in (1 / 2) 3 BM25_K1"
  using f64_in_mono [OF f64_of_rat_in(1) [of "12 / 10" "12 / 10" "12 / 10"]] by (simp add: BM25_K1_def)

lemma num_in:
  assumes "1 \<le> tf" and "tf \<le> 2 ^ 32"
  shows "f64_in (1 / 4) (2 ^ 40) (f64_mul (Fin tf) (f64_add BM25_K1 (Fin 1)))"
proof -
  have "f64_in 1 8 (f64_add BM25_K1 (Fin 1))"
    using f64_add_in(2) [OF k1_in, of 1 1 "Fin 1"] by simp
  then show ?thesis
    using f64_mul_in [of 1 "2 ^ 32" "Fin tf" 1 8] assms f64_in_mono by fastforce
qed

lemma den_in:
  assumes "1 \<le> tf" and "tf \<le> 2 ^ 32" and "1 \<le> dl" and "dl \<le> 2 ^ 32" and "f64_in 1 (2 ^ 40) avgdl"
  shows "f64_in (1 / 4) (2 ^ 100)
    (f64_add (Fin tf) (f64_mul BM25_K1 (f64_add (f64_sub (Fin 1) BM25_B) (f64_div (f64_mul BM25_B (Fin dl)) avgdl))))"
proof -
  have b: "BM25_B = Fin (3 / 4)" unfolding BM25_B_def by (rule three_quarters)
  have "f64_sub (Fin 1) BM25_B = f64_of_rat (1 / 4)"
    by (simp add: b fp_sub_def fp_add_def f64_is_inf_def)
  then have s: "f64_in (1 / 8) (1 / 2) (f64_sub (Fin 1) BM25_B)"
    using f64_of_rat_in(1) [of "1 / 4" "1 / 4" "1 / 4"] by simp
  have m: "f64_in (3 / 8) (2 ^ 34) (f64_mul BM25_B (Fin dl))"
    using f64_mul_in [of "3 / 4" "3 / 4" BM25_B 1 "2 ^ 32" "Fin dl"] assms(3,4) f64_in_mono by (fastforce simp: b)
  have "f64_in (1 / 2 ^ 45) (2 ^ 35) (f64_div (f64_mul BM25_B (Fin dl)) avgdl)"
    using f64_div_in(1) [OF m assms(5)] f64_in_mono by fastforce
  then have "f64_in (1 / 32) (2 ^ 40) (f64_add (f64_sub (Fin 1) BM25_B) (f64_div (f64_mul BM25_B (Fin dl)) avgdl))"
    using f64_add_in(1) [OF s] f64_in_mono by fastforce
  then have "f64_in (1 / 128) (2 ^ 50)
      (f64_mul BM25_K1 (f64_add (f64_sub (Fin 1) BM25_B) (f64_div (f64_mul BM25_B (Fin dl)) avgdl)))"
    using f64_mul_in [OF k1_in] f64_in_mono by fastforce
  then show ?thesis
    using f64_add_in(1) [of 1 "2 ^ 32" "Fin tf"] assms(1,2) f64_in_mono by fastforce
qed

lemma bm25_term_nonneg:
  assumes "ln_law U" and "1 \<le> df" and "df \<le> n" and "n < 2 ^ 32" and "1 \<le> tf" and "tf \<le> 2 ^ 32"
    and "1 \<le> dl" and "dl \<le> 2 ^ 32" and "f64_in 1 (2 ^ 40) avgdl"
  shows "f64_nonneg (bm25_term U (Fin (of_nat n)) (Fin (of_nat df)) (Fin tf) (Fin dl) avgdl)"
proof -
  note i = idf_nonneg [OF assms(1-4)] and nm = num_in [OF assms(5,6)] and dn = den_in [OF assms(5-9)]
  show ?thesis
    unfolding bm25_term_def Let_def
    by (rule f64_div_nonneg [OF f64_mul_nonneg [OF i nm] dn]) simp_all
qed

section \<open>Ranking\<close>

lemma rep_num_docs: "fts_rep F seg \<Longrightarrow> unat (num_docs seg) = card (indexed_ids F)"
  using card_le_total [of F] by (simp add: fts_rep_def unat_of_nat_32)

lemma rep_plist_length: "fts_rep F seg \<Longrightarrow> length (plist seg t) \<le> card (indexed_ids F)"
proof -
  assume rep: "fts_rep F seg"
  have "length (plist seg t) = card (p_doc_id ` set (plist seg t))"
    using rep distinct_card [of "map p_doc_id (plist seg t)"] by (simp add: fts_rep_def)
  also have "\<dots> \<le> card (indexed_ids F)"
    using rep by (intro card_mono) (auto simp: fts_rep_def indexed_ids_def)
  finally show ?thesis .
qed

lemma rep_posting:
  assumes rep: "fts_rep F seg" and p: "p \<in> set (plist seg t)"
  shows "unat (term_freq p) = count_list (F (p_doc_id p)) t" "0 < count_list (F (p_doc_id p)) t"
    "fmlookup (doc_lengths seg) (p_doc_id p) = Some (of_nat (length (F (p_doc_id p))))"
    "unat (of_nat (length (F (p_doc_id p))) :: 32 word) = length (F (p_doc_id p))"
    "count_list (F (p_doc_id p)) t \<le> length (F (p_doc_id p))" "length (F (p_doc_id p)) < 2 ^ 32"
proof -
  have t: "t \<in> set (F (p_doc_id p))" and tf: "term_freq p = of_nat (count_list (F (p_doc_id p)) t)"
    using rep p by (auto simp: fts_rep_def)
  show l: "length (F (p_doc_id p)) < 2 ^ 32"
    using rep length_le_total [of F "p_doc_id p"] by (simp add: fts_rep_def)
  then show "unat (of_nat (length (F (p_doc_id p))) :: 32 word) = length (F (p_doc_id p))" by (rule unat_of_nat_32)
  show c: "count_list (F (p_doc_id p)) t \<le> length (F (p_doc_id p))" by (rule count_le_length)
  show "unat (term_freq p) = count_list (F (p_doc_id p)) t" using l c by (simp add: tf unat_of_nat_32)
  show "0 < count_list (F (p_doc_id p)) t" using t by (simp add: count_list_0_iff flip: neq0_conv)
  show "fmlookup (doc_lengths seg) (p_doc_id p) = Some (of_nat (length (F (p_doc_id p))))"
    using rep t by (auto simp: fts_rep_def)
qed

lemma avg_in:
  assumes rep: "fts_rep F seg" and nd: "num_docs seg \<noteq> 0"
  shows "f64_in 1 (2 ^ 40) (avg_doc_len seg)"
proof -
  let ?n = "card (indexed_ids F)" and ?t = "token_total F"
  have n: "unat (num_docs seg) = ?n" by (rule rep_num_docs [OF rep])
  have t: "unat (total_doc_len seg) = ?t"
    using rep by (simp add: fts_rep_def unat_of_nat take_bit_nat_eq_self)
  have pos: "1 \<le> ?n" using nd n by (metis One_nat_def Suc_leI neq0_conv unat_eq_zero)
  have le: "?n \<le> ?t" "?t < 2 ^ 32" using rep card_le_total [of F] by (simp_all add: fts_rep_def)
  have q: "1 \<le> (of_nat ?n :: rat)" "(of_nat ?n :: rat) \<le> of_nat ?t" "(of_nat ?t :: rat) \<le> 2 ^ 32" "(of_nat ?n :: rat) \<le> 2 ^ 32"
    using pos le pow_rat(2) [of ?t 32] pow_rat(2) [of ?n 32] by auto
  have "f64_in 1 (2 * (of_nat ?t / of_nat ?n)) (f64_div (Fin (of_nat ?t)) (Fin (of_nat ?n)))"
    using q by (intro f64_div_in(2) [of "of_nat ?t" _ _ _ "of_nat ?n"]) (auto simp: field_simps)
  moreover have "2 * ((of_nat ?t :: rat) / of_nat ?n) \<le> 2 ^ 40"
    using q by (simp add: field_simps)
  ultimately show ?thesis
    using nd le f64_in_mono by (auto simp: avg_doc_len_def n t f64_of_nat_small)
qed

definition posting_score :: "'z fts_ops_scheme \<Rightarrow> fts_segment \<Rightarrow> fts_posting list \<Rightarrow> fts_posting \<Rightarrow> f64" where
  "posting_score U seg l p =
     bm25_term U (f64_of_nat (unat (num_docs seg))) (f64_of_nat (length l)) (f64_of_nat (unat (term_freq p)))
       (f64_of_nat (unat (case fmlookup (doc_lengths seg) (p_doc_id p) of Some n \<Rightarrow> n | None \<Rightarrow> 1))) (avg_doc_len seg)"

lemma score_term_plist:
  "score_term U seg t scores = fold (\<lambda>p. add_score (p_doc_id p) (posting_score U seg (plist seg t) p)) (plist seg t) scores"
  by (simp add: score_term_def plist_def posting_score_def split: option.splits)

lemma posting_score_rep:
  assumes rep: "fts_rep F seg" and p: "p \<in> set (plist seg t)"
  shows "posting_score U seg (plist seg t) p =
    bm25_term U (Fin (of_nat (card (indexed_ids F)))) (Fin (of_nat (length (plist seg t))))
      (Fin (of_nat (count_list (F (p_doc_id p)) t))) (Fin (of_nat (length (F (p_doc_id p))))) (avg_doc_len seg)"
proof -
  have "card (indexed_ids F) < 2 ^ 32" using rep card_le_total [of F] by (simp add: fts_rep_def)
  then show ?thesis
    using rep_posting [OF rep p] rep_plist_length [OF rep, of t]
    by (simp add: posting_score_def rep_num_docs [OF rep] f64_of_nat_small)
qed

lemma posting_score_nonneg:
  assumes rep: "fts_rep F seg" and ln: "ln_law U" and p: "p \<in> set (plist seg t)"
  shows "f64_nonneg (posting_score U seg (plist seg t) p)"
  unfolding posting_score_rep [OF rep p]
proof (rule bm25_term_nonneg [OF ln])
  note r = rep_posting [OF rep p]
  show "1 \<le> length (plist seg t)" using p by (cases "plist seg t") auto
  show n: "length (plist seg t) \<le> card (indexed_ids F)" by (rule rep_plist_length [OF rep])
  show "card (indexed_ids F) < 2 ^ 32" using rep card_le_total [of F] by (simp add: fts_rep_def)
  show "1 \<le> (of_nat (count_list (F (p_doc_id p)) t) :: rat)" using r(2) by (simp add: Suc_le_eq)
  show "1 \<le> (of_nat (length (F (p_doc_id p))) :: rat)" using r(2,5) by (cases "F (p_doc_id p)") auto
  show "(of_nat (count_list (F (p_doc_id p)) t) :: rat) \<le> 2 ^ 32" "(of_nat (length (F (p_doc_id p))) :: rat) \<le> 2 ^ 32"
    using r(5,6) pow_rat(2) [of _ 32] by (simp_all add: less_imp_le)
  show "f64_in 1 (2 ^ 40) (avg_doc_len seg)"
    using n length_pos_if_in_set [OF p] rep_num_docs [OF rep] by (intro avg_in [OF rep]) auto
qed

definition scores_ok :: "(string, f64) fmap \<Rightarrow> string set \<Rightarrow> bool" where
  "scores_ok m ids \<longleftrightarrow> fset (fmdom m) = ids \<and> (\<forall>k x. fmlookup m k = Some x \<longrightarrow> f64_nonneg x)"

lemma scores_ok_add: "scores_ok m ids \<Longrightarrow> f64_nonneg x \<Longrightarrow> scores_ok (add_score i x m) (insert i ids)"
  by (auto simp: scores_ok_def add_score_def f64_nonneg_def [of "Fin 0"] intro!: f64_add_nonneg split: option.splits)

lemma scores_ok_fold:
  "scores_ok m ids \<Longrightarrow> (\<And>p. p \<in> set l \<Longrightarrow> f64_nonneg (g p)) \<Longrightarrow>
   scores_ok (fold (\<lambda>p. add_score (p_doc_id p) (g p)) l m) (ids \<union> p_doc_id ` set l)"
proof (induction l arbitrary: m ids)
  case (Cons p l)
  then show ?case
    using Cons.IH [of "add_score (p_doc_id p) (g p) m" "insert (p_doc_id p) ids"] scores_ok_add [of m ids] by simp
qed simp

lemma scores_ok_terms:
  assumes rep: "fts_rep F seg" and ln: "ln_law U"
  shows "scores_ok m ids \<Longrightarrow>
    scores_ok (fold (score_term U seg) ts m) (ids \<union> (\<Union>t \<in> set ts. p_doc_id ` set (plist seg t)))"
proof (induction ts arbitrary: m ids)
  case (Cons t ts)
  have "scores_ok (score_term U seg t m) (ids \<union> p_doc_id ` set (plist seg t))"
    unfolding score_term_plist using Cons.prems posting_score_nonneg [OF rep ln] by (intro scores_ok_fold)
  from Cons.IH [OF this] show ?case by (simp add: Un_assoc)
qed simp

lemma fm_entries_fmempty [simp]: "fm_entries fmempty = []"
  by (simp add: fm_entries_def fm_keys_def sorted_list_of_fset.rep_eq)

lemma query_bm25_eq:
  assumes "fts_rep F seg"
  shows "query_bm25 U seg q k = take k (sort_by score_cmp (fm_entries (fold (score_term U seg) (tokenize U q) fmempty)))"
proof -
  have "score_term U seg t m = m" if "num_docs seg = 0" for t m
  proof -
    have "card (indexed_ids F) = 0" using rep_num_docs [OF assms] that by simp
    then have "plist seg t = []" using rep_plist_length [OF assms, of t] by simp
    then show ?thesis by (simp add: score_term_plist)
  qed
  then have "fold (score_term U seg) ts m = m" if "num_docs seg = 0" for ts m
    using that by (induction ts arbitrary: m) simp_all
  then show ?thesis by (simp add: query_bm25_def Let_def)
qed

lemma candidates_scores:
  assumes "fts_rep F seg" and "ln_law U"
  shows "scores_ok (fold (score_term U seg) (tokenize U q) fmempty) (fset (candidate_doc_ids U seg q))"
proof -
  have "scores_ok fmempty {}" by (simp add: scores_ok_def)
  then show ?thesis
    using scores_ok_terms [OF assms, of fmempty "{}" "tokenize U q"] by (simp add: candidate_doc_ids_def candidates_fold)
qed

text \<open>
  C8. BM25 ranking is well defined and complete: the result is sorted by descending score and
  ascending id, names each document once, contains only candidates and as many of them as were
  asked for, its scores are never NaN (so that the comparison the program sorts with is a total
  order), and asking for fewer results gives a prefix.
\<close>

theorem bm25_ranking:
  assumes "fts_rep F seg" and "ln_law U"
  shows "sorted_wrt (\<lambda>a b. score_cmp a b \<noteq> Greater) (query_bm25 U seg q k) \<and>
    distinct (map fst (query_bm25 U seg q k)) \<and>
    fst ` set (query_bm25 U seg q k) \<subseteq> fset (candidate_doc_ids U seg q) \<and>
    length (query_bm25 U seg q k) = min (fcard (candidate_doc_ids U seg q)) k \<and>
    (\<forall>(i, x) \<in> set (query_bm25 U seg q k). x \<noteq> NaN) \<and>
    query_bm25 U seg q (min j k) = take j (query_bm25 U seg q k)"
proof -
  let ?m = "fold (score_term U seg) (tokenize U q) fmempty"
  note ok = candidates_scores [OF assms, of q, unfolded scores_ok_def]
  have nn: "snd x \<noteq> NaN" if "x \<in> set (fm_entries ?m)" for x
    using that ok f64_nonneg_not_NaN fm_entries_iff [of "fst x" "snd x" ?m] by (metis prod.collapse)
  have dom: "fst ` set (fm_entries ?m) = fset (candidate_doc_ids U seg q)"
    using ok by (metis list.set_map map_fst_fm_entries set_fm_keys)
  have "fmdom ?m = candidate_doc_ids U seg q" using ok by (simp add: fset_inject)
  then have len: "length (fm_entries ?m) = fcard (candidate_doc_ids U seg q)"
    by (simp add: fm_entries_def fm_size_def)
  have srt: "sorted_wrt (\<lambda>a b. score_cmp a b \<noteq> Greater) (sort_by score_cmp (fm_entries ?m))"
    by (rule sorted_sort_by [OF total_score_cmp [OF nn]])
  have sub: "set (query_bm25 U seg q k) \<subseteq> set (fm_entries ?m)"
    using set_take_subset [of k] by (metis query_bm25_eq [OF assms(1)] set_sort_by)
  show ?thesis
  proof (intro conjI)
    show "sorted_wrt (\<lambda>a b. score_cmp a b \<noteq> Greater) (query_bm25 U seg q k)"
      using srt by (simp add: query_bm25_eq [OF assms(1)] sorted_wrt_take)
    show "distinct (map fst (query_bm25 U seg q k))"
      by (simp add: query_bm25_eq [OF assms(1)] distinct_take flip: take_map)
    show "fst ` set (query_bm25 U seg q k) \<subseteq> fset (candidate_doc_ids U seg q)"
      using sub dom by blast
    show "length (query_bm25 U seg q k) = min (fcard (candidate_doc_ids U seg q)) k"
      by (simp add: query_bm25_eq [OF assms(1)] len)
    show "\<forall>(i, x) \<in> set (query_bm25 U seg q k). x \<noteq> NaN"
      using sub nn by fastforce
    show "query_bm25 U seg q (min j k) = take j (query_bm25 U seg q k)"
      by (simp add: query_bm25_eq [OF assms(1)])
  qed
qed

lemma ascii_ln_law: "ln_law ascii_fts"
  by (simp add: ln_law_def ascii_fts_def text_ops.extend_def fts_ops.fields_def)

theorem bm25_ranking_witness:
  "length (query_bm25 ascii_fts (fts_apply_delta ascii_fts [(''f'', doc_fox), (''h'', doc_hen)] [] (fts_empty 1 ''t''))
     ''fox hen'' 5) \<le> 5"
  using bm25_ranking [OF sample_fts_rep ascii_ln_law, of "''fox hen''" 5] by simp

section \<open>The unindexed tail\<close>

lemma score_term_single:
  assumes rep: "fts_rep F seg" and only: "\<And>k'. t \<in> set (F k') \<Longrightarrow> k' = k"
  shows "score_term U seg t m =
    (if t \<in> set (F k)
     then add_score k (bm25_term U (Fin (of_nat (card (indexed_ids F)))) (Fin 1) (Fin (of_nat (count_list (F k) t)))
            (Fin (of_nat (length (F k)))) (avg_doc_len seg)) m
     else m)"
proof -
  have ids: "p_doc_id ` set (plist seg t) = (if t \<in> set (F k) then {k} else {})"
  proof -
    have "{k'. t \<in> set (F k')} \<subseteq> {k}" by (intro subsetI) (simp add: only)
    then show ?thesis unfolding plist_ids [OF rep] by (simp add: subset_singleton_iff, blast)
  qed
  show ?thesis
  proof (cases "t \<in> set (F k)")
    case True
    then have "card (p_doc_id ` set (plist seg t)) = 1" using ids by simp
    then have "length (plist seg t) = 1"
      using rep distinct_card [of "map p_doc_id (plist seg t)"] by (simp add: fts_rep_def)
    then obtain p where p: "plist seg t = [p]" by (cases "plist seg t") auto
    then have "p_doc_id p = k" using ids True by simp
    then show ?thesis
      using True posting_score_rep [OF rep, of p t U] by (simp add: score_term_plist p)
  next
    case False
    then have "plist seg t = []" using ids by simp
    then show ?thesis using False by (simp add: score_term_plist)
  qed
qed

definition tail_step :: "'z fts_ops_scheme \<Rightarrow> f64 \<Rightarrow> f64 \<Rightarrow> string list \<Rightarrow> string \<Rightarrow> f64 \<Rightarrow> f64" where
  "tail_step U n avgdl tokens t score =
     (let tf = f64_of_nat (count_list tokens t)
      in if f64_eq tf (Fin 0) then score
         else f64_add score (bm25_term U n (Fin 1) tf (f64_of_nat (length tokens)) avgdl))"

lemma bm25_doc_score_fold:
  "tokenize U doc \<noteq> [] \<Longrightarrow>
   bm25_doc_score U doc q avgdl nd =
     fold (tail_step U (f64_of_nat (unat (max nd 1))) (f64_max avgdl (Fin 1)) (tokenize U doc)) (tokenize U q) (Fin 0)"
  by (simp add: bm25_doc_score_def tail_step_def [abs_def] Let_def)

lemma tail_step_eq:
  assumes "length ts < 2 ^ 32"
  shows "tail_step U n avgdl ts t score =
    (if t \<in> set ts
     then f64_add score (bm25_term U n (Fin 1) (Fin (of_nat (count_list ts t))) (Fin (of_nat (length ts))) avgdl)
     else score)"
proof -
  have "count_list ts t < 2 ^ 53" "length ts < 2 ^ 53" using assms count_le_length [of ts t] by simp_all
  moreover have "f64_eq (Fin (of_nat (count_list ts t))) (Fin 0) \<longleftrightarrow> t \<notin> set ts"
    by (simp add: f64_eq_def f64_partial_cmp_def count_list_0_iff)
  ultimately show ?thesis by (simp add: tail_step_def f64_of_nat_small)
qed

lemma score_terms_single:
  assumes rep: "fts_rep F seg" and l: "length (F k) < 2 ^ 32"
    and only: "\<And>t k'. t \<in> set ts \<Longrightarrow> t \<in> set (F k') \<Longrightarrow> k' = k"
  shows "fset (fmdom (fold (score_term U seg) ts m)) \<subseteq> insert k (fset (fmdom m)) \<and>
    (case fmlookup (fold (score_term U seg) ts m) k of Some y \<Rightarrow> y | None \<Rightarrow> Fin 0) =
      fold (tail_step U (Fin (of_nat (card (indexed_ids F)))) (avg_doc_len seg) (F k)) ts
        (case fmlookup m k of Some y \<Rightarrow> y | None \<Rightarrow> Fin 0)"
  using only
proof (induction ts arbitrary: m)
  case (Cons t ts)
  note ih = Cons.IH [of "score_term U seg t m"]
  have st: "k' = k" if "t \<in> set (F k')" for k' using Cons.prems [of t k'] that by simp
  have sub: "fset (fmdom (score_term U seg t m)) \<subseteq> insert k (fset (fmdom m))"
    by (auto simp: score_term_single [OF rep st] add_score_def)
  have val: "(case fmlookup (score_term U seg t m) k of Some y \<Rightarrow> y | None \<Rightarrow> Fin 0) =
      tail_step U (Fin (of_nat (card (indexed_ids F)))) (avg_doc_len seg) (F k) t
        (case fmlookup m k of Some y \<Rightarrow> y | None \<Rightarrow> Fin 0)"
    by (simp add: score_term_single [OF rep st] tail_step_eq [OF l] add_score_def)
  have "fset (fmdom (fold (score_term U seg) ts (score_term U seg t m))) \<subseteq> insert k (fset (fmdom (score_term U seg t m)))"
    and r: "(case fmlookup (fold (score_term U seg) ts (score_term U seg t m)) k of Some y \<Rightarrow> y | None \<Rightarrow> Fin 0) =
      fold (tail_step U (Fin (of_nat (card (indexed_ids F)))) (avg_doc_len seg) (F k)) ts
        (case fmlookup (score_term U seg t m) k of Some y \<Rightarrow> y | None \<Rightarrow> Fin 0)"
    using ih Cons.prems by auto
  then have "fset (fmdom (fold (score_term U seg) ts (score_term U seg t m))) \<subseteq> insert k (fset (fmdom m))"
    using sub by blast
  then show ?case using r unfolding val by simp
qed auto

text \<open>
  C18. The score of an unindexed document is the score it would have in the index: for a
  document that alone contains the query's tokens, the tail formula \<^verbatim>\<open>bm25_doc_score\<close>, which
  assumes a document frequency of one, computes with the segment's statistics exactly the
  floating-point score \<^verbatim>\<open>query_bm25\<close> gives that document.
\<close>

theorem tail_score_agrees:
  assumes rep: "fts_rep (doc_tokens U f docs) seg" and ln: "ln_law U" and d: "fmlookup docs k = Some d"
    and only: "\<forall>t \<in> set (tokenize U q). \<forall>k'. t \<in> set (doc_tokens U f docs k') \<longrightarrow> k' = k"
    and cand: "k |\<in>| candidate_doc_ids U seg q"
  shows "query_bm25 U seg q (Suc n) =
    [(k, bm25_doc_score U (extract_index_text U d f) q (avg_doc_len seg) (num_docs seg))]"
proof -
  let ?F = "doc_tokens U f docs" and ?m = "fold (score_term U seg) (tokenize U q) fmempty"
  have Fk: "?F k = tokenize U (extract_index_text U d f)" by (simp add: doc_tokens_def d)
  have l: "length (?F k) < 2 ^ 32" using rep length_le_total [of ?F k] by (simp add: fts_rep_def)
  have only': "k' = k" if "t \<in> set (tokenize U q)" "t \<in> set (?F k')" for t k' using only that by blast
  have one: "fset (fmdom ?m) \<subseteq> {k} \<and>
    (case fmlookup ?m k of Some y \<Rightarrow> y | None \<Rightarrow> Fin 0) =
      fold (tail_step U (Fin (of_nat (card (indexed_ids ?F)))) (avg_doc_len seg) (?F k)) (tokenize U q) (Fin 0)"
    using score_terms_single [OF rep l, of "tokenize U q" U fmempty] only' by fastforce
  have dom: "fset (fmdom ?m) = fset (candidate_doc_ids U seg q)"
    using candidates_scores [OF rep ln] by (simp add: scores_ok_def)
  have "fset (fmdom ?m) \<subseteq> {k}" using one by simp
  then have keys: "fset (fmdom ?m) = {k}" using dom cand by auto
  then obtain x where x: "fmlookup ?m k = Some x" using fmlookup_dom_iff [of k ?m] by auto
  have "fset (fmdom ?m) = fset {|k|}" unfolding keys by simp
  then have "fmdom ?m = {|k|}" unfolding fset_inject .
  then have "fm_keys ?m = [k]" by (simp add: fm_keys_def sorted_list_of_fset.rep_eq)
  then have ent: "fm_entries ?m = [(k, x)]" by (simp add: fm_entries_def x)
  have "k \<in> fset (candidate_doc_ids U seg q)" using cand by simp
  then obtain t where t: "t \<in> set (tokenize U q)" "t \<in> set (?F k)"
    by (auto simp: candidate_doc_ids_def candidates_fold plist_ids [OF rep])
  then have ne: "tokenize U q \<noteq> []" "tokenize U (extract_index_text U d f) \<noteq> []" using Fk by auto
  have k: "k \<in> indexed_ids ?F" using t by (auto simp: indexed_ids_def)
  have fin: "finite (indexed_ids ?F)" using rep by (simp add: fts_rep_def)
  have pos: "0 < card (indexed_ids ?F)" using k fin by (auto simp: card_gt_0_iff)
  have nd: "num_docs seg \<noteq> 0" using pos rep_num_docs [OF rep] by auto
  have "1 \<le> num_docs seg" using pos by (simp add: word_le_nat_alt rep_num_docs [OF rep] Suc_leI)
  then have mx: "max (num_docs seg) 1 = num_docs seg" by (simp add: max_def)
  obtain a where a: "avg_doc_len seg = Fin a" "1 \<le> a" using avg_in [OF rep nd] by (auto simp: f64_in_def)
  have av: "f64_max (avg_doc_len seg) (Fin 1) = avg_doc_len seg" using a by (simp add: f64_max_def)
  have small: "card (indexed_ids ?F) < 2 ^ 53" using rep card_le_total [OF fin] by (simp add: fts_rep_def)
  have "x = fold (tail_step U (Fin (of_nat (card (indexed_ids ?F)))) (avg_doc_len seg) (?F k)) (tokenize U q) (Fin 0)"
    using conjunct2 [OF one] unfolding x by simp
  also have "\<dots> = bm25_doc_score U (extract_index_text U d f) q (avg_doc_len seg) (num_docs seg)"
    by (simp only: bm25_doc_score_fold [OF ne(2)] mx av rep_num_docs [OF rep] f64_of_nat_small [OF small] Fk)
  finally have "x = bm25_doc_score U (extract_index_text U d f) q (avg_doc_len seg) (num_docs seg)" .
  then show ?thesis by (simp add: query_bm25_eq [OF rep] ent)
qed

theorem tail_score_agrees_witness:
  "\<exists>seg. query_bm25 ascii_fts seg ''fox'' 10 =
     [(''f'', bm25_doc_score ascii_fts ''Fox and fox'' ''fox'' (avg_doc_len seg) (num_docs seg))]"
proof -
  let ?docs = "put_docs [(''f'', doc_fox), (''h'', doc_hen)] fmempty"
  let ?seg = "fts_apply_delta ascii_fts [(''f'', doc_fox), (''h'', doc_hen)] [] (fts_empty 1 ''t'')"
  have q: "tokenize ascii_fts ''fox'' = [''fox'']" by code_simp
  have txt_fox: "extract_index_text ascii_fts doc_fox ''t'' = ''Fox and fox''" by code_simp
  have d: "fmlookup ?docs ''f'' = Some doc_fox" by (simp add: put_docs_def)
  have only: "\<forall>t \<in> set (tokenize ascii_fts ''fox''). \<forall>k'. t \<in> set (doc_tokens ascii_fts ''t'' ?docs k') \<longrightarrow> k' = ''f''"
    by (auto simp: q doc_tokens_def put_docs_def split: if_splits option.splits)
  have c: "''f'' |\<in>| candidate_doc_ids ascii_fts ?seg ''fox''"
    unfolding candidate_doc_ids_def candidates_fold plist_ids [OF sample_fts_rep] q
    by (simp add: doc_tokens_def put_docs_def)
  show ?thesis
    using tail_score_agrees [OF sample_fts_rep ascii_ln_law d only c, of 9] by (auto simp: txt_fox numeral_eq_Suc)
qed

end
