(* ===== verification/Float_Format.thy ===== *)
theory Float_Format
  imports F64_Arith
begin

text \<open>
  IEEE 754 interchange formats with \<open>mb\<close> stored mantissa bits and \<open>eb\<close> exponent bits: rounding to
  the format and the value of a bit pattern.  \<^verbatim>\<open>f32\<close> is the format 23/8; its values are kept as
  the \<^verbatim>\<open>f64\<close> values they widen to.  A pattern without its sign bit is a natural number below
  \<open>2 ^ (mb + eb)\<close>.
\<close>

section \<open>Definitions\<close>

definition fp_emin :: "nat \<Rightarrow> nat \<Rightarrow> int" where
  "fp_emin mb eb = 2 - 2 ^ (eb - 1) - int mb"

definition fp_round :: "nat \<Rightarrow> nat \<Rightarrow> rat \<Rightarrow> f64" where
  "fp_round mb eb q =
     (if q = 0 then Fin 0
      else let u = pow2 (max (ilog2 \<bar>q\<bar> - int mb) (fp_emin mb eb)); r = of_int (round_half_even (q / u)) * u
           in if r = 0 then (if q < 0 then NegZero else Fin 0)
              else if pow2 (2 ^ (eb - 1)) \<le> r then PosInf
              else if r \<le> - pow2 (2 ^ (eb - 1)) then NegInf
              else Fin r)"

fun fp_cast :: "nat \<Rightarrow> nat \<Rightarrow> f64 \<Rightarrow> f64" where
  "fp_cast mb eb (Fin q) = fp_round mb eb q"
| "fp_cast mb eb x = x"

text \<open>The magnitude of a pattern below the all-ones exponent, and the pattern of a magnitude.\<close>

definition fp_mag :: "nat \<Rightarrow> nat \<Rightarrow> nat \<Rightarrow> rat" where
  "fp_mag mb eb n =
     (let ex = n div 2 ^ mb; fr = n mod 2 ^ mb
      in if ex = 0 then of_nat fr * pow2 (fp_emin mb eb)
         else of_nat (2 ^ mb + fr) * pow2 (fp_emin mb eb + int ex - 1))"

definition fp_pat :: "nat \<Rightarrow> nat \<Rightarrow> rat \<Rightarrow> nat" where
  "fp_pat mb eb q =
     (if q = 0 then 0
      else let e = max (ilog2 q - int mb) (fp_emin mb eb)
           in nat (e - fp_emin mb eb) * 2 ^ mb + nat \<lfloor>q / pow2 e\<rfloor>)"

definition fp_inf_pat :: "nat \<Rightarrow> nat \<Rightarrow> nat" where
  "fp_inf_pat mb eb = (2 ^ eb - 1) * 2 ^ mb"

definition fp_of_bits :: "nat \<Rightarrow> nat \<Rightarrow> nat \<Rightarrow> f64" where
  "fp_of_bits mb eb w =
     (let neg = 2 ^ (mb + eb) \<le> w; n = w mod 2 ^ (mb + eb); q = fp_mag mb eb n
      in if fp_inf_pat mb eb < n then NaN
         else if n = fp_inf_pat mb eb then f64_inf neg
         else if q = 0 then f64_zero neg
         else Fin (if neg then - q else q))"

definition fp_to_bits :: "nat \<Rightarrow> nat \<Rightarrow> f64 \<Rightarrow> nat" where
  "fp_to_bits mb eb x =
     (let s = (if f64_neg_sign x then 2 ^ (mb + eb) else 0)
      in case x of
           Fin q \<Rightarrow> s + fp_pat mb eb \<bar>q\<bar>
         | NegZero \<Rightarrow> s
         | NaN \<Rightarrow> fp_inf_pat mb eb + 2 ^ (mb - 1)
         | _ \<Rightarrow> s + fp_inf_pat mb eb)"

definition f64_to_f32 :: "f64 \<Rightarrow> f64" where
  "f64_to_f32 = fp_cast 23 8"

definition f32_from_bits :: "32 word \<Rightarrow> f64" where
  "f32_from_bits w = fp_of_bits 23 8 (unat w)"

definition f32_to_bits :: "f64 \<Rightarrow> 32 word" where
  "f32_to_bits x = of_nat (fp_to_bits 23 8 x)"

section \<open>Laws\<close>

lemma ilog2_eqI: "pow2 e \<le> q \<Longrightarrow> q < pow2 (e + 1) \<Longrightarrow> ilog2 q = e"
proof (rule ccontr)
  assume b: "pow2 e \<le> q" "q < pow2 (e + 1)" and ne: "ilog2 q \<noteq> e"
  have q: "0 < q" using b(1) pow2_pos [of e] by linarith
  note i = ilog2_bounds [OF q]
  consider "ilog2 q + 1 \<le> e" | "e + 1 \<le> ilog2 q" using ne by linarith
  then show False
    by cases (use i b pow2_mono [of "ilog2 q + 1" e] pow2_mono [of "e + 1" "ilog2 q"] in linarith)+
qed

lemma pow2_add_nat: "pow2 (e + int k) = 2 ^ k * pow2 e"
proof (induction k)
  case (Suc k)
  have "pow2 (e + int (Suc k)) = 2 * pow2 (e + int k)" using pow2_shift [of "e + int k"] by (simp add: ac_simps)
  then show ?case using Suc by simp
qed simp

text \<open>\<open>fp_exp\<close> recovers the exponent of a canonical pair of mantissa and exponent.\<close>

lemma fp_exp:
  assumes "0 < m" "m < 2 ^ (mb + 1)" "emin \<le> e" "e = emin \<or> 2 ^ mb \<le> m"
  shows "max (ilog2 (of_nat m * pow2 e) - int mb) emin = e"
proof -
  let ?q = "of_nat m * pow2 e"
  have q: "0 < ?q" using assms(1) pow2_pos [of e] by simp
  have up: "?q < pow2 (e + int (mb + 1))"
    unfolding pow2_add_nat using pow_rat(2) [OF assms(2)] pow2_pos [of e] by (intro mult_strict_right_mono)
  show ?thesis
  proof (cases "2 ^ mb \<le> m")
    case True
    have "pow2 (e + int mb) \<le> ?q"
      unfolding pow2_add_nat using pow_rat(1) [OF True] pow2_pos [of e] by (intro mult_right_mono) auto
    then have "ilog2 ?q = e + int mb" using up by (intro ilog2_eqI) (simp_all add: ac_simps)
    then show ?thesis using assms(3) by simp
  next
    case False
    then have e: "e = emin" and m: "m < 2 ^ mb" using assms(4) by auto
    have "?q < pow2 (e + int mb)"
      unfolding pow2_add_nat using pow_rat(2) [OF m] pow2_pos [of e] by (intro mult_strict_right_mono)
    then have "\<not> e + int mb \<le> ilog2 ?q"
      using ilog2_bounds [OF q] pow2_mono [of "e + int mb" "ilog2 ?q"] by linarith
    then show ?thesis using e by simp
  qed
qed

text \<open>A pattern below the infinity pattern, as mantissa and exponent.\<close>

lemma fp_mag_pair:
  assumes n: "n < fp_inf_pat mb eb" and eb: "2 \<le> eb"
  obtains m k where "fp_mag mb eb n = of_nat m * pow2 (fp_emin mb eb + int k)" "m < 2 ^ (mb + 1)"
    "k = 0 \<or> 2 ^ mb \<le> m" "n = k * 2 ^ mb + m" "k + 2 < 2 ^ eb"
proof -
  define ex fr where "ex = n div 2 ^ mb" and "fr = n mod 2 ^ mb"
  have nn: "n = ex * 2 ^ mb + fr" and fr: "fr < 2 ^ mb" unfolding ex_def fr_def by (rule div_mult_mod_eq [symmetric], simp)
  have "ex * 2 ^ mb < (2 ^ eb - 1) * 2 ^ mb" using n nn unfolding fp_inf_pat_def by linarith
  then have ex: "ex < 2 ^ eb - 1" by simp
  have mag: "fp_mag mb eb n = (if ex = 0 then of_nat fr * pow2 (fp_emin mb eb)
      else of_nat (2 ^ mb + fr) * pow2 (fp_emin mb eb + int ex - 1))"
    by (simp add: fp_mag_def Let_def ex_def fr_def)
  show ?thesis
  proof (cases ex)
    case 0
    have "(2::nat) ^ 2 \<le> 2 ^ eb" using eb by (intro power_increasing) auto
    then show ?thesis by (intro that [of fr 0]) (use 0 fr nn mag in auto)
  next
    case (Suc k)
    show ?thesis by (rule that [of "2 ^ mb + fr" k]) (use Suc fr nn ex mag in auto)
  qed
qed

lemma fp_mag_bound:
  assumes "m < 2 ^ (mb + 1)" "k + 2 < 2 ^ eb" "2 \<le> eb"
  shows "of_nat m * pow2 (fp_emin mb eb + int k) < pow2 (2 ^ (eb - 1))"
proof -
  let ?e = "fp_emin mb eb + int k"
  have "of_nat m * pow2 ?e < 2 ^ (mb + 1) * pow2 ?e"
    using pow_rat(2) [OF assms(1)] pow2_pos [of ?e] by (intro mult_strict_right_mono)
  also have "\<dots> = pow2 (?e + int (mb + 1))" by (rule pow2_add_nat [symmetric])
  also have "\<dots> \<le> pow2 (2 ^ (eb - 1))"
  proof (rule pow2_mono)
    obtain d where d: "eb = Suc d" using assms(3) by (cases eb) auto
    have "int (k + 3) \<le> int (2 ^ eb)" using assms(2) by linarith
    then show "?e + int (mb + 1) \<le> 2 ^ (eb - 1)" by (simp add: fp_emin_def d)
  qed
  finally show ?thesis .
qed

lemma fp_mag_nonneg: "0 \<le> fp_mag mb eb n"
  by (simp add: fp_mag_def Let_def pow2_pos less_imp_le)

text \<open>Rounding keeps the values of the format, and the pattern of a value is the one it came from.\<close>

lemma fp_pat_mag:
  assumes "n < fp_inf_pat mb eb" "2 \<le> eb"
  shows "fp_pat mb eb (fp_mag mb eb n) = n"
proof -
  obtain m k where mk: "fp_mag mb eb n = of_nat m * pow2 (fp_emin mb eb + int k)" "m < 2 ^ (mb + 1)"
    "k = 0 \<or> 2 ^ mb \<le> m" "n = k * 2 ^ mb + m"
    using fp_mag_pair [OF assms] by metis
  define e where "e = fp_emin mb eb + int k"
  show ?thesis
  proof (cases "m = 0")
    case True
    then have "k = 0" using mk(3) by auto
    then show ?thesis using True mk by (simp add: fp_pat_def)
  next
    case False
    have ex: "max (ilog2 (of_nat m * pow2 e) - int mb) (fp_emin mb eb) = e"
      using fp_exp [of m mb "fp_emin mb eb" e] False mk by (auto simp: e_def)
    have "fp_pat mb eb (of_nat m * pow2 e) = nat (e - fp_emin mb eb) * 2 ^ mb + nat \<lfloor>of_nat m * pow2 e / pow2 e\<rfloor>"
      unfolding fp_pat_def Let_def ex using False pow2_pos [of e] by simp
    also have "\<dots> = n" using pow2_pos [of e] mk(4) by (simp add: e_def)
    finally show ?thesis by (simp add: mk(1) e_def)
  qed
qed

lemma fp_round_exact:
  assumes "0 < m" "m < 2 ^ (mb + 1)" "fp_emin mb eb \<le> e" "of_nat m * pow2 e < pow2 (2 ^ (eb - 1))"
  shows "fp_round mb eb (of_nat m * pow2 e) = Fin (of_nat m * pow2 e)"
    and "fp_round mb eb (- (of_nat m * pow2 e)) = Fin (- (of_nat m * pow2 e))"
proof -
  define q where "q = of_nat m * pow2 e"
  define e' where "e' = max (ilog2 q - int mb) (fp_emin mb eb)"
  have q: "0 < q" "q < pow2 (2 ^ (eb - 1))" using assms pow2_pos [of e] by (simp_all add: q_def)
  have "q < pow2 (e + int (mb + 1))"
    unfolding pow2_add_nat q_def using pow_rat(2) [OF assms(2)] pow2_pos [of e] by (intro mult_strict_right_mono)
  then have "\<not> e + int (mb + 1) \<le> ilog2 q"
    using ilog2_bounds [OF q(1)] pow2_mono [of "e + int (mb + 1)" "ilog2 q"] by linarith
  then have "e' \<le> e" using assms(3) by (simp add: e'_def)
  then obtain d where "e = e' + int d" by (metis zle_iff_zadd)
  then have "q / pow2 e' = of_int (int (m * 2 ^ d))"
    using pow2_pos [of e'] by (simp add: q_def pow2_add_nat)
  then have i: "of_int (round_half_even (q / pow2 e')) * pow2 e' = q"
    "of_int (round_half_even (- q / pow2 e')) * pow2 e' = - q"
    using round_half_even_int [of "int (m * 2 ^ d)"] round_half_even_int [of "- int (m * 2 ^ d)"] pow2_pos [of e']
    by (simp_all add: field_simps)
  show "fp_round mb eb (of_nat m * pow2 e) = Fin (of_nat m * pow2 e)"
    unfolding q_def [symmetric] fp_round_def Let_def abs_of_pos [OF q(1)] e'_def [symmetric] i using q by simp
  show "fp_round mb eb (- (of_nat m * pow2 e)) = Fin (- (of_nat m * pow2 e))"
    unfolding q_def [symmetric] fp_round_def Let_def abs_minus abs_of_pos [OF q(1)] e'_def [symmetric] i
    using q by simp
qed

text \<open>The values of a format are values of every format with more mantissa and exponent bits.\<close>

lemma fp_emin_mono: "mb \<le> mb' \<Longrightarrow> eb \<le> eb' \<Longrightarrow> fp_emin mb' eb' \<le> fp_emin mb eb"
proof -
  assume "mb \<le> mb'" "eb \<le> eb'"
  moreover from this have "(2::int) ^ (eb - 1) \<le> 2 ^ (eb' - 1)" by (intro power_increasing) auto
  ultimately show ?thesis unfolding fp_emin_def by linarith
qed

lemma fp_round_mag:
  assumes "n < fp_inf_pat mb eb" "2 \<le> eb" "fp_mag mb eb n \<noteq> 0" "mb \<le> mb'" "eb \<le> eb'"
  shows "fp_round mb' eb' (fp_mag mb eb n) = Fin (fp_mag mb eb n) \<and>
    fp_round mb' eb' (- fp_mag mb eb n) = Fin (- fp_mag mb eb n)"
proof -
  obtain m k where mk: "fp_mag mb eb n = of_nat m * pow2 (fp_emin mb eb + int k)" "m < 2 ^ (mb + 1)"
    "k + 2 < 2 ^ eb"
    using fp_mag_pair [OF assms(1,2)] by metis
  have m: "0 < m" using assms(3) mk(1) by (cases m) auto
  have "(2::nat) ^ (mb + 1) \<le> 2 ^ (mb' + 1)" using assms(4) by (intro power_increasing) auto
  then have m': "m < 2 ^ (mb' + 1)" using mk(2) by linarith
  have e: "fp_emin mb' eb' \<le> fp_emin mb eb + int k" using fp_emin_mono [OF assms(4,5)] by linarith
  have "pow2 (2 ^ (eb - 1)) \<le> pow2 (2 ^ (eb' - 1))" using assms(5) by (intro pow2_mono power_increasing) auto
  then have b: "of_nat m * pow2 (fp_emin mb eb + int k) < pow2 (2 ^ (eb' - 1))"
    using fp_mag_bound [OF mk(2,3) assms(2)] by linarith
  show ?thesis unfolding mk(1) using fp_round_exact [OF m m' e b] by blast
qed

definition fp_finite_bits :: "nat \<Rightarrow> nat \<Rightarrow> nat \<Rightarrow> bool" where
  "fp_finite_bits mb eb w \<longleftrightarrow> w < 2 ^ (mb + eb + 1) \<and> w mod 2 ^ (mb + eb) < fp_inf_pat mb eb"

lemma fp_of_bits_finite:
  assumes "fp_finite_bits mb eb w"
  shows "fp_of_bits mb eb w =
    (let neg = 2 ^ (mb + eb) \<le> w; q = fp_mag mb eb (w mod 2 ^ (mb + eb))
     in if q = 0 then f64_zero neg else Fin (if neg then - q else q))"
  using assms by (simp add: fp_of_bits_def fp_finite_bits_def Let_def)

lemma fp_of_bits_is_finite: "fp_finite_bits mb eb w \<Longrightarrow> f64_finite (fp_of_bits mb eb w)"
  by (simp add: fp_of_bits_finite Let_def f64_finite_def f64_zero_def)

lemma fp_cast_of_bits:
  assumes "fp_finite_bits mb eb w" "2 \<le> eb" "mb \<le> mb'" "eb \<le> eb'"
  shows "fp_cast mb' eb' (fp_of_bits mb eb w) = fp_of_bits mb eb w"
proof -
  define n where "n = w mod 2 ^ (mb + eb)"
  have "n < fp_inf_pat mb eb" using assms(1) by (simp add: fp_finite_bits_def n_def)
  from fp_round_mag [OF this assms(2) _ assms(3,4)] show ?thesis
    unfolding fp_of_bits_finite [OF assms(1)] Let_def n_def [symmetric]
    by (simp add: f64_zero_def fp_round_def [of mb' eb' 0])
qed

lemma sign_split: "w < 2 ^ (k + 1) \<Longrightarrow> (w::nat) = (if 2 ^ k \<le> w then 2 ^ k else 0) + w mod 2 ^ k"
proof -
  assume w: "w < 2 ^ (k + 1)"
  show ?thesis
  proof (cases "2 ^ k \<le> w")
    case True
    then have "w mod 2 ^ k = w - 2 ^ k" using w by (simp add: le_mod_geq)
    then show ?thesis using True by simp
  qed simp
qed

lemma fp_to_of_bits:
  assumes "fp_finite_bits mb eb w" "2 \<le> eb"
  shows "fp_to_bits mb eb (fp_of_bits mb eb w) = w"
proof -
  define n q where "n = w mod 2 ^ (mb + eb)" and "q = fp_mag mb eb n"
  have n: "n < fp_inf_pat mb eb" and w: "w = (if 2 ^ (mb + eb) \<le> w then 2 ^ (mb + eb) else 0) + n"
    using assms(1) sign_split [of w "mb + eb"] by (simp_all add: fp_finite_bits_def n_def)
  have pat: "fp_pat mb eb q = n" unfolding q_def by (rule fp_pat_mag [OF n assms(2)])
  have q0: "0 \<le> q" by (simp add: q_def fp_mag_nonneg)
  have zero: "n = 0" if "q = 0" using pat that by (simp add: fp_pat_def)
  have "fp_to_bits mb eb (fp_of_bits mb eb w) = (if 2 ^ (mb + eb) \<le> w then 2 ^ (mb + eb) else 0) + n"
    unfolding fp_of_bits_finite [OF assms(1)] Let_def n_def [symmetric] q_def [symmetric]
    using q0 zero pat by (auto simp: fp_to_bits_def Let_def f64_zero_def fp_pat_def [of mb eb 0])
  then show ?thesis using w by simp
qed

text \<open>The \<^verbatim>\<open>f32\<close> instances.\<close>

definition f32_finite_bits :: "32 word \<Rightarrow> bool" where
  "f32_finite_bits w \<longleftrightarrow> fp_finite_bits 23 8 (unat w)"

lemma f32_of_bits:
  assumes "f32_finite_bits w"
  shows "f64_to_f32 (f32_from_bits w) = f32_from_bits w" "f32_to_bits (f32_from_bits w) = w"
    "f64_finite (f32_from_bits w)"
  using assms by (simp_all add: f32_finite_bits_def f64_to_f32_def f32_from_bits_def f32_to_bits_def
      fp_cast_of_bits fp_to_of_bits fp_of_bits_is_finite)

end
