(* ===== verification/Vector_Encoding.thy ===== *)
theory Vector_Encoding
  imports Meta Wal Float_Format
begin

text \<open>
  Vector attributes on the wire (\<^verbatim>\<open>src/vector_encoding.rs\<close>): decoding of float arrays and base64
  texts, encoding for responses, the normalisation of the vectors of a write, and the
  projection of a document to the attributes a query asks for.  The \<^verbatim>\<open>base64\<close> and \<^verbatim>\<open>half\<close> crates
  are the record \<open>wire\<close>.
\<close>

section \<open>Wire formats\<close>

text \<open>
  \<open>b64_encode\<close> and \<open>b64_decode\<close> are the STANDARD engine, \<open>f16_from_f32\<close> is \<^verbatim>\<open>f16::from_f32(..).to_bits()\<close>
  and \<open>f16_value\<close> the exact value of a half precision pattern.
\<close>

record wire =
  b64_encode :: "bytes \<Rightarrow> string"
  b64_decode :: "string \<Rightarrow> bytes option"
  f16_from_f32 :: "f64 \<Rightarrow> 16 word"
  f16_value :: "16 word \<Rightarrow> f64"

definition to_le_bytes16 :: "16 word \<Rightarrow> bytes" where
  "to_le_bytes16 w = [ucast w, ucast (drop_bit 8 w)]"

fun from_le_bytes16 :: "bytes \<Rightarrow> 16 word" where
  "from_le_bytes16 [] = 0"
| "from_le_bytes16 (b # bs) = ucast b OR push_bit 8 (from_le_bytes16 bs)"

text \<open>\<^verbatim>\<open>chunks_exact(n)\<close>: a shorter rest is left out.\<close>

fun chunks_exact :: "nat \<Rightarrow> 'a list \<Rightarrow> 'a list list" where
  "chunks_exact n xs =
     (if n = 0 \<or> length xs < n then [] else take n xs # chunks_exact n (drop n xs))"

declare chunks_exact.simps [simp del]

section \<open>Requests\<close>

datatype vector_encoding = FloatArray | Base64

definition parse_vector_encoding :: "string option \<Rightarrow> vector_encoding res" where
  "parse_vector_encoding s =
     (case map_option to_ascii_lowercase s of
        None \<Rightarrow> Inr FloatArray
      | Some t \<Rightarrow>
          if t = ''float'' then Inr FloatArray
          else if t = ''base64'' then Inr Base64
          else Inl (ErrMsg (''unknown vector_encoding: '' @ t)))"

datatype include_vectors = Unspecified | Exclude | AllVectors | VectorFields "string list"

definition parse_include_vectors :: "json option \<Rightarrow> include_vectors res" where
  "parse_include_vectors v =
     (case v of
        None \<Rightarrow> Inr Unspecified
      | Some JNull \<Rightarrow> Inr Unspecified
      | Some (JBool b) \<Rightarrow> Inr (if b then AllVectors else Exclude)
      | Some j \<Rightarrow>
          (case as_array j of
             None \<Rightarrow> Inl (ErrMsg ''include_vectors must be true, false, or an array of field names'')
           | Some arr \<Rightarrow>
               (case traverse (\<lambda>x. case as_str x of
                                     None \<Rightarrow> Inl (ErrMsg ''include_vectors field names must be strings'')
                                   | Some s \<Rightarrow> Inr s) arr of
                  Inl e \<Rightarrow> Inl e
                | Inr fs \<Rightarrow>
                    if fs = [] then Inl (ErrMsg ''include_vectors field list must not be empty'')
                    else Inr (VectorFields fs))))"

section \<open>Decoding and encoding\<close>

text \<open>\<^verbatim>\<open>json!(x)\<close>: JSON has no number for an infinity or NaN.\<close>

definition json_f64 :: "f64 \<Rightarrow> json" where
  "json_f64 x = (if f64_finite x then JNumber (Float x) else JNull)"

definition decode_base64_f32_le :: "'z wire_scheme \<Rightarrow> string \<Rightarrow> f64 list res" where
  "decode_base64_f32_le W s =
     (case b64_decode W (trim s) of
        None \<Rightarrow> Inl (ErrMsg ''invalid base64 vector'')
      | Some b \<Rightarrow>
          if length b mod 4 \<noteq> 0 then Inl (ErrMsg ''base64 vector byte length must be a multiple of 4'')
          else Inr (map (\<lambda>c. f32_from_bits (from_le_bytes c)) (chunks_exact 4 b)))"

definition decode_base64_f16_le :: "'z wire_scheme \<Rightarrow> string \<Rightarrow> f64 list res" where
  "decode_base64_f16_le W s =
     (case b64_decode W (trim s) of
        None \<Rightarrow> Inl (ErrMsg ''invalid base64 vector'')
      | Some b \<Rightarrow>
          if length b mod 2 \<noteq> 0 then Inl (ErrMsg ''base64 f16 vector byte length must be a multiple of 2'')
          else Inr (map (\<lambda>c. f16_value W (from_le_bytes16 c)) (chunks_exact 2 b)))"

definition decode_vector_value_with_element ::
  "'z wire_scheme \<Rightarrow> json \<Rightarrow> vector_element option \<Rightarrow> f64 list res" where
  "decode_vector_value_with_element W v element =
     (case as_str v of
        Some s \<Rightarrow> (if element = Some F16 then decode_base64_f16_le W s else decode_base64_f32_le W s)
      | None \<Rightarrow>
          (case as_array v of
             None \<Rightarrow> Inl (ErrMsg ''expected vector array or base64 string'')
           | Some arr \<Rightarrow>
               traverse (\<lambda>x. case as_f64 x of
                               None \<Rightarrow> Inl (ErrMsg ''vector element must be number'')
                             | Some y \<Rightarrow> Inr y) arr))"

definition decode_vector_value :: "'z wire_scheme \<Rightarrow> json \<Rightarrow> f64 list res" where
  "decode_vector_value W v = decode_vector_value_with_element W v None"

definition f64_slice_to_f16_le :: "'z wire_scheme \<Rightarrow> f64 list \<Rightarrow> bytes" where
  "f64_slice_to_f16_le W xs = concat (map (\<lambda>v. to_le_bytes16 (f16_from_f32 W (f64_to_f32 v))) xs)"

definition f16_le_bytes_to_f32_vec :: "'z wire_scheme \<Rightarrow> bytes \<Rightarrow> nat \<Rightarrow> f64 list" where
  "f16_le_bytes_to_f32_vec W b dim =
     map (\<lambda>c. f16_value W (from_le_bytes16 c)) (take dim (chunks_exact 2 b))"

definition encode_vector :: "'z wire_scheme \<Rightarrow> f64 list \<Rightarrow> vector_encoding \<Rightarrow> vector_element \<Rightarrow> json" where
  "encode_vector W xs enc element =
     (case enc of
        FloatArray \<Rightarrow> JArray (map json_f64 xs)
      | Base64 \<Rightarrow>
          (case element of
             F32 \<Rightarrow> JString (b64_encode W (concat (map (\<lambda>x. to_le_bytes (f32_to_bits (f64_to_f32 x))) xs)))
           | F16 \<Rightarrow> JString (b64_encode W (f64_slice_to_f16_le W xs))))"

definition is_vector_value :: "'z wire_scheme \<Rightarrow> json \<Rightarrow> bool" where
  "is_vector_value W v \<longleftrightarrow> \<not> isl (decode_vector_value W v)"

definition vector_field_names :: "'z wire_scheme \<Rightarrow> namespace_meta \<Rightarrow> document option \<Rightarrow> string list" where
  "vector_field_names W m doc =
     (let from_schema = vector_fields_from_schema (schema m)
      in if from_schema \<noteq> [] then from_schema
         else (case doc of
                 Some d \<Rightarrow> map fst (filter (\<lambda>(k, v). is_vector_value W v) (fm_entries (attributes d)))
               | None \<Rightarrow> []))"

definition field_is_vector_in_schema :: "namespace_meta \<Rightarrow> string \<Rightarrow> bool" where
  "field_is_vector_in_schema m name \<longleftrightarrow>
     (case schema_field (schema m) name of None \<Rightarrow> False | Some spec \<Rightarrow> field_is_vector_spec spec)"

section \<open>Writes\<close>

text \<open>The attributes are changed in place: they are returned along with the result.\<close>

fun normalize_keys ::
  "'z wire_scheme \<Rightarrow> namespace_meta \<Rightarrow> string list \<Rightarrow> attrs \<Rightarrow> attrs \<times> unit res" where
  "normalize_keys W m [] at = (at, Inr ())"
| "normalize_keys W m (key # keys) at =
     (let is_vec = field_is_vector_in_schema m key \<or>
                   (case fmlookup at key of None \<Rightarrow> False | Some v \<Rightarrow> is_vector_value W v)
      in if \<not> is_vec then normalize_keys W m keys at
         else
           (case fmlookup at key of
              None \<Rightarrow> normalize_keys W m keys at
            | Some raw \<Rightarrow>
                (case decode_vector_value_with_element W raw
                        (Some (vector_element_for_field (schema m) key)) of
                   Inl e \<Rightarrow> (fmdrop key at, Inl e)
                 | Inr decoded \<Rightarrow>
                     normalize_keys W m keys (fmupd key (JArray (map json_f64 decoded)) (fmdrop key at)))))"

definition normalize_document_vectors ::
  "'z wire_scheme \<Rightarrow> attrs \<Rightarrow> namespace_meta \<Rightarrow> attrs \<times> unit res" where
  "normalize_document_vectors W at m = normalize_keys W m (fm_keys at) at"

section \<open>Query rows\<close>

definition hidden_vector :: "'z wire_scheme \<Rightarrow> namespace_meta \<Rightarrow> string \<Rightarrow> json \<Rightarrow> bool" where
  "hidden_vector W m k v \<longleftrightarrow> field_is_vector_in_schema m k \<or> is_vector_value W v"

definition project_attrs ::
  "'z wire_scheme \<Rightarrow> document \<Rightarrow> namespace_meta \<Rightarrow> string fset option \<Rightarrow> include_vectors \<Rightarrow> attrs" where
  "project_attrs W doc m names iv =
     (case names of
        None \<Rightarrow>
          fold (\<lambda>(k, v) out.
                  if iv = Exclude \<and> hidden_vector W m k v then out
                  else if iv = Unspecified \<and> hidden_vector W m k v then out
                  else fmupd k v out) (fm_entries (attributes doc)) fmempty
      | Some ns \<Rightarrow>
          fold (\<lambda>k out.
                  case fmlookup (attributes doc) k of
                    None \<Rightarrow> out
                  | Some v \<Rightarrow>
                      if iv = Exclude \<and> hidden_vector W m k v then out else fmupd k v out)
            (sorted_list_of_fset ns) fmempty)"

definition project_vector ::
  "'z wire_scheme \<Rightarrow> document \<Rightarrow> namespace_meta \<Rightarrow> vector_encoding \<Rightarrow> string \<Rightarrow> attrs \<Rightarrow> attrs" where
  "project_vector W doc m enc field out =
     (case fmlookup (attributes doc) field of
        None \<Rightarrow> out
      | Some raw \<Rightarrow>
          (case decode_vector_value W raw of
             Inl _ \<Rightarrow> out
           | Inr vec \<Rightarrow>
               fmupd field (encode_vector W vec enc (vector_element_for_field (schema m) field)) out))"

definition project_row_attributes ::
  "'z wire_scheme \<Rightarrow> document \<Rightarrow> namespace_meta \<Rightarrow> bool \<Rightarrow> string fset option \<Rightarrow> include_vectors \<Rightarrow>
   vector_encoding \<Rightarrow> attrs option" where
  "project_row_attributes W doc m include_attrs names iv enc =
     (if \<not> include_attrs \<and> \<not> (case iv of AllVectors \<Rightarrow> True | VectorFields _ \<Rightarrow> True | _ \<Rightarrow> False) then None
      else
        (let vector_names = (case iv of
               AllVectors \<Rightarrow> vector_field_names W m (Some doc)
             | VectorFields fs \<Rightarrow> fs
             | _ \<Rightarrow> []);
             out0 = (if include_attrs then project_attrs W doc m names iv else fmempty);
             out = fold (project_vector W doc m enc) vector_names out0
         in if fmdom out = {||} then None else Some out))"

section \<open>Laws\<close>

lemma from_to_le_bytes16 [simp]: "from_le_bytes16 (to_le_bytes16 w) = w"
proof -
  have "bit (ucast (ucast w :: 8 word) OR push_bit 8 (ucast (ucast (drop_bit 8 w) :: 8 word)) :: 16 word) n = bit w n"
    if "n < 16" for n
    using that by (auto simp: bit_simps)
  then show ?thesis
    by (auto simp: to_le_bytes16_def intro!: bit_word_eqI)
qed

lemma to_le_bytes16_two: "to_le_bytes16 (from_le_bytes16 [a, b]) = [a, b]"
  unfolding to_le_bytes16_def list.inject from_le_bytes16.simps
  by (intro conjI bit_word_eqI) (auto simp: bit_simps dest: bit_imp_le_length)

lemma to_le_bytes16_from: "length t = 2 \<Longrightarrow> to_le_bytes16 (from_le_bytes16 t) = t"
proof -
  assume "length t = 2"
  then have "\<exists>a b. t = [a, b]" by (auto simp: length_Suc_conv numeral_eq_Suc)
  then show ?thesis by (elim exE) (simp only: to_le_bytes16_two)
qed

lemma chunks_exact_step:
  "0 < n \<Longrightarrow> n \<le> length xs \<Longrightarrow> chunks_exact n xs = take n xs # chunks_exact n (drop n xs)"
  by (subst chunks_exact.simps) simp

lemma chunks_exact_concat:
  "0 < n \<Longrightarrow> length xs mod n = 0 \<Longrightarrow> concat (chunks_exact n xs) = xs \<and> (\<forall>c \<in> set (chunks_exact n xs). length c = n)"
proof (induction "length xs" arbitrary: xs rule: less_induct)
  case less
  show ?case
  proof (cases "length xs < n")
    case True
    then have "xs = []" using less.prems(2) by simp
    then show ?thesis using less.prems(1) by (simp add: chunks_exact.simps [of n "[]"])
  next
    case False
    then have n: "n \<le> length xs" by simp
    have "(length xs - n) mod n = 0" using less.prems(2) n by (simp only: le_mod_geq)
    then have "concat (chunks_exact n (drop n xs)) = drop n xs \<and>
        (\<forall>c \<in> set (chunks_exact n (drop n xs)). length c = n)"
      using less.prems(1) n by (intro less.hyps) simp_all
    note ih = this [THEN conjunct1] this [THEN conjunct2]
    have "length (take n xs) = n" using n by simp
    with ih(2) have "\<forall>c \<in> set (take n xs # chunks_exact n (drop n xs)). length c = n" by (metis set_ConsD)
    then show ?thesis
      unfolding chunks_exact_step [OF less.prems(1) n] concat.simps ih(1) append_take_drop_id by blast
  qed
qed

lemma length_chunks_exact: "0 < n \<Longrightarrow> length (chunks_exact n xs) = length xs div n"
proof (induction "length xs" arbitrary: xs rule: less_induct)
  case less
  show ?case
  proof (cases "n \<le> length xs")
    case True
    have "length (chunks_exact n (drop n xs)) = (length xs - n) div n"
      using less.hyps [of "drop n xs"] less.prems True by simp
    then show ?thesis using chunks_exact_step [OF less.prems True] True less.prems by (simp add: le_div_geq)
  qed (simp add: chunks_exact.simps [of n xs])
qed

lemma decode_floats:
  assumes "\<forall>x \<in> set xs. f64_finite x"
  shows "decode_vector_value W (JArray (map json_f64 xs)) = Inr xs"
proof -
  have "traverse (\<lambda>x. case as_f64 x of None \<Rightarrow> Inl (ErrMsg ''vector element must be number'') | Some y \<Rightarrow> Inr y)
      (map json_f64 xs) = Inr xs"
    using assms by (induction xs) (auto simp: json_f64_def)
  then show ?thesis by (simp add: decode_vector_value_def decode_vector_value_with_element_def)
qed

text \<open>What normalisation makes of one attribute.\<close>

definition norm_attr :: "'z wire_scheme \<Rightarrow> namespace_meta \<Rightarrow> string \<Rightarrow> json \<Rightarrow> json" where
  "norm_attr W m k v =
     (if hidden_vector W m k v
      then (case decode_vector_value_with_element W v (Some (vector_element_for_field (schema m) k)) of
              Inl _ \<Rightarrow> v | Inr xs \<Rightarrow> JArray (map json_f64 xs))
      else v)"

lemma normalize_keys_lookup:
  "normalize_keys W m ks at = (at', Inr ()) \<Longrightarrow> distinct ks \<Longrightarrow>
   fmlookup at' k = (if k \<in> set ks then map_option (norm_attr W m k) (fmlookup at k) else fmlookup at k)"
proof (induction ks arbitrary: at)
  case (Cons key ks)
  show ?case
  proof (cases "fmlookup at key")
    case None
    then have "normalize_keys W m ks at = (at', Inr ())" using Cons.prems(1) by (simp add: Let_def split: if_splits)
    from Cons.IH [OF this] show ?thesis using Cons.prems(2) None by auto
  next
    case (Some raw)
    show ?thesis
    proof (cases "hidden_vector W m key raw")
      case False
      then have "normalize_keys W m ks at = (at', Inr ())"
        using Cons.prems(1) Some by (simp add: Let_def hidden_vector_def)
      moreover have "norm_attr W m key raw = raw" using False by (simp add: norm_attr_def)
      ultimately show ?thesis using Cons.IH [of at] Cons.prems(2) Some by auto
    next
      case True
      then obtain xs where
        xs: "decode_vector_value_with_element W raw (Some (vector_element_for_field (schema m) key)) = Inr xs"
        and rest: "normalize_keys W m ks (fmupd key (JArray (map json_f64 xs)) (fmdrop key at)) = (at', Inr ())"
        using Cons.prems(1) Some by (auto simp: Let_def hidden_vector_def split: sum.splits)
      have "norm_attr W m key raw = JArray (map json_f64 xs)" using True xs by (simp add: norm_attr_def)
      with Cons.IH [OF rest] Cons.prems(2) Some show ?thesis by auto
    qed
  qed
qed simp

lemma normalize_lookup:
  "normalize_document_vectors W at m = (at', Inr ()) \<Longrightarrow>
   fmlookup at' k = map_option (norm_attr W m k) (fmlookup at k)"
  using normalize_keys_lookup [of W m "fm_keys at" at at' k]
  by (auto simp: normalize_document_vectors_def fmlookup_dom_iff)

lemma project_one_vector:
  assumes "fmlookup (attributes doc) f = Some raw" "decode_vector_value W raw = Inr xs"
  shows "\<exists>out. project_row_attributes W doc m inc names (VectorFields [f]) enc = Some out \<and>
    fmlookup out f = Some (encode_vector W xs enc (vector_element_for_field (schema m) f))"
  using assms by (simp add: project_row_attributes_def project_vector_def Let_def)

section \<open>The contract of the wire formats\<close>

definition f16_finite_bits :: "16 word \<Rightarrow> bool" where
  "f16_finite_bits w \<longleftrightarrow> fp_finite_bits 10 5 (unat w)"

text \<open>The vector a byte string denotes, and when all its components are finite.\<close>

fun elem_bytes :: "vector_element \<Rightarrow> nat" where
  "elem_bytes F32 = 4"
| "elem_bytes F16 = 2"

fun wire_values :: "'z wire_scheme \<Rightarrow> vector_element \<Rightarrow> bytes \<Rightarrow> f64 list" where
  "wire_values W F32 b = map (\<lambda>c. f32_from_bits (from_le_bytes c)) (chunks_exact 4 b)"
| "wire_values W F16 b = map (\<lambda>c. f16_value W (from_le_bytes16 c)) (chunks_exact 2 b)"

fun wire_finite :: "vector_element \<Rightarrow> bytes \<Rightarrow> bool" where
  "wire_finite F32 b \<longleftrightarrow> list_all (\<lambda>c. f32_finite_bits (from_le_bytes c)) (chunks_exact 4 b)"
| "wire_finite F16 b \<longleftrightarrow> list_all (\<lambda>c. f16_finite_bits (from_le_bytes16 c)) (chunks_exact 2 b)"

locale vector_wire =
  fixes W :: "'z wire_scheme"
  assumes b64_roundtrip: "b64_decode W (b64_encode W b) = Some b"
    and b64_trim: "trim (b64_encode W b) = b64_encode W b"
    and f16_finite: "f16_finite_bits w \<Longrightarrow> f64_finite (f16_value W w)"
    and f16_widen: "f16_finite_bits w \<Longrightarrow> f64_to_f32 (f16_value W w) = f16_value W w"
    and f16_back: "f16_finite_bits w \<Longrightarrow> f16_from_f32 W (f16_value W w) = w"
begin

lemma decode_text:
  assumes "length b mod elem_bytes e = 0"
  shows "decode_vector_value_with_element W (JString (b64_encode W b)) (Some e) = Inr (wire_values W e b)"
  using assms
  by (cases e) (simp_all add: decode_vector_value_with_element_def decode_base64_f32_le_def
      decode_base64_f16_le_def b64_trim b64_roundtrip)

lemma wire_values_finite: "wire_finite e b \<Longrightarrow> \<forall>x \<in> set (wire_values W e b). f64_finite x"
  by (cases e) (auto simp: list_all_iff f32_of_bits f16_finite)

lemma encode_values:
  assumes "length b mod elem_bytes e = 0" "wire_finite e b"
  shows "encode_vector W (wire_values W e b) Base64 e = JString (b64_encode W b)"
proof (cases e)
  case F32
  have "concat (chunks_exact 4 b) = b \<and> (\<forall>c \<in> set (chunks_exact 4 b). length c = 4)"
    by (rule chunks_exact_concat) (use assms(1) F32 in simp_all)
  note c = this [THEN conjunct1] this [THEN conjunct2, THEN bspec]
  have fin: "\<And>c. c \<in> set (chunks_exact 4 b) \<Longrightarrow> f32_finite_bits (from_le_bytes c)"
    using assms(2) F32 by (simp add: list_all_iff)
  have "map (\<lambda>c. to_le_bytes (f32_to_bits (f64_to_f32 (f32_from_bits (from_le_bytes c))))) (chunks_exact 4 b)
      = chunks_exact 4 b"
    by (intro map_idI) (simp only: f32_of_bits [OF fin] to_le_bytes_from_le_bytes c(2))
  then show ?thesis by (simp add: F32 encode_vector_def comp_def c(1))
next
  case F16
  have "concat (chunks_exact 2 b) = b \<and> (\<forall>c \<in> set (chunks_exact 2 b). length c = 2)"
    by (rule chunks_exact_concat) (use assms(1) F16 in simp_all)
  note c = this [THEN conjunct1] this [THEN conjunct2, THEN bspec]
  have fin: "\<And>c. c \<in> set (chunks_exact 2 b) \<Longrightarrow> f16_finite_bits (from_le_bytes16 c)"
    using assms(2) F16 by (simp add: list_all_iff)
  have "map (\<lambda>c. to_le_bytes16 (f16_from_f32 W (f64_to_f32 (f16_value W (from_le_bytes16 c))))) (chunks_exact 2 b)
      = chunks_exact 2 b"
    by (intro map_idI) (simp only: f16_widen [OF fin] f16_back [OF fin] to_le_bytes16_from c(2))
  then show ?thesis by (simp add: F16 encode_vector_def f64_slice_to_f16_le_def comp_def c(1))
qed

text \<open>A base64 vector of a vector field is stored as its components and comes back as the same text.\<close>

lemma stored_vector:
  assumes e: "vector_element_for_field (schema m) f = e" and vec: "field_is_vector_in_schema m f"
    and b: "length b mod elem_bytes e = 0" "wire_finite e b"
    and at: "fmlookup at f = Some (JString (b64_encode W b))"
    and norm: "normalize_document_vectors W at m = (at', Inr ())"
  shows "fmlookup at' f = Some (JArray (map (\<lambda>x. JNumber (Float x)) (wire_values W e b)))"
proof -
  have "map json_f64 (wire_values W e b) = map (\<lambda>x. JNumber (Float x)) (wire_values W e b)"
    using wire_values_finite [OF b(2)] by (intro map_cong) (auto simp: json_f64_def)
  then have "norm_attr W m f (JString (b64_encode W b)) = JArray (map (\<lambda>x. JNumber (Float x)) (wire_values W e b))"
    unfolding norm_attr_def hidden_vector_def e decode_text [OF b(1)] using vec by simp
  then show ?thesis unfolding normalize_lookup [OF norm] at by simp
qed

lemma vector_text_roundtrip:
  assumes e: "vector_element_for_field (schema m) f = e" and vec: "field_is_vector_in_schema m f"
    and b: "length b mod elem_bytes e = 0" "wire_finite e b"
    and at: "fmlookup at f = Some (JString (b64_encode W b))"
    and norm: "normalize_document_vectors W at m = (at', Inr ())"
    and d: "attributes d = at'"
  shows "\<exists>out. project_row_attributes W d m inc names (VectorFields [f]) Base64 = Some out \<and>
      fmlookup out f = Some (JString (b64_encode W b))"
    and "\<exists>out. project_row_attributes W d m inc names (VectorFields [f]) FloatArray = Some out \<and>
      fmlookup out f = fmlookup at' f"
proof -
  let ?xs = "wire_values W e b"
  have j: "map json_f64 ?xs = map (\<lambda>x. JNumber (Float x)) ?xs"
    using wire_values_finite [OF b(2)] by (intro map_cong) (auto simp: json_f64_def)
  note st = stored_vector [OF e vec b at norm]
  have "fmlookup (attributes d) f = Some (JArray (map json_f64 ?xs))" unfolding d st j ..
  note row = project_one_vector [OF this decode_floats [OF wire_values_finite [OF b(2)]],
      where W = W and m = m and inc = inc and names = names]
  show "\<exists>out. project_row_attributes W d m inc names (VectorFields [f]) Base64 = Some out \<and>
      fmlookup out f = Some (JString (b64_encode W b))"
    using row [where enc = Base64] unfolding e encode_values [OF b] .
  show "\<exists>out. project_row_attributes W d m inc names (VectorFields [f]) FloatArray = Some out \<and>
      fmlookup out f = fmlookup at' f"
    using row [where enc = FloatArray] unfolding st encode_vector_def vector_encoding.case j .
qed

lemma text_is_vector: "length b mod 4 = 0 \<Longrightarrow> is_vector_value W (JString (b64_encode W b))"
  using decode_text [of b F32]
  by (simp add: is_vector_value_def decode_vector_value_def decode_vector_value_with_element_def)

end

end
