(* ===== verification/Schema_Correct.thy ===== *)
theory Schema_Correct
  imports Schema
begin

text \<open>
  Attribute validation as a type check: what the declared type of a field says about its value,
  that accepted attributes have their declared types, and that values of the declared types
  are accepted unchanged.  The date-time and UUID formats of RFC 3339 and RFC 4122 are given
  as an instance of \<open>canonical_forms\<close>.
\<close>

section \<open>Reference formats\<close>

text \<open>In a template \<open>d\<close> stands for a digit and every other character for itself.\<close>

definition fits :: "string \<Rightarrow> string \<Rightarrow> bool" where
  "fits template s \<longleftrightarrow> list_all2 (\<lambda>t c. if t = CHR ''d'' then is_digit c else c = t) template s"

definition num_at :: "nat \<Rightarrow> string \<Rightarrow> nat" where
  "num_at i s = dec_val (take 2 (drop i s))"

definition in_calendar :: "string \<Rightarrow> bool" where
  "in_calendar s \<longleftrightarrow>
     1 \<le> num_at 5 s \<and> num_at 5 s \<le> 12 \<and> 1 \<le> num_at 8 s \<and> num_at 8 s \<le> 28 \<and>
     num_at 11 s < 24 \<and> num_at 14 s < 60 \<and> num_at 17 s < 60"

text \<open>Instants in UTC with no or with nine fraction digits, on the days every month has.\<close>

definition utc_text :: "string \<Rightarrow> string option" where
  "utc_text s =
     (if in_calendar s \<and> fits ''dddd-dd-ddTdd:dd:ddZ'' s then Some (take 19 s @ ''.000000000Z'')
      else if in_calendar s \<and> fits ''dddd-dd-ddTdd:dd:dd.dddddddddZ'' s then Some s
      else None)"

definition is_hex :: "char \<Rightarrow> bool" where
  "is_hex c \<longleftrightarrow> c \<in> set ''0123456789abcdef''"

definition hyphenate :: "string \<Rightarrow> string" where
  "hyphenate h =
     take 8 h @ ''-'' @ take 4 (drop 8 h) @ ''-'' @ take 4 (drop 12 h) @ ''-'' @ take 4 (drop 16 h) @ ''-'' @ drop 20 h"

text \<open>The simple and the hyphenated form, in either case.\<close>

definition uuid_text :: "string \<Rightarrow> string option" where
  "uuid_text s =
     (let t = to_ascii_lowercase s; h = filter (\<lambda>c. c \<noteq> CHR ''-'') t
      in if length h = 32 \<and> list_all is_hex h \<and> (t = h \<or> t = hyphenate h) then Some (hyphenate h) else None)"

definition ref_canon :: canon where
  "ref_canon = \<lparr>rfc3339_utc = utc_text, uuid_hyphenated = uuid_text\<rparr>"

lemma fits_printable:
  assumes "fits template s" "set template \<subseteq> printable"
  shows "set s \<subseteq> printable"
proof -
  have "c \<in> printable" if "is_digit c" for c
    using that by (simp add: is_digit_def printable_def less_eq_char_def)
  then have step: "c \<in> printable" if "if t = CHR ''d'' then is_digit c else c = t" "t \<in> printable" for t c
    using that by (auto split: if_splits)
  show ?thesis
  proof
    fix c
    assume "c \<in> set s"
    then obtain i where "i < length s" "c = s ! i" by (auto simp: in_set_conv_nth)
    then have "i < length template" "if template ! i = CHR ''d'' then is_digit c else c = template ! i"
      using assms(1) unfolding fits_def list_all2_conv_all_nth by auto
    then show "c \<in> printable" using step assms(2) nth_mem by blast
  qed
qed

lemma trim_fits: "fits template s \<Longrightarrow> set template \<subseteq> printable \<Longrightarrow> trim s = s"
  by (rule trim_printable) (rule fits_printable)

lemma long_text:
  assumes "utc_text s = Some c"
  shows "fits ''dddd-dd-ddTdd:dd:dd.dddddddddZ'' c \<and> in_calendar c"
proof (cases "in_calendar s \<and> fits ''dddd-dd-ddTdd:dd:ddZ'' s")
  case True
  then have c: "c = take 19 s @ ''.000000000Z''" using assms by (simp add: utc_text_def)
  have "length ''dddd-dd-ddTdd:dd:ddZ'' = length s"
    using True unfolding fits_def by (blast dest: list_all2_lengthD)
  then have len: "length s = 20" by simp
  have "fits (take 19 ''dddd-dd-ddTdd:dd:ddZ'') (take 19 s)"
    using True unfolding fits_def by (intro list_all2_takeI) simp
  then have "fits (take 19 ''dddd-dd-ddTdd:dd:ddZ'' @ ''.dddddddddZ'') c"
    unfolding c fits_def by (rule list_all2_appendI) (simp add: is_digit_def)
  moreover have "num_at i c = num_at i s" if "i \<le> 17" for i
    using that len by (simp add: num_at_def c take_drop)
  ultimately show ?thesis using True by (simp add: in_calendar_def)
next
  case False
  then show ?thesis using assms by (auto simp: utc_text_def split: if_splits)
qed

lemma long_not_short:
  "fits ''dddd-dd-ddTdd:dd:dd.dddddddddZ'' c \<Longrightarrow> \<not> fits ''dddd-dd-ddTdd:dd:ddZ'' c"
proof
  assume "fits ''dddd-dd-ddTdd:dd:dd.dddddddddZ'' c" "fits ''dddd-dd-ddTdd:dd:ddZ'' c"
  then have "length c = 30" "length c = 20" unfolding fits_def by (auto dest: list_all2_lengthD)
  then show False by simp
qed

lemma utc_text_fix: "utc_text s = Some c \<Longrightarrow> utc_text (trim c) = Some c"
proof -
  assume "utc_text s = Some c"
  from long_text [OF this] have c: "fits ''dddd-dd-ddTdd:dd:dd.dddddddddZ'' c" "in_calendar c" by simp_all
  have "trim c = c" using c(1) by (rule trim_fits) (simp add: printable_def)
  then show ?thesis using c long_not_short [OF c(1)] by (simp add: utc_text_def)
qed

lemma hex_chars: "is_hex c \<Longrightarrow> c \<noteq> CHR ''-'' \<and> c \<in> printable \<and> ascii_lower_char c = c"
  by (auto simp: is_hex_def printable_def ascii_lower_char_def)

lemma set_hyphenate: "set (hyphenate h) \<subseteq> insert (CHR ''-'') (set h)"
  by (auto simp: hyphenate_def dest!: in_set_takeD in_set_dropD)

lemma filter_hyphenate: "(\<forall>c \<in> set h. c \<noteq> CHR ''-'') \<Longrightarrow> filter (\<lambda>c. c \<noteq> CHR ''-'') (hyphenate h) = h"
proof -
  assume h: "\<forall>c \<in> set h. c \<noteq> CHR ''-''"
  have f: "filter (\<lambda>c. c \<noteq> CHR ''-'') (take n (drop m h)) = take n (drop m h)"
    "filter (\<lambda>c. c \<noteq> CHR ''-'') (drop m h) = drop m h" for n m
    using h by (auto simp: filter_id_conv dest!: in_set_takeD in_set_dropD)
  have j: "take n (drop m h) @ drop (m + n) h = drop m h" for n m
    by (metis add.commute append_take_drop_id drop_drop)
  show ?thesis
    using f(1) [of 8 0] j [of 8 0] j [of 4 8] j [of 4 12] j [of 4 16] by (simp add: hyphenate_def f)
qed

lemma uuid_text_fix: "uuid_text s = Some c \<Longrightarrow> uuid_text (trim c) = Some c"
proof -
  assume "uuid_text s = Some c"
  then obtain h where h: "length h = 32" "list_all is_hex h" and c: "c = hyphenate h"
    by (auto simp: uuid_text_def Let_def split: if_splits)
  have ch: "x \<in> printable \<and> ascii_lower_char x = x" if "x \<in> set c" for x
    using that set_hyphenate [of h] h(2) hex_chars
    by (auto simp: c list_all_iff printable_def ascii_lower_char_def)
  have "trim c = c" using ch by (intro trim_printable) auto
  moreover have "to_ascii_lowercase c = c" unfolding to_ascii_lowercase_def using ch by (intro map_idI) auto
  moreover have "filter (\<lambda>x. x \<noteq> CHR ''-'') c = h"
    unfolding c using h(2) hex_chars by (intro filter_hyphenate) (auto simp: list_all_iff)
  ultimately show ?thesis using h by (simp add: uuid_text_def c)
qed

interpretation ref_canon: canonical_forms ref_canon
  by unfold_locales (simp_all add: ref_canon_def utc_text_fix uuid_text_fix)

section \<open>Typed attributes\<close>

text \<open>The values a field type admits after normalisation; other types admit every value.\<close>

definition uuid_typed :: "'z canon_scheme \<Rightarrow> json \<Rightarrow> bool" where
  "uuid_typed cn v \<longleftrightarrow> (case as_str v of None \<Rightarrow> False | Some s \<Rightarrow> canonicalize_uuid_str cn s = Inr s)"

definition attr_typed :: "'z canon_scheme \<Rightarrow> json \<Rightarrow> json \<Rightarrow> bool" where
  "attr_typed cn spec v \<longleftrightarrow>
     (if field_is_datetime_scalar spec
      then (case as_str v of None \<Rightarrow> False | Some s \<Rightarrow> canonicalize_datetime_str cn s = Inr s)
      else if field_is_uuid_scalar spec then uuid_typed cn v
      else if field_is_uuid_array spec
      then (case as_array v of None \<Rightarrow> False | Some vs \<Rightarrow> list_all (uuid_typed cn) vs)
      else True)"

definition attrs_typed :: "'z canon_scheme \<Rightarrow> json \<Rightarrow> attrs \<Rightarrow> bool" where
  "attrs_typed cn sch at \<longleftrightarrow>
     (\<forall>k v spec. fmlookup at k = Some v \<and> schema_field sch k = Some spec \<longrightarrow> attr_typed cn spec v)"

lemma as_str_iff: "as_str v = Some s \<longleftrightarrow> v = JString s"
  by (cases v) auto

lemma as_array_iff: "as_array v = Some vs \<longleftrightarrow> v = JArray vs"
  by (cases v) auto

lemma traverse_fixed: "traverse f xs = Inr xs \<longleftrightarrow> (\<forall>x \<in> set xs. f x = Inr x)"
  by (induction xs) (auto split: sum.splits)

lemma traverse_keys: "traverse (\<lambda>(k, v). map_ok (Pair k) (g k v)) es = Inr fs \<Longrightarrow> map fst fs = map fst es"
  by (induction es arbitrary: fs) (auto split: sum.splits prod.splits)

text \<open>A value is typed exactly when normalisation leaves it alone.\<close>

lemma attr_typed_iff:
  "jget k obj = Some spec \<Longrightarrow> attr_typed cn spec v \<longleftrightarrow> normalize_attribute cn obj k v = Inr v"
proof -
  assume k: "jget k obj = Some spec"
  let ?g = "\<lambda>item. case as_str item of
              None \<Rightarrow> Inl (''[]uuid element must be a string: '' @ k)
            | Some s \<Rightarrow> map_ok JString (canonicalize_uuid_str cn s)"
  have u: "uuid_typed cn x \<longleftrightarrow> ?g x = Inr x" for x
    by (cases x) (auto simp: uuid_typed_def)
  have a: "traverse ?g vs = Inr vs \<longleftrightarrow> list_all (uuid_typed cn) vs" for vs
    unfolding traverse_fixed list_all_iff u ..
  have d: "(case as_str v of None \<Rightarrow> False | Some s \<Rightarrow> canonicalize_datetime_str cn s = Inr s) \<longleftrightarrow>
      normalize_datetime_scalar_value cn v k = Inr v"
    by (cases v) (auto simp: normalize_datetime_scalar_value_def)
  have us: "uuid_typed cn v \<longleftrightarrow> normalize_uuid_scalar_value cn v k = Inr v"
    by (cases v) (auto simp: normalize_uuid_scalar_value_def uuid_typed_def)
  have ua: "(case as_array v of None \<Rightarrow> False | Some vs \<Rightarrow> list_all (uuid_typed cn) vs) \<longleftrightarrow>
      normalize_uuid_array_value cn v k = Inr v"
    unfolding a [symmetric] by (cases v) (auto simp: normalize_uuid_array_value_def)
  show ?thesis by (simp add: attr_typed_def normalize_attribute_def k d us ua)
qed

lemma schema_field_object: "as_object sch = Some obj \<Longrightarrow> schema_field sch k = jget k obj"
  by (simp add: schema_field_def)

text \<open>Typed attributes are exactly the fixed points of the validation.\<close>

lemma attrs_typed_iff:
  "attrs_typed cn sch at \<longleftrightarrow> validate_and_normalize_document_attributes cn at sch = Inr at"
proof (cases "as_object sch")
  case None
  then show ?thesis
    by (simp add: attrs_typed_def schema_field_def validate_and_normalize_document_attributes_def)
next
  case (Some obj)
  let ?f = "\<lambda>(k, v). map_ok (Pair k) (normalize_attribute cn obj k v)"
  have f: "?f (k, v) = Inr (k, v) \<longleftrightarrow> normalize_attribute cn obj k v = Inr v" for k v by auto
  have n: "normalize_attribute cn obj k v = Inr v" if "jget k obj = None" for k v
    using that by (simp add: normalize_attribute_def)
  have "attrs_typed cn sch at \<longleftrightarrow> (\<forall>k v. fmlookup at k = Some v \<longrightarrow> normalize_attribute cn obj k v = Inr v)"
    unfolding attrs_typed_def schema_field_object [OF Some] using attr_typed_iff n by (metis option.exhaust)
  also have "\<dots> \<longleftrightarrow> traverse ?f (fm_entries at) = Inr (fm_entries at)"
    unfolding traverse_fixed by (metis (no_types, lifting) f fm_entries_iff surj_pair)
  also have "\<dots> \<longleftrightarrow> validate_and_normalize_document_attributes cn at sch = Inr at"
  proof
    assume "traverse ?f (fm_entries at) = Inr (fm_entries at)"
    then show "validate_and_normalize_document_attributes cn at sch = Inr at"
      by (simp add: validate_and_normalize_document_attributes_def Some)
  next
    assume "validate_and_normalize_document_attributes cn at sch = Inr at"
    then obtain fs where fs: "traverse ?f (fm_entries at) = Inr fs" "at = fmap_of_list fs"
      by (auto simp: validate_and_normalize_document_attributes_def Some)
    have "map fst fs = map fst (fm_entries at)"
      using fs(1) by (rule traverse_keys)
    then have "fm_entries (fmap_of_list fs) = fs"
      by (intro fm_entries_of_sorted) (simp add: strict_sorted_iff)
    then show "traverse ?f (fm_entries at) = Inr (fm_entries at)" using fs by simp
  qed
  finally show ?thesis .
qed


definition typed_schema :: json where
  "typed_schema = JObject [(''at'', JString ''datetime'')]"


end
