(* ===== verification/Vector_Encoding_Correct.thy ===== *)
theory Vector_Encoding_Correct
  imports Vector_Encoding Schema_Correct
begin

text \<open>
  The wire formats of RFC 4648 and IEEE 754 half precision as an instance of \<open>vector_wire\<close>, and the
  properties of the vector encoding: the round trip of base64 vectors, and the treatment of
  plain texts that happen to be base64.
\<close>

section \<open>Base64 and half precision\<close>

definition b64_alphabet :: string where
  "b64_alphabet = ''ABCDEFGHIJKLMNOPQRSTUVWXYZabcdefghijklmnopqrstuvwxyz0123456789+/''"

definition b64_char :: "nat \<Rightarrow> char" where
  "b64_char n = b64_alphabet ! n"

fun index_of :: "'a \<Rightarrow> 'a list \<Rightarrow> nat option" where
  "index_of x [] = None"
| "index_of x (y # ys) = (if x = y then Some 0 else map_option Suc (index_of x ys))"

definition b64_val :: "char \<Rightarrow> nat option" where
  "b64_val c = index_of c b64_alphabet"

fun rfc4648_encode :: "bytes \<Rightarrow> string" where
  "rfc4648_encode [] = []"
| "rfc4648_encode [a] = [b64_char (unat a div 4), b64_char (unat a mod 4 * 16), CHR ''='', CHR ''='']"
| "rfc4648_encode [a, b] =
     [b64_char (unat a div 4), b64_char (unat a mod 4 * 16 + unat b div 16), b64_char (unat b mod 16 * 4), CHR ''='']"
| "rfc4648_encode (a # b # c # rest) =
     b64_char (unat a div 4) # b64_char (unat a mod 4 * 16 + unat b div 16) #
     b64_char (unat b mod 16 * 4 + unat c div 64) # b64_char (unat c mod 64) # rfc4648_encode rest"

text \<open>Padding is required and unused bits must be zero.\<close>

definition decode_quad :: "char \<Rightarrow> char \<Rightarrow> char \<Rightarrow> char \<Rightarrow> bool \<Rightarrow> bytes option" where
  "decode_quad p q r t final =
     (case (b64_val p, b64_val q) of
        (Some a, Some b) \<Rightarrow>
          (case (b64_val r, b64_val t) of
             (Some c, Some d) \<Rightarrow>
               Some [of_nat (a * 4 + b div 16), of_nat (b mod 16 * 16 + c div 4), of_nat (c mod 4 * 64 + d)]
           | (Some c, None) \<Rightarrow>
               if final \<and> t = CHR ''='' \<and> c mod 4 = 0
               then Some [of_nat (a * 4 + b div 16), of_nat (b mod 16 * 16 + c div 4)] else None
           | _ \<Rightarrow>
               if final \<and> r = CHR ''='' \<and> t = CHR ''='' \<and> b mod 16 = 0
               then Some [of_nat (a * 4 + b div 16)] else None)
      | _ \<Rightarrow> None)"

fun rfc4648_decode :: "string \<Rightarrow> bytes option" where
  "rfc4648_decode [] = Some []"
| "rfc4648_decode (p # q # r # t # rest) =
     (case decode_quad p q r t (rest = []) of
        None \<Rightarrow> None
      | Some bs \<Rightarrow> map_option ((@) bs) (rfc4648_decode rest))"
| "rfc4648_decode _ = None"

definition ref_wire :: wire where
  "ref_wire = \<lparr>b64_encode = rfc4648_encode, b64_decode = rfc4648_decode,
     f16_from_f32 = (\<lambda>x. of_nat (fp_to_bits 10 5 (fp_cast 10 5 x))),
     f16_value = (\<lambda>w. fp_of_bits 10 5 (unat w))\<rparr>"

lemma b64_val_char [simp]: "n < 64 \<Longrightarrow> b64_val (b64_char n) = Some n"
proof -
  have "list_all (\<lambda>n. b64_val (b64_char n) = Some n) [0..<64]" by code_simp
  then show "n < 64 \<Longrightarrow> ?thesis" by (simp add: list_all_iff)
qed

lemma b64_val_pad [simp]: "b64_val (CHR ''='') = None"
  by code_simp

lemma byte_unat: "unat (a :: byte) < 256"
  using unsigned_less [of a] by simp

lemma quad_bits [simp]:
  "unat (a :: byte) div 4 < 64" "unat (a :: byte) mod 4 * 16 < 64"
  "unat (a :: byte) mod 4 * 16 + unat (b :: byte) div 16 < 64" "unat (b :: byte) mod 16 * 4 < 64"
  "unat (b :: byte) mod 16 * 4 + unat (c :: byte) div 64 < 64" "unat (c :: byte) mod 64 < 64"
  using byte_unat [of a] byte_unat [of b] byte_unat [of c] by simp_all

lemma quad_join:
  fixes x y z :: nat
  assumes "y < 256" "z < 256"
  shows "x div 4 * 4 + (x mod 4 * 16 + y div 16) div 16 = x"
    and "(x mod 4 * 16 + y div 16) mod 16 * 16 + y mod 16 * 4 div 4 = y"
    and "(x mod 4 * 16 + y div 16) mod 16 * 16 + (y mod 16 * 4 + z div 64) div 4 = y"
    and "(y mod 16 * 4 + z div 64) mod 4 * 64 + z mod 64 = z"
proof -
  have "y div 16 < 16" "z div 64 < 4" using assms by simp_all
  then show "x div 4 * 4 + (x mod 4 * 16 + y div 16) div 16 = x"
    "(x mod 4 * 16 + y div 16) mod 16 * 16 + y mod 16 * 4 div 4 = y"
    "(x mod 4 * 16 + y div 16) mod 16 * 16 + (y mod 16 * 4 + z div 64) div 4 = y"
    "(y mod 16 * 4 + z div 64) mod 4 * 64 + z mod 64 = z"
    by simp_all
qed

lemma decode_quad_full:
  "i < 64 \<Longrightarrow> j < 64 \<Longrightarrow> k < 64 \<Longrightarrow> l < 64 \<Longrightarrow>
   decode_quad (b64_char i) (b64_char j) (b64_char k) (b64_char l) fin =
     Some [of_nat (i * 4 + j div 16), of_nat (j mod 16 * 16 + k div 4), of_nat (k mod 4 * 64 + l)]"
  "i < 64 \<Longrightarrow> j < 64 \<Longrightarrow> k < 64 \<Longrightarrow> k mod 4 = 0 \<Longrightarrow>
   decode_quad (b64_char i) (b64_char j) (b64_char k) (CHR ''='') True =
     Some [of_nat (i * 4 + j div 16), of_nat (j mod 16 * 16 + k div 4)]"
  "i < 64 \<Longrightarrow> j < 64 \<Longrightarrow> j mod 16 = 0 \<Longrightarrow>
   decode_quad (b64_char i) (b64_char j) (CHR ''='') (CHR ''='') True = Some [of_nat (i * 4 + j div 16)]"
  by (simp_all add: decode_quad_def)

lemma unat_byte_inverse: "of_nat (unat a) = (a :: byte)"
  by simp

lemma rfc4648_roundtrip: "rfc4648_decode (rfc4648_encode b) = Some b"
proof (induction b rule: rfc4648_encode.induct)
  case (2 a)
  have "unat a div 4 * 4 + unat a mod 4 * 16 div 16 = unat a" by simp
  then show ?case
    by (simp only: rfc4648_encode.simps rfc4648_decode.simps decode_quad_full quad_bits mod_mult_self2_is_0
        option.case option.map append.simps unat_byte_inverse simp_thms append_Nil2)
next
  case (3 a b)
  then show ?case
    using quad_join(1,2) [OF byte_unat [of b] byte_unat [of b], where x = "unat a"]
    by (simp only: rfc4648_encode.simps rfc4648_decode.simps decode_quad_full quad_bits mod_mult_self2_is_0
        option.case option.map append.simps unat_byte_inverse simp_thms append_Nil2)
next
  case (4 a b c rest)
  then show ?case
    using quad_join(1,3) [OF byte_unat [of b] byte_unat [of c], where x = "unat a"]
      quad_join(4) [OF byte_unat [of b] byte_unat [of c]]
    by (simp only: rfc4648_encode.simps rfc4648_decode.simps decode_quad_full quad_bits
        option.case option.map append.simps unat_byte_inverse simp_thms append_Nil2)
qed simp

lemma b64_char_out [simp]: "n < 64 \<Longrightarrow> b64_char n \<in> printable"
proof -
  have "length b64_alphabet = 64" "set b64_alphabet \<subseteq> printable" by (simp_all add: b64_alphabet_def printable_def)
  then show "n < 64 \<Longrightarrow> ?thesis" unfolding b64_char_def by (metis nth_mem subsetD)
qed

lemma pad_out [simp]: "CHR ''='' \<in> printable"
  by (simp add: printable_def)

lemma rfc4648_chars: "set (rfc4648_encode b) \<subseteq> printable"
  by (induction b rule: rfc4648_encode.induct) simp_all

lemmas rfc4648_trim = trim_printable [OF rfc4648_chars]

interpretation ref_wire: vector_wire ref_wire
proof
  fix w :: "16 word"
  assume w: "f16_finite_bits w"
  show "f64_finite (f16_value ref_wire w)"
    using w by (simp add: ref_wire_def f16_finite_bits_def fp_of_bits_is_finite)
  show "f64_to_f32 (f16_value ref_wire w) = f16_value ref_wire w"
    using w by (simp add: ref_wire_def f16_finite_bits_def f64_to_f32_def fp_cast_of_bits)
  show "f16_from_f32 ref_wire (f16_value ref_wire w) = w"
    using w by (simp add: ref_wire_def f16_finite_bits_def fp_cast_of_bits fp_to_of_bits)
qed (simp_all add: ref_wire_def rfc4648_roundtrip rfc4648_trim)

section \<open>Round trip\<close>

text \<open>
  C39. A vector written as the base64 of its little-endian components, single or half precision as
  the schema says, is stored as the array of those components, and a query that asks for
  the field gets back the same text, or the array in the float encoding, provided no
  component is an infinity or NaN.
\<close>

theorem base64_vector_roundtrip:
  assumes wire: "vector_wire W"
    and vec: "field_is_vector_in_schema m f"
    and len: "length b mod elem_bytes (vector_element_for_field (schema m) f) = 0"
    and fin: "wire_finite (vector_element_for_field (schema m) f) b"
    and at: "fmlookup at f = Some (JString (b64_encode W b))"
    and norm: "normalize_document_vectors W at m = (at', Inr ())"
  shows "fmlookup at' f =
      Some (JArray (map (\<lambda>x. JNumber (Float x)) (wire_values W (vector_element_for_field (schema m) f) b))) \<and>
    (\<exists>row. project_row_attributes W \<lparr>doc_id = i, attributes = at'\<rparr> m inc names (VectorFields [f]) Base64 = Some row \<and>
       fmlookup row f = Some (JString (b64_encode W b))) \<and>
    (\<exists>row. project_row_attributes W \<lparr>doc_id = i, attributes = at'\<rparr> m inc names (VectorFields [f]) FloatArray = Some row \<and>
       fmlookup row f = fmlookup at' f)"
proof -
  note r = vector_wire.vector_text_roundtrip [OF wire refl vec len fin at norm,
      of "\<lparr>doc_id = i, attributes = at'\<rparr>" inc names]
  note s = vector_wire.stored_vector [OF wire refl vec len fin at norm]
  show ?thesis using r s by simp
qed

definition vec_meta :: namespace_meta where
  "vec_meta = default_meta\<lparr>schema := JObject [(''h'', JString ''[2]f16''), (''v'', JString ''[2]f32'')]\<rparr>"

text \<open>The half precision vector (1, -2) as base64.\<close>

definition vec_bytes :: bytes where
  "vec_bytes = [0, 0x3C, 0, 0xC0]"

definition vec_attrs :: attrs where
  "vec_attrs = fmap_of_list [(''h'', JString ''ADwAwA=='')]"

definition vec_stored :: attrs where
  "vec_stored = fmap_of_list [(''h'', JArray (map json_f64 (wire_values ref_wire F16 vec_bytes)))]"

lemma vec_text: "b64_encode ref_wire vec_bytes = ''ADwAwA==''"
  by (simp add: vec_bytes_def ref_wire_def b64_char_def b64_alphabet_def)

lemma vec_finite: "wire_finite F16 vec_bytes"
  by (simp add: vec_bytes_def chunks_exact.simps f16_finite_bits_def fp_finite_bits_def fp_inf_pat_def)

lemma vec_schema:
  "field_is_vector_in_schema vec_meta ''h''" "vector_element_for_field (schema vec_meta) ''h'' = F16"
proof -
  have f: "schema_field (schema vec_meta) ''h'' = Some (JString ''[2]f16'')"
    by (simp add: schema_field_def vec_meta_def jget_def)
  have t: "trim ''[2]f16'' = ''[2]f16''" "trim ''2'' = ''2''" "trim ''f16'' = ''f16''"
    by (intro trim_printable; simp add: printable_def)+
  show "field_is_vector_in_schema vec_meta ''h''"
    unfolding field_is_vector_in_schema_def f
    by (simp add: field_is_vector_spec_def field_is_vector_type_str_def str_contains_def
        to_ascii_lowercase_def ascii_lower_char_def)
  show "vector_element_for_field (schema vec_meta) ''h'' = F16"
    unfolding vector_element_for_field_def f
    by (simp add: parse_vector_type_spec_def parse_vector_type_str_def t split_once_def parse_u32_def
        is_digit_def dec_val_def digit_val_def to_ascii_lowercase_def ascii_lower_char_def)
qed

lemma vec_length: "length vec_bytes mod elem_bytes F16 = 0"
  by (simp add: vec_bytes_def)

lemmas vec_facts = vec_text vec_schema vec_length vec_finite

lemma vec_norm: "normalize_document_vectors ref_wire vec_attrs vec_meta = (vec_stored, Inr ())"
proof -
  have k: "fm_keys vec_attrs = [''h'']" unfolding vec_attrs_def fm_keys_code by simp
  have l: "fmlookup vec_attrs ''h'' = Some (JString (b64_encode ref_wire vec_bytes))"
    unfolding vec_facts(1) by (simp add: vec_attrs_def)
  have "fmupd ''h'' v (fmdrop ''h'' vec_attrs) = fmap_of_list [(''h'', v)]" for v
    by (rule fmap_ext) (simp add: vec_attrs_def)
  then show ?thesis
    unfolding normalize_document_vectors_def k normalize_keys.simps Let_def l vec_stored_def option.case
    using vec_facts(2) ref_wire.decode_text [OF vec_facts(4)] by (simp add: vec_facts(3))
qed

theorem base64_vector_roundtrip_witness:
  "normalize_document_vectors ref_wire vec_attrs vec_meta = (vec_stored, Inr ()) \<and>
   (\<exists>row. project_row_attributes ref_wire \<lparr>doc_id = ''d'', attributes = vec_stored\<rparr> vec_meta False None
       (VectorFields [''h'']) Base64 = Some row \<and> fmlookup row ''h'' = Some (JString ''ADwAwA==''))"
proof -
  have at: "fmlookup vec_attrs ''h'' = Some (JString (b64_encode ref_wire vec_bytes))"
    unfolding vec_facts(1) by (simp add: vec_attrs_def)
  have "length vec_bytes mod elem_bytes (vector_element_for_field (schema vec_meta) ''h'') = 0"
    "wire_finite (vector_element_for_field (schema vec_meta) ''h'') vec_bytes"
    unfolding vec_facts(3) by (rule vec_facts)+
  from base64_vector_roundtrip [OF ref_wire.vector_wire_axioms vec_facts(2) this at vec_norm,
      of "''d''" False None] vec_norm
  show ?thesis unfolding vec_facts(1) by blast
qed

section \<open>Texts taken for vectors\<close>

text \<open>
  C40. Normalisation also replaces a text attribute of a field the schema does not declare as a
  vector by an array of numbers, whenever the text is the base64 form of a multiple of four bytes,
  as the empty text and every text of 16 or 32 letters and digits is.  If the field is declared
  as a UUID, the validation that follows then refuses the write.
\<close>

theorem text_becomes_vector:
  assumes wire: "vector_wire W"
    and len: "length b mod 4 = 0"
    and elem: "vector_element_for_field (schema m) f = F32"
  shows "\<exists>xs. length xs = length b div 4 \<and>
    normalize_document_vectors W (fmap_of_list [(f, JString (b64_encode W b))]) m =
      (fmap_of_list [(f, JArray xs)], Inr ()) \<and>
    (\<forall>obj spec. as_object (schema m) = Some obj \<and> jget f obj = Some spec \<and> field_is_uuid_scalar spec \<longrightarrow>
      isl (validate_and_normalize_document_attributes cn (fmap_of_list [(f, JArray xs)]) (schema m)))"
proof (intro exI conjI allI impI)
  let ?xs = "map json_f64 (wire_values W F32 b)"
  let ?at = "fmap_of_list [(f, JString (b64_encode W b))]"
  show "length ?xs = length b div 4" using len by (simp add: length_chunks_exact)
  have k: "fm_keys ?at = [f]" unfolding fm_keys_code by simp
  have u: "fmupd f v (fmdrop f ?at) = fmap_of_list [(f, v)]" for v by (rule fmap_ext) simp
  have l: "fmlookup ?at f = Some (JString (b64_encode W b))" by simp
  have d: "decode_vector_value_with_element W (JString (b64_encode W b)) (Some F32) = Inr (wire_values W F32 b)"
    using vector_wire.decode_text [OF wire, of b F32] len by simp
  show "normalize_document_vectors W ?at m = (fmap_of_list [(f, JArray ?xs)], Inr ())"
    unfolding normalize_document_vectors_def k normalize_keys.simps Let_def l option.case elem d sum.case u
    using vector_wire.text_is_vector [OF wire len] by simp
  fix obj spec
  assume s: "as_object (schema m) = Some obj \<and> jget f obj = Some spec \<and> field_is_uuid_scalar spec"
  have e: "fm_entries (fmap_of_list [(f, JArray ?xs)]) = [(f, JArray ?xs)]"
    by (rule fm_entries_of_sorted) simp
  have "\<exists>msg. normalize_attribute cn obj f (JArray ?xs) = Inl msg"
    using s by (simp add: normalize_attribute_def normalize_datetime_scalar_value_def normalize_uuid_scalar_value_def)
  then show "isl (validate_and_normalize_document_attributes cn (fmap_of_list [(f, JArray ?xs)]) (schema m))"
    using s unfolding validate_and_normalize_document_attributes_def e by auto
qed

text \<open>The text is the UUID 0123...cdef in its simple form, which UUID parsing accepts.\<close>

definition uuid_meta :: namespace_meta where
  "uuid_meta = default_meta\<lparr>schema := JObject [(''u'', JString ''uuid'')]\<rparr>"

definition uuid_bytes :: bytes where
  "uuid_bytes = [211, 93, 183, 227, 158, 187, 243, 214, 155, 113, 215, 159, 211, 93, 183, 227, 158, 187, 243, 214, 155, 113, 215, 159]"

theorem text_becomes_vector_witness:
  "\<exists>xs. length xs = 6 \<and>
    normalize_document_vectors ref_wire (fmap_of_list [(''u'', JString ''0123456789abcdef0123456789abcdef'')]) uuid_meta =
      (fmap_of_list [(''u'', JArray xs)], Inr ()) \<and>
    isl (validate_and_normalize_document_attributes ref_canon (fmap_of_list [(''u'', JArray xs)]) (schema uuid_meta))"
proof -
  have tu: "trim ''uuid'' = ''uuid''" by (rule trim_printable) (simp add: printable_def)
  have t: "b64_encode ref_wire uuid_bytes = ''0123456789abcdef0123456789abcdef''"
    by (simp add: uuid_bytes_def ref_wire_def b64_char_def b64_alphabet_def)
  have l: "length uuid_bytes = 24" "vector_element_for_field (schema uuid_meta) ''u'' = F32"
    by (simp add: uuid_bytes_def)
      (simp add: vector_element_for_field_def schema_field_def uuid_meta_def jget_def parse_vector_type_spec_def
        parse_vector_type_str_def tu)
  have o: "as_object (schema uuid_meta) = Some [(''u'', JString ''uuid'')]" "jget ''u'' [(''u'', JString ''uuid'')] = Some (JString ''uuid'')"
    by (simp_all add: uuid_meta_def jget_def)
  have u: "field_is_uuid_scalar (JString ''uuid'')"
    by (simp add: field_is_uuid_scalar_def field_type_name_def tu to_ascii_lowercase_def ascii_lower_char_def)
  have "length uuid_bytes mod 4 = 0" using l(1) by simp
  from text_becomes_vector [OF ref_wire.vector_wire_axioms this l(2), of ref_canon] o u
  show ?thesis unfolding t l(1) by auto
qed

end
