(* ===== verification/Kmeans.thy ===== *)
theory Kmeans
  imports Meta Vector_Encoding Sort_By
begin

text \<open>
  The numeric half of \<^verbatim>\<open>src/index/vector.rs\<close>: distances and scores over IEEE arithmetic, the
  deterministic random generator, k-means++ with Lloyd refinement, the sizing of the centroid
  hierarchy, and the ranking of centroids.  The f32 functions are the f64 ones with the rounding
  of \<^verbatim>\<open>f32\<close>; the rounding is their first argument.
\<close>

section \<open>Failures\<close>

text \<open>An index operation fails with an error or panics on an index out of range.\<close>

datatype vfail = VPanic | VErr error

section \<open>Distances\<close>

definition f32_of_rat :: "rat \<Rightarrow> f64" where
  "f32_of_rat = fp_round 23 8"

definition cosine_similarity :: "(rat \<Rightarrow> f64) \<Rightarrow> f64 list \<Rightarrow> f64 list \<Rightarrow> f64" where
  "cosine_similarity rnd a b =
     (if length a \<noteq> length b \<or> a = [] then Fin 0
      else
        (let (dot, na, nb) =
           fold (\<lambda>(x, y) (dot, na, nb).
                   (fp_add rnd dot (fp_mul rnd x y), fp_add rnd na (fp_mul rnd x x), fp_add rnd nb (fp_mul rnd y y)))
             (zip a b) (Fin 0, Fin 0, Fin 0)
         in if f64_eq na (Fin 0) \<or> f64_eq nb (Fin 0) then Fin 0
            else fp_div rnd dot (fp_mul rnd (fp_sqrt rnd na) (fp_sqrt rnd nb))))"

definition euclidean_squared :: "(rat \<Rightarrow> f64) \<Rightarrow> f64 list \<Rightarrow> f64 list \<Rightarrow> f64" where
  "euclidean_squared rnd a b =
     (if length a \<noteq> length b then PosInf
      else fold (\<lambda>(x, y) s. let d = fp_sub rnd x y in fp_add rnd s (fp_mul rnd d d)) (zip a b) (Fin 0))"

definition score_with :: "(rat \<Rightarrow> f64) \<Rightarrow> f64 list \<Rightarrow> f64 list \<Rightarrow> distance_metric \<Rightarrow> f64" where
  "score_with rnd query cand m =
     (case m of
        CosineDistance \<Rightarrow> cosine_similarity rnd query cand
      | EuclideanSquared \<Rightarrow>
          (let d2 = euclidean_squared rnd query cand in if f64_finite d2 then f64_neg d2 else NegInf))"

definition score_vector :: "f64 list \<Rightarrow> f64 list \<Rightarrow> distance_metric \<Rightarrow> f64" where
  "score_vector = score_with f64_of_rat"

definition score_vector_f32 :: "f64 list \<Rightarrow> f64 list \<Rightarrow> distance_metric \<Rightarrow> f64" where
  "score_vector_f32 = score_with f32_of_rat"

definition point_dist_sq :: "f64 list \<Rightarrow> f64 list \<Rightarrow> distance_metric \<Rightarrow> f64" where
  "point_dist_sq v center m =
     (case m of
        CosineDistance \<Rightarrow>
          (let d = f64_max (f64_sub (Fin 1) (cosine_similarity f64_of_rat v center)) (Fin 0) in f64_mul d d)
      | EuclideanSquared \<Rightarrow> euclidean_squared f64_of_rat v center)"

section \<open>Random numbers\<close>

definition f64_to_bits :: "f64 \<Rightarrow> 64 word" where
  "f64_to_bits x = of_nat (fp_to_bits 52 11 x)"

definition rng_seed :: "nat \<Rightarrow> nat \<Rightarrow> (string \<times> f64 list) list \<Rightarrow> 64 word" where
  "rng_seed n k pairs =
     (let s0 = of_nat n * 0x9E3779B97F4A7C15 + of_nat k;
          s = (case pairs of
                 [] \<Rightarrow> s0
               | (_, v) # _ \<Rightarrow>
                   fold (\<lambda>(i, x) s. s + f64_to_bits x * of_nat (i + 1)) (List.enumerate 0 (take 8 v)) s0)
      in if s = 0 then 0xA0761D6478BD642F else s)"

definition next_u64 :: "64 word \<Rightarrow> 64 word" where
  "next_u64 x0 =
     (let x1 = x0 XOR push_bit 13 x0; x2 = x1 XOR drop_bit 7 x1 in x2 XOR push_bit 17 x2)"

text \<open>Both return the drawn value and the new generator state.\<close>

definition unit_interval :: "64 word \<Rightarrow> f64 \<times> 64 word" where
  "unit_interval x =
     (let y = next_u64 x in (f64_mul (f64_of_nat (unat y)) (f64_div (Fin 1) (f64_of_nat u64_max)), y))"

definition rng_index :: "nat \<Rightarrow> 64 word \<Rightarrow> nat \<times> 64 word" where
  "rng_index upper x = (if upper \<le> 1 then (0, x) else let y = next_u64 x in (unat y mod upper, y))"

section \<open>k-means\<close>

definition KMEANS_ITERS :: nat where
  "KMEANS_ITERS = 10"

definition nearest_centroid_id :: "f64 list \<Rightarrow> f64 list list \<Rightarrow> distance_metric \<Rightarrow> nat" where
  "nearest_centroid_id v centroids m =
     fst (fold (\<lambda>(i, c) (best, best_score).
                  let s = score_vector v c m in if f64_lt best_score s then (i, s) else (best, best_score))
            (List.enumerate 0 centroids) (0, NegInf))"

definition assign_to_centroids ::
  "(string \<times> f64 list) list \<Rightarrow> f64 list list \<Rightarrow> distance_metric \<Rightarrow> (string, nat) fmap" where
  "assign_to_centroids pairs centroids m =
     fold (\<lambda>(i, v). fmupd i (nearest_centroid_id v centroids m)) pairs fmempty"

definition f64_ge :: "f64 \<Rightarrow> f64 \<Rightarrow> bool" where
  "f64_ge a b \<longleftrightarrow> (f64_partial_cmp a b = Some Greater \<or> f64_partial_cmp a b = Some Equal)"

text \<open>The first index at which the running sum reaches \<open>r\<close>, else the given last index.\<close>

fun pick_weighted :: "f64 \<Rightarrow> f64 \<Rightarrow> nat \<Rightarrow> nat \<Rightarrow> f64 list \<Rightarrow> nat" where
  "pick_weighted r acc i otherwise [] = otherwise"
| "pick_weighted r acc i otherwise (d # ds) =
     (let acc' = f64_add acc d in if f64_ge acc' r then i else pick_weighted r acc' (i + 1) otherwise ds)"

definition kpp_dist_sq :: "(string \<times> f64 list) list \<Rightarrow> distance_metric \<Rightarrow> f64 list list \<Rightarrow> f64 list" where
  "kpp_dist_sq pairs m centroids =
     map (\<lambda>(_, v). fold (\<lambda>c d. f64_min d (point_dist_sq v c m)) centroids PosInf) pairs"

definition kpp_pick :: "nat \<Rightarrow> nat \<Rightarrow> f64 list \<Rightarrow> 64 word \<Rightarrow> nat \<times> 64 word" where
  "kpp_pick n chosen dist_sq rng =
     (let total = fold (\<lambda>d t. f64_add t d) dist_sq (Fin 0) in
      if f64_ge (Fin (1 / 2 ^ 52)) total then (chosen mod n, rng)
      else let (u, rng') = unit_interval rng
           in (pick_weighted (f64_mul u total) (Fin 0) 0 (n - 1) dist_sq, rng'))"

definition kpp_step ::
  "(string \<times> f64 list) list \<Rightarrow> distance_metric \<Rightarrow> f64 list list \<times> 64 word \<Rightarrow> f64 list list \<times> 64 word" where
  "kpp_step pairs m st =
     (let (centroids, rng) = st;
          (pick, rng') = kpp_pick (length pairs) (length centroids) (kpp_dist_sq pairs m centroids) rng
      in (centroids @ [snd (pairs ! pick)], rng'))"

text \<open>The pair list is not empty here, so that every pick is an index of it.\<close>

definition kmeans_plus_plus_init ::
  "(string \<times> f64 list) list \<Rightarrow> nat \<Rightarrow> distance_metric \<Rightarrow> f64 list list" where
  "kmeans_plus_plus_init pairs k m =
     (let n = length pairs; (first, rng) = rng_index n (rng_seed n k pairs)
      in fst ((kpp_step pairs m ^^ (k - 1)) ([snd (pairs ! first)], rng)))"

definition add_to_sum ::
  "nat \<Rightarrow> f64 list list \<Rightarrow> distance_metric \<Rightarrow> string \<times> f64 list \<Rightarrow> f64 list list \<times> nat list \<Rightarrow>
   vfail + (f64 list list \<times> nat list)" where
  "add_to_sum dim centroids m p acc =
     (let (sums, counts) = acc; v = snd p; best = nearest_centroid_id v centroids m
      in if length v < dim \<or> length sums \<le> best then Inl VPanic
         else Inr (sums[best := map (\<lambda>(x, y). f64_add x y) (zip (sums ! best) (take dim v))],
                   counts[best := counts ! best + 1]))"

definition move_centroid :: "nat \<Rightarrow> f64 list \<times> f64 list \<times> nat \<Rightarrow> f64 list" where
  "move_centroid dim x =
     (case x of
        (c, sm, cnt) \<Rightarrow>
          if 0 < cnt
          then (let inv = f64_div (Fin 1) (f64_of_nat cnt) in map (\<lambda>y. f64_mul y inv) sm @ drop dim c)
          else c)"

definition lloyd_step ::
  "(string \<times> f64 list) list \<Rightarrow> nat \<Rightarrow> nat \<Rightarrow> distance_metric \<Rightarrow> f64 list list \<Rightarrow> vfail + f64 list list" where
  "lloyd_step pairs k dim m centroids =
     and_then (fold_ok (add_to_sum dim centroids m) pairs (replicate k (replicate dim (Fin 0)), replicate k 0))
       (\<lambda>(sums, counts). Inr (map (move_centroid dim) (zip centroids (zip sums counts))))"

fun repeat_ok :: "nat \<Rightarrow> ('s \<Rightarrow> 'e + 's) \<Rightarrow> 's \<Rightarrow> 'e + 's" where
  "repeat_ok 0 f s = Inr s"
| "repeat_ok (Suc n) f s = and_then (f s) (repeat_ok n f)"

definition kmeans_centroids ::
  "(string \<times> f64 list) list \<Rightarrow> nat \<Rightarrow> nat \<Rightarrow> distance_metric \<Rightarrow> vfail + f64 list list" where
  "kmeans_centroids pairs k dim m =
     (let n = length pairs in
      if n = 0 then Inr []
      else if n \<le> k then Inr (map snd pairs)
      else repeat_ok KMEANS_ITERS (lloyd_step pairs k dim m) (kmeans_plus_plus_init pairs k m))"

definition top_m_centroids :: "f64 list list \<Rightarrow> f64 list \<Rightarrow> distance_metric \<Rightarrow> nat \<Rightarrow> nat list" where
  "top_m_centroids centroids query metr m =
     (if centroids = [] then []
      else map fst (take (min m (length centroids))
             (sort_by score_cmp (map (\<lambda>(i, c). (i, score_vector query c metr)) (List.enumerate 0 centroids)))))"

section \<open>Sizing\<close>

definition MAX_COARSE_CENTROIDS :: nat where "MAX_COARSE_CENTROIDS = 16"

definition MAX_COARSE_CENTROIDS_V3 :: nat where "MAX_COARSE_CENTROIDS_V3 = 256"

definition MAX_FINE_PER_COARSE :: nat where "MAX_FINE_PER_COARSE = 256"

definition MAX_FINE_PER_COARSE_V3 :: nat where "MAX_FINE_PER_COARSE_V3 = 8"

definition V3_TARGET_DOCS_PER_COARSE :: nat where "V3_TARGET_DOCS_PER_COARSE = 500"

definition V3_INDEX_OBJECT_CAP :: nat where "V3_INDEX_OBJECT_CAP = 500"

text \<open>\<^verbatim>\<open>(n as f64).sqrt().ceil() as usize\<close>.\<close>

definition sqrt_ceil :: "nat \<Rightarrow> nat" where
  "sqrt_ceil n = nat \<lceil>f64_val (fp_sqrt f64_of_rat (f64_of_nat n))\<rceil>"

definition clamp_nat :: "nat \<Rightarrow> nat \<Rightarrow> nat \<Rightarrow> nat" where
  "clamp_nat x lo hi = (if x < lo then lo else if hi < x then hi else x)"

definition ceil_div :: "nat \<Rightarrow> nat \<Rightarrow> nat" where
  "ceil_div a b = (a + b - 1) div b"

definition num_coarse_v2 :: "nat \<Rightarrow> nat" where
  "num_coarse_v2 n =
     (if n \<le> 32 then 1 else min (clamp_nat (max (sqrt_ceil n div 4) 4) 1 n) MAX_COARSE_CENTROIDS)"

definition num_fine_v2 :: "nat \<Rightarrow> nat" where
  "num_fine_v2 n = (if n = 0 then 0 else min (clamp_nat (sqrt_ceil n) 1 n) MAX_FINE_PER_COARSE)"

definition num_fine_v3 :: "nat \<Rightarrow> nat" where
  "num_fine_v3 n = (if n = 0 then 0 else min (clamp_nat (sqrt_ceil n) 1 n) MAX_FINE_PER_COARSE_V3)"

definition v3_l1_cluster_object_count_estimate :: "nat \<Rightarrow> nat \<Rightarrow> nat" where
  "v3_l1_cluster_object_count_estimate n k_coarse =
     (if k_coarse = 0 then 0 else k_coarse + k_coarse * num_fine_v3 (ceil_div n k_coarse))"

fun shrink_coarse :: "nat \<Rightarrow> nat \<Rightarrow> nat" where
  "shrink_coarse n k =
     (if 8 < k \<and> V3_INDEX_OBJECT_CAP \<le> v3_l1_cluster_object_count_estimate n k
      then shrink_coarse n (k - 1) else k)"

declare shrink_coarse.simps [simp del]

definition num_coarse_v3 :: "nat \<Rightarrow> nat" where
  "num_coarse_v3 n =
     (if n \<le> 32 then 1
      else shrink_coarse n (min (clamp_nat (max (n div V3_TARGET_DOCS_PER_COARSE) 8) 8 n) MAX_COARSE_CENTROIDS_V3))"

definition num_coarse_for_version :: "nat \<Rightarrow> nat \<Rightarrow> nat" where
  "num_coarse_for_version n ann_version =
     (if n = 0 then 0 else if ANN_VERSION_V3 \<le> ann_version then num_coarse_v3 n else num_coarse_v2 n)"

definition num_fine_for_version :: "nat \<Rightarrow> nat \<Rightarrow> nat" where
  "num_fine_for_version n ann_version =
     (if n = 0 then 0 else if ANN_VERSION_V3 \<le> ann_version then num_fine_v3 n else num_fine_v2 n)"

section \<open>Laws\<close>

lemma enumerate_fst: "fst ` set (List.enumerate n xs) = {n..<n + length xs}"
  by (induction xs arbitrary: n) (auto simp: image_iff)

lemma nearest_fold:
  "fst (fold (\<lambda>(i, c) (best, bs). let s = g c in if f64_lt bs s then (i, s) else (best, bs)) xs (b, s0)) \<in>
     insert b (fst ` set xs)"
proof (induction xs arbitrary: b s0)
  case (Cons x xs)
  obtain i c where x: "x = (i, c)" by (cases x)
  show ?case
    using Cons.IH [of i "g c"] Cons.IH [of b s0] by (auto simp: x Let_def)
qed simp

lemma nearest_centroid_id_less: "cs \<noteq> [] \<Longrightarrow> nearest_centroid_id v cs m < length cs"
  using nearest_fold [of "\<lambda>c. score_vector v c m" "List.enumerate 0 cs" 0 NegInf] enumerate_fst [of 0 cs]
  by (auto simp: nearest_centroid_id_def)

lemma rng_index_less: "0 < n \<Longrightarrow> fst (rng_index n x) < n"
  by (simp add: rng_index_def Let_def)

lemma pick_weighted_less: "pick_weighted r acc i d ds = d \<or> pick_weighted r acc i d ds < i + length ds"
proof (induction ds arbitrary: acc i)
  case (Cons x ds)
  show ?case using Cons.IH [of "f64_add acc x" "i + 1"] by (auto simp: Let_def)
qed simp

lemma kpp_pick_less: "0 < n \<Longrightarrow> length ds = n \<Longrightarrow> fst (kpp_pick n j ds rng) < n"
proof -
  assume n: "0 < n" "length ds = n"
  have "pick_weighted r a 0 (n - 1) ds < n" for r a
    using pick_weighted_less [of r a 0 "n - 1" ds] n by auto
  then show ?thesis using n by (auto simp: kpp_pick_def Let_def split: prod.split)
qed

lemma kpp_step_adds:
  assumes "pairs \<noteq> []"
  shows "\<exists>p \<in> set pairs. fst (kpp_step pairs m st) = fst st @ [snd p]"
proof -
  obtain cs rng where st: "st = (cs, rng)" by (cases st)
  obtain pick rng' where pk: "kpp_pick (length pairs) (length cs) (kpp_dist_sq pairs m cs) rng = (pick, rng')"
    by fastforce
  have "pick < length pairs"
    using kpp_pick_less [of "length pairs" "kpp_dist_sq pairs m cs" "length cs" rng] assms pk
    by (simp add: kpp_dist_sq_def)
  then show ?thesis by (auto simp: kpp_step_def st pk)
qed

lemma kpp_iterate:
  assumes "pairs \<noteq> []" "set (fst st) \<subseteq> snd ` set pairs"
  shows "length (fst ((kpp_step pairs m ^^ j) st)) = length (fst st) + j \<and>
    set (fst ((kpp_step pairs m ^^ j) st)) \<subseteq> snd ` set pairs"
proof (induction j)
  case (Suc j)
  obtain p where "p \<in> set pairs"
    "fst (kpp_step pairs m ((kpp_step pairs m ^^ j) st)) = fst ((kpp_step pairs m ^^ j) st) @ [snd p]"
    using kpp_step_adds [OF assms(1)] by blast
  then show ?case using Suc by auto
qed (use assms in auto)

lemma kmeans_init:
  assumes "pairs \<noteq> []" "1 \<le> k"
  shows "length (kmeans_plus_plus_init pairs k m) = k \<and> set (kmeans_plus_plus_init pairs k m) \<subseteq> snd ` set pairs"
proof -
  obtain i rng where ir: "rng_index (length pairs) (rng_seed (length pairs) k pairs) = (i, rng)" by fastforce
  then have "i < length pairs" using rng_index_less [of "length pairs"] assms(1) by (metis fst_conv length_greater_0_conv)
  then have "set (fst ([snd (pairs ! i)], rng)) \<subseteq> snd ` set pairs" by simp
  from kpp_iterate [OF assms(1) this, where m = m and j = "k - 1"] assms(2) show ?thesis
    by (simp add: kmeans_plus_plus_init_def Let_def ir)
qed

definition sums_ok :: "nat \<Rightarrow> nat \<Rightarrow> f64 list list \<times> nat list \<Rightarrow> bool" where
  "sums_ok k dim acc \<longleftrightarrow>
     length (fst acc) = k \<and> length (snd acc) = k \<and> (\<forall>s \<in> set (fst acc). length s = dim)"

lemma add_to_sum_ok:
  assumes "sums_ok k dim acc" "length centroids = k" "0 < k" "length (snd p) = dim"
  shows "\<exists>acc'. add_to_sum dim centroids m p acc = Inr acc' \<and> sums_ok k dim acc'"
proof -
  obtain sums counts where acc: "acc = (sums, counts)" by (cases acc)
  define best where "best = nearest_centroid_id (snd p) centroids m"
  have b: "best < length sums"
    using nearest_centroid_id_less [of centroids "snd p" m] assms by (auto simp: best_def sums_ok_def acc)
  have "sums ! best \<in> set sums" using b by simp
  then have "length (sums ! best) = dim" using assms(1) by (auto simp: sums_ok_def acc)
  then show ?thesis
    using assms b unfolding add_to_sum_def acc best_def [symmetric]
    by (auto simp: Let_def best_def [symmetric] sums_ok_def dest!: set_update_subset_insert [THEN subsetD])
qed

lemma fold_ok_total:
  assumes "\<And>x s. x \<in> set xs \<Longrightarrow> P s \<Longrightarrow> \<exists>s'. f x s = Inr s' \<and> P s'" "P s"
  shows "\<exists>s'. fold_ok f xs s = Inr s' \<and> P s'"
  using assms
proof (induction xs arbitrary: s)
  case (Cons x xs)
  then obtain s1 where s1: "f x s = Inr s1" "P s1" by (metis list.set_intros(1))
  have "\<exists>s'. fold_ok f xs s1 = Inr s' \<and> P s'" using Cons.prems(1) s1(2) by (intro Cons.IH) auto
  then show ?case using s1(1) by simp
qed simp

lemma repeat_ok_total:
  assumes "\<And>s. P s \<Longrightarrow> \<exists>s'. f s = Inr s' \<and> P s'" "P s"
  shows "\<exists>s'. repeat_ok n f s = Inr s' \<and> P s'"
  using assms(2)
proof (induction n arbitrary: s)
  case (Suc n)
  then obtain s1 where "f s = Inr s1" "P s1" using assms(1) by blast
  then show ?case using Suc.IH [of s1] by simp
qed simp

definition centroids_ok :: "nat \<Rightarrow> nat \<Rightarrow> f64 list list \<Rightarrow> bool" where
  "centroids_ok k dim cs \<longleftrightarrow> length cs = k \<and> (\<forall>c \<in> set cs. length c = dim)"

lemma lloyd_step_ok:
  assumes "\<forall>p \<in> set pairs. length (snd p) = dim" "0 < k" "centroids_ok k dim cs"
  shows "\<exists>cs'. lloyd_step pairs k dim m cs = Inr cs' \<and> centroids_ok k dim cs'"
proof -
  have "\<exists>acc. fold_ok (add_to_sum dim cs m) pairs (replicate k (replicate dim (Fin 0)), replicate k 0) = Inr acc \<and>
      sums_ok k dim acc"
    by (rule fold_ok_total) (use assms add_to_sum_ok in \<open>auto simp: centroids_ok_def sums_ok_def\<close>)
  then obtain sums counts where acc:
    "fold_ok (add_to_sum dim cs m) pairs (replicate k (replicate dim (Fin 0)), replicate k 0) = Inr (sums, counts)"
    "sums_ok k dim (sums, counts)" by auto
  have "length (move_centroid dim x) = dim" if "x \<in> set (zip cs (zip sums counts))" for x
  proof -
    obtain c sm cnt where x: "x = (c, sm, cnt)" by (cases x) auto
    have "c \<in> set cs" "sm \<in> set sums" using that by (auto simp: x dest: set_zip_leftD set_zip_rightD)
    then show ?thesis using assms(3) acc(2) by (auto simp: x move_centroid_def centroids_ok_def sums_ok_def Let_def)
  qed
  then show ?thesis
    using acc assms(3) by (auto simp: lloyd_step_def centroids_ok_def sums_ok_def)
qed

text \<open>On vectors of the given dimension k-means does not fail and returns the asked number of centroids.\<close>

lemma kmeans_ok:
  assumes "\<forall>p \<in> set pairs. length (snd p) = dim" "1 \<le> k"
  shows "\<exists>cs. kmeans_centroids pairs k dim m = Inr cs \<and> centroids_ok (min k (length pairs)) dim cs"
proof (cases "length pairs \<le> k")
  case True
  then show ?thesis using assms by (auto simp: kmeans_centroids_def Let_def centroids_ok_def)
next
  case False
  have "pairs \<noteq> []" using False by auto
  from kmeans_init [OF this assms(2), of m] have "centroids_ok k dim (kmeans_plus_plus_init pairs k m)"
    using assms(1) by (auto simp: centroids_ok_def)
  then have "\<exists>cs. repeat_ok KMEANS_ITERS (lloyd_step pairs k dim m) (kmeans_plus_plus_init pairs k m) = Inr cs \<and>
      centroids_ok k dim cs"
    using assms lloyd_step_ok by (intro repeat_ok_total) auto
  then show ?thesis using False by (auto simp: kmeans_centroids_def Let_def)
qed

lemma top_m_subset: "set (top_m_centroids cs q metr m) \<subseteq> {..<length cs}"
proof (cases "cs = []")
  case False
  let ?xs = "map (\<lambda>(i, c). (i, score_vector q c metr)) (List.enumerate 0 cs)"
  have i: "fst ` set ?xs = {..<length cs}"
    unfolding set_map image_image case_prod_unfold fst_conv using enumerate_fst [of 0 cs] by (simp add: atLeast0LessThan)
  have "set (top_m_centroids cs q metr m) \<subseteq> fst ` set (sort_by score_cmp ?xs)"
    unfolding top_m_centroids_def if_not_P [OF False] set_map by (rule image_mono [OF set_take_subset])
  then show ?thesis unfolding set_sort_by i .
qed (simp add: top_m_centroids_def)

lemma length_top_m: "length (top_m_centroids cs q metr m) = min m (length cs)"
  by (simp add: top_m_centroids_def)

end
