(* ===== verification/Vector_Index.thy ===== *)
theory Vector_Index
  imports Kmeans
begin

text \<open>
  The vector index (\<^verbatim>\<open>src/index/vector.rs\<close>): a table of coarse centroids, fine centroids per coarse
  cell, and one cluster of members per fine centroid.  Identifiers of cells and clusters are
  \<^verbatim>\<open>u32\<close> counts that stay far below their range and are natural numbers here; hash maps are
  finite maps iterated in key order.  The bincode encodings of the segments are third-party
  code.
\<close>

section \<open>Segments\<close>

definition DEFAULT_PROBE_COARSE :: nat where "DEFAULT_PROBE_COARSE = 4"

definition DEFAULT_PROBE_FINE :: nat where "DEFAULT_PROBE_FINE = 2"

definition L2_SPLIT_FINE_THRESHOLD :: nat where "L2_SPLIT_FINE_THRESHOLD = 32"

definition REBUILD_DOC_MULTIPLIER :: nat where "REBUILD_DOC_MULTIPLIER = 4"

definition MAX_CLUSTER_MEMBERS :: nat where "MAX_CLUSTER_MEMBERS = 512"

definition MERGE_CLUSTER_MAX_MEMBERS :: nat where "MERGE_CLUSTER_MAX_MEMBERS = 2"

definition REBUILD_SCHEDULED_MAINTENANCE_PASSES :: nat where "REBUILD_SCHEDULED_MAINTENANCE_PASSES = 256"

record cluster_member =
  cm_doc_id :: string
  cm_vector :: "f64 list"
  cm_vector_f16 :: "bytes option"

definition from_values :: "'z wire_scheme \<Rightarrow> string \<Rightarrow> f64 list \<Rightarrow> vector_element \<Rightarrow> cluster_member" where
  "from_values W i xs element =
     (case element of
        F32 \<Rightarrow> \<lparr>cm_doc_id = i, cm_vector = xs, cm_vector_f16 = None\<rparr>
      | F16 \<Rightarrow> \<lparr>cm_doc_id = i, cm_vector = [], cm_vector_f16 = Some (f64_slice_to_f16_le W xs)\<rparr>)"

definition as_f32_slice :: "'z wire_scheme \<Rightarrow> cluster_member \<Rightarrow> nat \<Rightarrow> f64 list" where
  "as_f32_slice W m dim =
     (case cm_vector_f16 m of
        Some b \<Rightarrow> f16_le_bytes_to_f32_vec W b dim
      | None \<Rightarrow> map f64_to_f32 (take dim (cm_vector m)))"

definition member_as_f64 :: "'z wire_scheme \<Rightarrow> cluster_member \<Rightarrow> nat \<Rightarrow> f64 list" where
  "member_as_f64 W m dim =
     (case cm_vector_f16 m of Some b \<Rightarrow> f16_le_bytes_to_f32_vec W b dim | None \<Rightarrow> cm_vector m)"

definition members_as_pairs :: "'z wire_scheme \<Rightarrow> cluster_member list \<Rightarrow> nat \<Rightarrow> (string \<times> f64 list) list" where
  "members_as_pairs W ms dim = map (\<lambda>m. (cm_doc_id m, member_as_f64 W m dim)) ms"

record ann_probe_config =
  ap_coarse :: nat
  ap_fine :: nat

record ann_build_config =
  ab_probes :: ann_probe_config
  ab_ann_version :: nat

definition default_probes :: ann_probe_config where
  "default_probes = \<lparr>ap_coarse = DEFAULT_PROBE_COARSE, ap_fine = DEFAULT_PROBE_FINE\<rparr>"

record centroid_index_l0 =
  l0_segment_id :: u64
  l0_vector_field :: string
  l0_dimensions :: nat
  l0_num_coarse :: nat
  l0_num_fine_total :: nat
  l0_probe_coarse :: nat
  l0_probe_fine :: nat
  l0_distance_metric :: distance_metric
  l0_vector_element :: vector_element
  l0_fine_counts :: "nat list"
  l0_centroids :: "f64 list list"
  l0_ann_version :: nat
  l0_has_routing :: bool
  l0_maintenance_passes :: nat

definition default_l0 :: centroid_index_l0 where
  "default_l0 =
     \<lparr>l0_segment_id = 0, l0_vector_field = [], l0_dimensions = 0, l0_num_coarse = 0, l0_num_fine_total = 0,
      l0_probe_coarse = DEFAULT_PROBE_COARSE, l0_probe_fine = DEFAULT_PROBE_FINE,
      l0_distance_metric = CosineDistance, l0_vector_element = F32, l0_fine_counts = [], l0_centroids = [],
      l0_ann_version = ANN_VERSION_V2, l0_has_routing = False, l0_maintenance_passes = 0\<rparr>"

record centroid_routing =
  cr_ann_version :: nat
  cr_segment_id :: u64
  cr_vector_field :: string
  cr_dimensions :: nat
  cr_l2_counts :: "nat list"

definition l2_count_for_coarse :: "centroid_routing \<Rightarrow> nat \<Rightarrow> nat" where
  "l2_count_for_coarse r coarse_id =
     (if coarse_id < length (cr_l2_counts r) then cr_l2_counts r ! coarse_id else 0)"

record centroid_index_l2 =
  l2_segment_id :: u64
  l2_coarse_id :: nat
  l2_l2_id :: nat
  l2_global_fine_start :: nat
  l2_num_fine :: nat
  l2_centroids :: "f64 list list"

definition l2_nearest_fine :: "centroid_index_l2 \<Rightarrow> f64 list \<Rightarrow> distance_metric \<Rightarrow> nat \<Rightarrow> nat list" where
  "l2_nearest_fine seg query metr m = top_m_centroids (l2_centroids seg) query metr m"

record centroid_index_l1 =
  l1_segment_id :: u64
  l1_coarse_id :: nat
  l1_global_id_start :: nat
  l1_num_fine :: nat
  l1_centroids :: "f64 list list"

definition l1_nearest_fine :: "centroid_index_l1 \<Rightarrow> f64 list \<Rightarrow> distance_metric \<Rightarrow> nat \<Rightarrow> nat list" where
  "l1_nearest_fine seg query metr m = top_m_centroids (l1_centroids seg) query metr m"

record cluster_segment =
  cs_segment_id :: u64
  cs_centroid_id :: nat
  cs_members :: "cluster_member list"

record vector_index =
  vi_l0 :: centroid_index_l0
  vi_l1 :: "(nat, centroid_index_l1) fmap"
  vi_clusters :: "(nat, cluster_segment) fmap"
  vi_routing :: "centroid_routing option"
  vi_l2 :: "(nat \<times> nat, centroid_index_l2) fmap"

definition default_vindex :: vector_index where
  "default_vindex =
     \<lparr>vi_l0 = default_l0, vi_l1 = fmempty, vi_clusters = fmempty, vi_routing = None, vi_l2 = fmempty\<rparr>"

section \<open>Keys\<close>

definition vector_index_prefix :: "string \<Rightarrow> string \<Rightarrow> string" where
  "vector_index_prefix ns field =
     (if field = [] then ROOT_PREFIX @ ns @ ''/index/'' else ROOT_PREFIX @ ns @ ''/index/'' @ field @ ''/'')"

definition l0_key :: "string \<Rightarrow> string \<Rightarrow> string" where
  "l0_key ns field = vector_index_prefix ns field @ ''centroids-l0.bin''"

definition l0_legacy_key :: "string \<Rightarrow> string" where
  "l0_legacy_key ns = l0_key ns []"

definition routing_key :: "string \<Rightarrow> string \<Rightarrow> string" where
  "routing_key ns field = vector_index_prefix ns field @ ''centroids-routing.bin''"

definition l1_key :: "string \<Rightarrow> string \<Rightarrow> nat \<Rightarrow> string" where
  "l1_key ns field c = vector_index_prefix ns field @ ''centroids-l1-'' @ dec_pad 8 c @ ''.bin''"

definition l1_legacy_key :: "string \<Rightarrow> nat \<Rightarrow> string" where
  "l1_legacy_key ns c = l1_key ns [] c"

definition l2_key :: "string \<Rightarrow> string \<Rightarrow> nat \<Rightarrow> nat \<Rightarrow> string" where
  "l2_key ns field c l2 =
     vector_index_prefix ns field @ ''centroids-l2-'' @ dec_pad 8 c @ ''-'' @ dec_pad 8 l2 @ ''.bin''"

definition cluster_key :: "string \<Rightarrow> string \<Rightarrow> nat \<Rightarrow> string" where
  "cluster_key ns field f = vector_index_prefix ns field @ ''clusters-'' @ dec_pad 8 f @ ''.bin''"

definition cluster_legacy_key :: "string \<Rightarrow> nat \<Rightarrow> string" where
  "cluster_legacy_key ns f = cluster_key ns [] f"

definition all_l1_keys :: "vector_index \<Rightarrow> string \<Rightarrow> string list" where
  "all_l1_keys vi ns = map (l1_key ns (l0_vector_field (vi_l0 vi))) [0..<l0_num_coarse (vi_l0 vi)]"

definition all_cluster_keys :: "vector_index \<Rightarrow> string \<Rightarrow> string list" where
  "all_cluster_keys vi ns = map (cluster_key ns (l0_vector_field (vi_l0 vi))) [0..<l0_num_fine_total (vi_l0 vi)]"

definition all_v3_aux_keys :: "vector_index \<Rightarrow> string \<Rightarrow> string list" where
  "all_v3_aux_keys vi ns =
     (let field = l0_vector_field (vi_l0 vi)
      in remdups (sort ((if l0_has_routing (vi_l0 vi) then [routing_key ns field] else []) @
                        map (\<lambda>(c, l2). l2_key ns field c l2) (fm_keys (vi_l2 vi)))))"

definition index_object_count :: "vector_index \<Rightarrow> nat" where
  "index_object_count vi =
     l0_num_coarse (vi_l0 vi) + l0_num_fine_total (vi_l0 vi) + length (all_v3_aux_keys vi [])"

section \<open>Probe plan\<close>

definition cluster_get_upper_bound_for_probes :: "nat \<Rightarrow> nat \<Rightarrow> nat" where
  "cluster_get_upper_bound_for_probes coarse fine =
     (let c = max coarse 1; f = max fine 1 in c + c * f + 4)"

definition cluster_get_upper_bound :: "centroid_index_l0 \<Rightarrow> nat" where
  "cluster_get_upper_bound l0 = cluster_get_upper_bound_for_probes (l0_probe_coarse l0) (l0_probe_fine l0)"

definition fine_room :: "nat \<Rightarrow> nat \<Rightarrow> nat" where
  "fine_room max_clusters c = (if 0 < c then max ((max_clusters - 4 - c) div c) 1 else 1)"

fun clamp_loop :: "nat \<Rightarrow> nat \<Rightarrow> nat \<Rightarrow> nat \<times> nat" where
  "clamp_loop max_clusters c f =
     (if 1 < c \<and> max_clusters < cluster_get_upper_bound_for_probes c f
      then clamp_loop max_clusters (c - 1) (fine_room max_clusters (c - 1))
      else (max c 1, max f 1))"

declare clamp_loop.simps [simp del]

definition clamp_probe_widths_to_cluster_cap :: "nat \<Rightarrow> nat \<Rightarrow> nat \<Rightarrow> nat \<times> nat" where
  "clamp_probe_widths_to_cluster_cap coarse fine max_clusters =
     (let c0 = max coarse 1; f_orig = max fine 1
      in if cluster_get_upper_bound_for_probes c0 f_orig \<le> max_clusters then (c0, f_orig)
         else
           (let c = min c0 (max ((max_clusters - 4) div 2) 1);
                f = max (min f_orig (fine_room max_clusters c)) 1
            in if cluster_get_upper_bound_for_probes c f \<le> max_clusters then (c, f)
               else clamp_loop max_clusters c 1))"

definition is_v3 :: "centroid_index_l0 \<Rightarrow> bool" where
  "is_v3 l0 \<longleftrightarrow> ANN_VERSION_V3 \<le> l0_ann_version l0"

definition align_with_namespace_meta ::
  "centroid_index_l0 \<Rightarrow> namespace_meta \<Rightarrow> ann_build_config option \<Rightarrow> centroid_index_l0" where
  "align_with_namespace_meta l0 m bld =
     (if preferred_ann_version m < ANN_VERSION_V3 then l0
      else
        (let probes = (case bld of Some b \<Rightarrow> ab_probes b | None \<Rightarrow> default_probes);
             l = l0\<lparr>l0_ann_version := max (l0_ann_version l0) ANN_VERSION_V3\<rparr>;
             l = (if bld \<noteq> None \<or> l0_probe_coarse l = 0 then l\<lparr>l0_probe_coarse := ap_coarse probes\<rparr> else l)
         in if bld \<noteq> None \<or> l0_probe_fine l = 0 then l\<lparr>l0_probe_fine := ap_fine probes\<rparr> else l))"

text \<open>\<^verbatim>\<open>OPENPUFFER_ANN_MAX_PROBE_CLUSTERS\<close> as parsed, if it is set to a number; the default otherwise.\<close>

definition DEFAULT_ANN_MAX_PROBE_CLUSTERS :: nat where "DEFAULT_ANN_MAX_PROBE_CLUSTERS = 64"

definition ann_max_probe_clusters :: "nat option \<Rightarrow> nat" where
  "ann_max_probe_clusters env =
     (case env of Some n \<Rightarrow> if 8 \<le> n then n else DEFAULT_ANN_MAX_PROBE_CLUSTERS
      | None \<Rightarrow> DEFAULT_ANN_MAX_PROBE_CLUSTERS)"

definition clamp_probe_plan_for_query :: "nat option \<Rightarrow> centroid_index_l0 \<Rightarrow> centroid_index_l0" where
  "clamp_probe_plan_for_query env l0 =
     (if l0_num_fine_total l0 \<le> 32 then l0
      else
        (let c0 = max (l0_probe_coarse l0) 1; f0 = max (l0_probe_fine l0) 1;
             (c, f) = clamp_probe_widths_to_cluster_cap c0 f0 (ann_max_probe_clusters env)
         in if c \<noteq> c0 \<or> f \<noteq> f0 then l0\<lparr>l0_probe_coarse := c, l0_probe_fine := f\<rparr> else l0))"

definition global_id_start :: "centroid_index_l0 \<Rightarrow> nat \<Rightarrow> nat" where
  "global_id_start l0 c = sum_list (take c (l0_fine_counts l0))"

definition global_fine_id :: "centroid_index_l0 \<Rightarrow> nat \<Rightarrow> nat \<Rightarrow> nat" where
  "global_fine_id l0 c local = global_id_start l0 c + local"

definition nearest_coarse :: "centroid_index_l0 \<Rightarrow> f64 list \<Rightarrow> nat \<Rightarrow> nat list" where
  "nearest_coarse l0 query m = top_m_centroids (l0_centroids l0) query (l0_distance_metric l0) m"

definition probe_coarse_count :: "centroid_index_l0 \<Rightarrow> nat" where
  "probe_coarse_count l0 =
     (if l0_num_fine_total l0 \<le> 32 then l0_num_coarse l0
      else max (min (l0_probe_coarse l0) (l0_num_coarse l0)) 1)"

definition probe_fine_count_for_num_fine :: "centroid_index_l0 \<Rightarrow> nat \<Rightarrow> nat" where
  "probe_fine_count_for_num_fine l0 num_fine =
     (if l0_num_fine_total l0 \<le> 32 then num_fine else max (min (l0_probe_fine l0) num_fine) 1)"

definition probe_fine_count :: "centroid_index_l0 \<Rightarrow> centroid_index_l1 \<Rightarrow> nat" where
  "probe_fine_count l0 l1 = probe_fine_count_for_num_fine l0 (l1_num_fine l1)"

definition probe_l2_count :: "centroid_index_l0 \<Rightarrow> nat \<Rightarrow> nat" where
  "probe_l2_count l0 parts =
     (if parts \<le> 1 then 0
      else if l0_num_fine_total l0 \<le> 32 then parts
      else max (min (l0_probe_fine l0) parts) 1)"

section \<open>Building\<close>

definition value_to_f64_vec :: "'z wire_scheme \<Rightarrow> json \<Rightarrow> f64 list res" where
  "value_to_f64_vec W v = decode_vector_value W v"

definition extract_vector :: "'z wire_scheme \<Rightarrow> attrs \<Rightarrow> string \<Rightarrow> f64 list res" where
  "extract_vector W at field =
     (case fmlookup at field of
        None \<Rightarrow> Inl (ErrMsg (''missing vector field '' @ field))
      | Some v \<Rightarrow> value_to_f64_vec W v)"

text \<open>The documents with a non-empty vector of the dimension of the first such vector.\<close>

fun collect_pairs ::
  "'z wire_scheme \<Rightarrow> string \<Rightarrow> (string \<times> document) list \<Rightarrow> nat \<Rightarrow> (string \<times> f64 list) list \<times> nat" where
  "collect_pairs W field [] dim = ([], dim)"
| "collect_pairs W field ((i, d) # docs) dim =
     (case extract_vector W (attributes d) field of
        Inl _ \<Rightarrow> collect_pairs W field docs dim
      | Inr v \<Rightarrow>
          if v = [] then collect_pairs W field docs dim
          else if dim \<noteq> 0 \<and> length v \<noteq> dim then collect_pairs W field docs dim
          else (let (ps, dim') = collect_pairs W field docs (if dim = 0 then length v else dim)
                in ((i, v) # ps, dim')))"

text \<open>\<^verbatim>\<open>entry(id).or_insert_with(..).members.extend(ms)\<close>.\<close>

definition cluster_extend ::
  "u64 \<Rightarrow> nat \<Rightarrow> cluster_member list \<Rightarrow> (nat, cluster_segment) fmap \<Rightarrow> (nat, cluster_segment) fmap" where
  "cluster_extend sid fid ms cl =
     (let c = (case fmlookup cl fid of
                 Some c \<Rightarrow> c
               | None \<Rightarrow> \<lparr>cs_segment_id = sid, cs_centroid_id = fid, cs_members = []\<rparr>)
      in fmupd fid (c\<lparr>cs_members := cs_members c @ ms\<rparr>) cl)"

definition fm_get0 :: "(string, nat) fmap \<Rightarrow> string \<Rightarrow> nat" where
  "fm_get0 m i = (case fmlookup m i of None \<Rightarrow> 0 | Some n \<Rightarrow> n)"

definition group_by_coarse ::
  "(string, nat) fmap \<Rightarrow> (string \<times> f64 list) list \<Rightarrow> nat \<Rightarrow> (string \<times> f64 list) list" where
  "group_by_coarse assign pairs c = filter (\<lambda>(i, v). fm_get0 assign i = c) pairs"

record build_state =
  bd_l1 :: "(nat, centroid_index_l1) fmap"
  bd_clusters :: "(nat, cluster_segment) fmap"
  bd_l2 :: "(nat \<times> nat, centroid_index_l2) fmap"
  bd_l2_counts :: "nat list"
  bd_fine_counts :: "nat list"
  bd_global_start :: nat

text \<open>One L2 partition; slicing out of range panics.\<close>

definition build_l2_part ::
  "u64 \<Rightarrow> nat \<Rightarrow> nat \<Rightarrow> nat \<Rightarrow> nat \<Rightarrow> f64 list list \<Rightarrow> nat \<Rightarrow> (nat \<times> nat, centroid_index_l2) fmap \<Rightarrow>
   vfail + (nat \<times> nat, centroid_index_l2) fmap" where
  "build_l2_part sid c gstart chunk k_fine fine_vecs l2_id l2s =
     (let start = l2_id * chunk; stop = min ((l2_id + 1) * chunk) k_fine
      in if stop < start \<or> length fine_vecs < stop then Inl VPanic
         else (let slice = take (stop - start) (drop start fine_vecs)
               in Inr (if slice = [] then l2s
                       else fmupd (c, l2_id)
                              \<lparr>l2_segment_id = sid, l2_coarse_id = c, l2_l2_id = l2_id,
                               l2_global_fine_start = gstart + start, l2_num_fine = length slice,
                               l2_centroids = slice\<rparr> l2s)))"

definition build_l2 ::
  "u64 \<Rightarrow> nat \<Rightarrow> nat \<Rightarrow> nat \<Rightarrow> nat \<Rightarrow> f64 list list \<Rightarrow> build_state \<Rightarrow> vfail + build_state" where
  "build_l2 sid version c gstart k_fine fine_vecs st =
     (if ANN_VERSION_V3 \<le> version \<and> L2_SPLIT_FINE_THRESHOLD < k_fine
      then
        (let parts = ceil_div k_fine L2_SPLIT_FINE_THRESHOLD; chunk = max (ceil_div k_fine parts) 1
         in and_then (fold_ok (build_l2_part sid c gstart chunk k_fine fine_vecs) [0..<parts] (bd_l2 st))
              (\<lambda>l2s. Inr (st\<lparr>bd_l2 := l2s, bd_l2_counts := (bd_l2_counts st)[c := parts]\<rparr>)))
      else Inr st)"

definition place_docs ::
  "'z wire_scheme \<Rightarrow> u64 \<Rightarrow> vector_element \<Rightarrow> nat \<Rightarrow> (string, nat) fmap \<Rightarrow> (string \<times> f64 list) list \<Rightarrow>
   (nat, cluster_segment) fmap \<Rightarrow> (nat, cluster_segment) fmap" where
  "place_docs W sid element gstart assign cell cl =
     fold (\<lambda>(i, v). cluster_extend sid (gstart + fm_get0 assign i) [from_values W i v element]) cell cl"

definition build_cell ::
  "'z wire_scheme \<Rightarrow> u64 \<Rightarrow> distance_metric \<Rightarrow> nat \<Rightarrow> nat \<Rightarrow> vector_element \<Rightarrow>
   (nat \<Rightarrow> (string \<times> f64 list) list) \<Rightarrow> nat \<Rightarrow> build_state \<Rightarrow> vfail + build_state" where
  "build_cell W sid metr version dim element by_coarse c st =
     (let cell = by_coarse c;
          k_fine = num_fine_for_version (length cell) version;
          gstart = bd_global_start st
      in and_then (if cell = [] then Inr [] else kmeans_centroids cell k_fine dim metr)
           (\<lambda>fine_vecs.
              and_then
                (build_l2 sid version c gstart k_fine fine_vecs
                   (st\<lparr>bd_fine_counts := (bd_fine_counts st)[c := k_fine],
                       bd_l1 := fmupd c \<lparr>l1_segment_id = sid, l1_coarse_id = c, l1_global_id_start = gstart,
                                         l1_num_fine = length fine_vecs, l1_centroids = fine_vecs\<rparr> (bd_l1 st)\<rparr>))
                (\<lambda>st'. Inr (st'\<lparr>bd_clusters := place_docs W sid element gstart
                                   (assign_to_centroids cell fine_vecs metr) cell (bd_clusters st'),
                                bd_global_start := gstart + k_fine\<rparr>))))"

definition vindex_build ::
  "'z wire_scheme \<Rightarrow> u64 \<Rightarrow> string \<Rightarrow> distance_metric \<Rightarrow> (string \<times> document) list \<Rightarrow> json \<Rightarrow> ann_build_config \<Rightarrow>
   vfail + vector_index option" where
  "vindex_build W sid field metr docs sch bld =
     (let version = ab_ann_version bld; probes = ab_probes bld;
          element = vector_element_for_field sch field;
          (pairs, dim) = collect_pairs W field docs 0
      in if pairs = [] then Inr None
         else
           (let k = num_coarse_for_version (length pairs) version in
            and_then (kmeans_centroids pairs k dim metr)
              (\<lambda>coarse_vecs.
                 (let assign = assign_to_centroids pairs coarse_vecs metr in
                  and_then
                    (fold_ok (build_cell W sid metr version dim element (group_by_coarse assign pairs)) [0..<k]
                       \<lparr>bd_l1 = fmempty, bd_clusters = fmempty, bd_l2 = fmempty, bd_l2_counts = replicate k 0,
                        bd_fine_counts = replicate k 0, bd_global_start = 0\<rparr>)
                    (\<lambda>st.
                       (let v3 = ANN_VERSION_V3 \<le> version;
                            has_routing = (v3 \<and> list_ex (\<lambda>n. 1 < n) (bd_l2_counts st))
                        in Inr (Some
                             \<lparr>vi_l0 =
                                \<lparr>l0_segment_id = sid, l0_vector_field = field, l0_dimensions = dim,
                                 l0_num_coarse = k, l0_num_fine_total = bd_global_start st,
                                 l0_probe_coarse = max (min (ap_coarse probes) k) 1,
                                 l0_probe_fine = max (ap_fine probes) 1, l0_distance_metric = metr,
                                 l0_vector_element = element, l0_fine_counts = bd_fine_counts st,
                                 l0_centroids = coarse_vecs,
                                 l0_ann_version = (if v3 then ANN_VERSION_V3 else ANN_VERSION_V2),
                                 l0_has_routing = has_routing, l0_maintenance_passes = 0\<rparr>,
                              vi_l1 = bd_l1 st, vi_clusters = bd_clusters st,
                              vi_routing =
                                (if has_routing
                                 then Some \<lparr>cr_ann_version = ANN_VERSION_V3, cr_segment_id = sid,
                                            cr_vector_field = field, cr_dimensions = dim,
                                            cr_l2_counts = bd_l2_counts st\<rparr>
                                 else None),
                              vi_l2 = bd_l2 st\<rparr>)))))))"

end
