(* ===== verification/Vector_Maintain.thy ===== *)
theory Vector_Maintain
  imports Vector_Index
begin

text \<open>
  Incremental maintenance of the vector index (\<^verbatim>\<open>apply_delta\<close> and the split, merge and reassign passes
  of \<^verbatim>\<open>src/index/vector.rs\<close>).  A method that changes the index returns it with its result; on a
  failure the callers drop the index.
\<close>

section \<open>Helpers\<close>

definition members_at :: "vector_index \<Rightarrow> nat \<Rightarrow> cluster_member list" where
  "members_at vi f = (case fmlookup (vi_clusters vi) f of None \<Rightarrow> [] | Some c \<Rightarrow> cs_members c)"

definition new_cluster :: "vector_index \<Rightarrow> nat \<Rightarrow> cluster_member list \<Rightarrow> cluster_segment" where
  "new_cluster vi f ms = \<lparr>cs_segment_id = l0_segment_id (vi_l0 vi), cs_centroid_id = f, cs_members = ms\<rparr>"

definition insert_cluster :: "nat \<Rightarrow> cluster_member list \<Rightarrow> vector_index \<Rightarrow> vector_index" where
  "insert_cluster f ms vi = vi\<lparr>vi_clusters := fmupd f (new_cluster vi f ms) (vi_clusters vi)\<rparr>"

definition extend_cluster :: "nat \<Rightarrow> cluster_member list \<Rightarrow> vector_index \<Rightarrow> vector_index" where
  "extend_cluster f ms vi =
     vi\<lparr>vi_clusters := cluster_extend (l0_segment_id (vi_l0 vi)) f ms (vi_clusters vi)\<rparr>"

definition remove_cluster :: "nat \<Rightarrow> vector_index \<Rightarrow> vector_index" where
  "remove_cluster f vi = vi\<lparr>vi_clusters := fmdrop f (vi_clusters vi)\<rparr>"

definition fine_count :: "centroid_index_l0 \<Rightarrow> nat \<Rightarrow> nat" where
  "fine_count l0 c = (if c < length (l0_fine_counts l0) then l0_fine_counts l0 ! c else 0)"

section \<open>Statistics\<close>

definition doc_count :: "vector_index \<Rightarrow> nat" where
  "doc_count vi = sum_list (map (\<lambda>c. length (cs_members c)) (fm_values (vi_clusters vi)))"

definition max_cluster_members :: "vector_index \<Rightarrow> nat" where
  "max_cluster_members vi = fold max (map (\<lambda>c. length (cs_members c)) (fm_values (vi_clusters vi))) 0"

definition max_fine_per_coarse :: "vector_index \<Rightarrow> nat" where
  "max_fine_per_coarse vi = (if is_v3 (vi_l0 vi) then MAX_FINE_PER_COARSE_V3 else MAX_FINE_PER_COARSE)"

definition needs_full_rebuild :: "vector_index \<Rightarrow> bool" where
  "needs_full_rebuild vi \<longleftrightarrow>
     (let n = doc_count vi; k = l0_num_fine_total (vi_l0 vi) in
      if k = 0 \<or> n = 0 then True
      else if REBUILD_SCHEDULED_MAINTENANCE_PASSES \<le> l0_maintenance_passes (vi_l0 vi) then True
      else list_all (\<lambda>c. max_fine_per_coarse vi \<le> c) (l0_fine_counts (vi_l0 vi)) \<and>
           k * REBUILD_DOC_MULTIPLIER < n)"

text \<open>The coarse cell and the position in it of a global fine id.\<close>

fun locate :: "nat \<Rightarrow> nat \<Rightarrow> nat \<Rightarrow> nat list \<Rightarrow> (nat \<times> nat) option" where
  "locate f off c [] = None"
| "locate f off c (n # ns) = (if f < off + n then Some (c, f - off) else locate f (off + n) (c + 1) ns)"

definition coarse_local_from_global :: "vector_index \<Rightarrow> nat \<Rightarrow> (nat \<times> nat) option" where
  "coarse_local_from_global vi f = locate f 0 0 (l0_fine_counts (vi_l0 vi))"

section \<open>Removal and assignment\<close>

definition remove_doc :: "string \<Rightarrow> vector_index \<Rightarrow> vector_index" where
  "remove_doc i vi =
     vi\<lparr>vi_clusters := fmmap (\<lambda>c. c\<lparr>cs_members := filter (\<lambda>m. cm_doc_id m \<noteq> i) (cs_members c)\<rparr>) (vi_clusters vi)\<rparr>"

definition first_or :: "nat \<Rightarrow> nat list \<Rightarrow> nat" where
  "first_or d xs = (case xs of [] \<Rightarrow> d | x # _ \<Rightarrow> x)"

definition assign_doc_to_nearest ::
  "'z wire_scheme \<Rightarrow> string \<Rightarrow> f64 list \<Rightarrow> vector_index \<Rightarrow> vfail + vector_index" where
  "assign_doc_to_nearest W i v vi =
     (let l0 = vi_l0 vi; coarse = first_or 0 (nearest_coarse l0 v 1)
      in case fmlookup (vi_l1 vi) coarse of
           None \<Rightarrow> Inl (VErr (ErrMsg ''missing L1 segment for coarse''))
         | Some l1 \<Rightarrow>
             (let local = first_or 0 (l1_nearest_fine l1 v (l0_distance_metric l0) 1)
              in Inr (extend_cluster (global_fine_id l0 coarse local)
                        [from_values W i v (l0_vector_element l0)] vi)))"

section \<open>Splitting\<close>

definition prune_empty_clusters :: "vector_index \<Rightarrow> vector_index" where
  "prune_empty_clusters vi =
     vi\<lparr>vi_clusters := fmfilter (\<lambda>f. members_at vi f \<noteq> []) (vi_clusters vi)\<rparr>"

definition can_add_fine_centroid :: "vector_index \<Rightarrow> nat \<Rightarrow> bool" where
  "can_add_fine_centroid vi c \<longleftrightarrow> fine_count (vi_l0 vi) c < max_fine_per_coarse vi"

definition max_cluster_members_in_coarse :: "vector_index \<Rightarrow> nat \<Rightarrow> nat" where
  "max_cluster_members_in_coarse vi c =
     (let start = global_id_start (vi_l0 vi) c; stop = start + fine_count (vi_l0 vi) c
      in fold max (map (\<lambda>(f, s). length (cs_members s))
                     (filter (\<lambda>(f, s). start \<le> f \<and> f < stop) (fm_entries (vi_clusters vi)))) 0)"

definition can_add_fine_centroid_for_split :: "vector_index \<Rightarrow> nat \<Rightarrow> bool" where
  "can_add_fine_centroid_for_split vi c \<longleftrightarrow>
     (if max_cluster_members_in_coarse vi c \<le> MAX_CLUSTER_MEMBERS then can_add_fine_centroid vi c
      else fine_count (vi_l0 vi) c < MAX_FINE_PER_COARSE)"

text \<open>The clusters at and above \<open>pivot\<close> move up by one.\<close>

definition shift_clusters :: "nat \<Rightarrow> (nat, cluster_segment) fmap \<Rightarrow> (nat, cluster_segment) fmap" where
  "shift_clusters pivot cl =
     (let old_ids = rev (filter (\<lambda>f. pivot \<le> f) (fm_keys cl));
          moved = map (\<lambda>f. (f + 1, (the (fmlookup cl f))\<lparr>cs_centroid_id := f + 1\<rparr>)) old_ids
      in fold (\<lambda>(f, c). fmupd f c) moved (fmdrop_list old_ids cl))"

definition append_fine_centroid ::
  "nat \<Rightarrow> f64 list \<Rightarrow> vector_index \<Rightarrow> vfail + (vector_index \<times> nat)" where
  "append_fine_centroid c centroid vi =
     (case fmlookup (vi_l1 vi) c of
        None \<Rightarrow> Inl (VErr (ErrMsg ''missing L1 for coarse''))
      | Some l1 \<Rightarrow>
          (let new_local = l1_num_fine l1;
               cs = l1_centroids l1 @ [centroid];
               l0 = vi_l0 vi;
               pivot = global_id_start l0 c + new_local;
               counts = (if c < length (l0_fine_counts l0)
                         then (l0_fine_counts l0)[c := l0_fine_counts l0 ! c + 1] else l0_fine_counts l0);
               l1s = fmupd c (l1\<lparr>l1_centroids := cs, l1_num_fine := length cs\<rparr>) (vi_l1 vi);
               l1s' = fold (\<lambda>d m. case fmlookup m d of
                                    None \<Rightarrow> m
                                  | Some s \<Rightarrow> fmupd d (s\<lparr>l1_global_id_start := l1_global_id_start s + 1\<rparr>) m)
                        [c + 1..<l0_num_coarse l0] l1s
           in Inr (vi\<lparr>vi_l1 := l1s', vi_clusters := shift_clusters pivot (vi_clusters vi),
                      vi_l0 := l0\<lparr>l0_fine_counts := counts, l0_num_fine_total := l0_num_fine_total l0 + 1\<rparr>\<rparr>,
                   new_local)))"

definition bucket_of :: "(string, nat) fmap \<Rightarrow> nat \<Rightarrow> cluster_member \<Rightarrow> nat" where
  "bucket_of assign hi m = min (fm_get0 assign (cm_doc_id m)) hi"

definition set_centroid :: "nat \<Rightarrow> nat \<Rightarrow> f64 list \<Rightarrow> vector_index \<Rightarrow> vector_index" where
  "set_centroid c local v vi =
     (case fmlookup (vi_l1 vi) c of
        None \<Rightarrow> vi
      | Some l1 \<Rightarrow>
          if local < length (l1_centroids l1)
          then vi\<lparr>vi_l1 := fmupd c (l1\<lparr>l1_centroids := (l1_centroids l1)[local := v]\<rparr>) (vi_l1 vi)\<rparr>
          else vi)"

definition set_members :: "nat \<Rightarrow> cluster_member list \<Rightarrow> vector_index \<Rightarrow> vector_index" where
  "set_members f ms vi =
     (case fmlookup (vi_clusters vi) f of
        None \<Rightarrow> vi
      | Some c \<Rightarrow> vi\<lparr>vi_clusters := fmupd f (c\<lparr>cs_members := ms, cs_centroid_id := f\<rparr>) (vi_clusters vi)\<rparr>)"

text \<open>
  One pass of the loop of \<^verbatim>\<open>try_binary_split_oversized_cluster\<close>: None is \<^verbatim>\<open>break\<close>, otherwise the index with
  the cluster and position to go on with.
\<close>

definition binary_split_pass ::
  "'z wire_scheme \<Rightarrow> nat \<Rightarrow> nat \<Rightarrow> nat \<Rightarrow> vector_index \<Rightarrow> vfail + (vector_index \<times> nat \<times> nat) option" where
  "binary_split_pass W c f local vi =
     (let dim = l0_dimensions (vi_l0 vi); metr = l0_distance_metric (vi_l0 vi); ms = members_at vi f in
      if \<not> can_add_fine_centroid_for_split vi c then Inr None
      else if length ms \<le> MAX_CLUSTER_MEMBERS then Inr None
      else
        (let pairs = members_as_pairs W ms dim in
         and_then (kmeans_centroids pairs 2 dim metr)
           (\<lambda>sub.
              if length sub < 2 then Inr None
              else
                (let assign = assign_to_centroids pairs sub metr;
                     b0 = filter (\<lambda>m. bucket_of assign 1 m = 0) ms;
                     b1 = filter (\<lambda>m. bucket_of assign 1 m = 1) ms
                 in if b0 = [] \<or> b1 = [] then Inr None
                    else
                      and_then (append_fine_centroid c (sub ! 1) vi)
                        (\<lambda>(vi1, new_local).
                           (let new_global = global_fine_id (vi_l0 vi1) c new_local;
                                vi2 = insert_cluster new_global b1 (set_members f b0 (set_centroid c local (sub ! 0) vi1))
                            in Inr (Some
                                 (if length (members_at vi2 new_global) \<le> length (members_at vi2 f)
                                  then (vi2, f, (case coarse_local_from_global vi2 f of
                                                   Some (_, l) \<Rightarrow> l | None \<Rightarrow> local))
                                  else (vi2, new_global, new_local))))))))) "

definition MAX_SPLITS_PER_CLUSTER :: nat where "MAX_SPLITS_PER_CLUSTER = 64"

fun binary_split_loop ::
  "'z wire_scheme \<Rightarrow> nat \<Rightarrow> nat \<Rightarrow> nat \<Rightarrow> nat \<Rightarrow> bool \<Rightarrow> vector_index \<Rightarrow> vfail + (vector_index \<times> bool)" where
  "binary_split_loop W 0 c f local progress vi = Inr (vi, progress)"
| "binary_split_loop W (Suc n) c f local progress vi =
     (case binary_split_pass W c f local vi of
        Inl e \<Rightarrow> Inl e
      | Inr None \<Rightarrow> Inr (vi, progress)
      | Inr (Some (vi', f', local')) \<Rightarrow> binary_split_loop W n c f' local' True vi')"

definition try_binary_split_oversized_cluster ::
  "'z wire_scheme \<Rightarrow> nat \<Rightarrow> vector_index \<Rightarrow> vfail + (vector_index \<times> bool)" where
  "try_binary_split_oversized_cluster W f vi =
     (case coarse_local_from_global vi f of
        None \<Rightarrow> Inr (vi, False)
      | Some (c, local) \<Rightarrow> binary_split_loop W MAX_SPLITS_PER_CLUSTER c f local False vi)"

definition place_bucket ::
  "nat \<Rightarrow> nat \<Rightarrow> nat \<times> cluster_member list \<Rightarrow> vector_index \<times> bool \<Rightarrow> vector_index \<times> bool" where
  "place_bucket c num_fine b st =
     (case b of
        (sub_idx, ms) \<Rightarrow>
          if ms = [] then st
          else (extend_cluster (global_fine_id (vi_l0 (fst st)) c (sub_idx mod num_fine)) ms (fst st), True))"

definition try_multishard_oversized_cluster ::
  "'z wire_scheme \<Rightarrow> nat \<Rightarrow> vector_index \<Rightarrow> vfail + (vector_index \<times> bool)" where
  "try_multishard_oversized_cluster W f vi =
     (let dim = l0_dimensions (vi_l0 vi); metr = l0_distance_metric (vi_l0 vi) in
      case coarse_local_from_global vi f of
        None \<Rightarrow> Inr (vi, False)
      | Some (c, _) \<Rightarrow>
          (let ms = members_at vi f; vi0 = remove_cluster f vi in
           if length ms \<le> MAX_CLUSTER_MEMBERS
           then Inr (if ms \<noteq> [] then insert_cluster f ms vi0 else vi0, False)
           else
             (case fmlookup (vi_l1 vi) c of
                None \<Rightarrow> Inr (insert_cluster f ms vi0, False)
              | Some l1 \<Rightarrow>
                  (let num_fine = max (l1_num_fine l1) 1;
                       k = min (min (max (min num_fine (ceil_div (length ms) MAX_CLUSTER_MEMBERS)) 2) num_fine)
                             (length ms);
                       pairs = members_as_pairs W ms dim
                   in and_then (kmeans_centroids pairs k dim metr)
                        (\<lambda>sub.
                           if sub = [] then Inr (insert_cluster f ms vi0, False)
                           else
                             (let assign = assign_to_centroids pairs sub metr;
                                  buckets = map (\<lambda>j. (j, filter (\<lambda>m. bucket_of assign (k - 1) m = j) ms)) [0..<k]
                              in Inr (fold (place_bucket c num_fine) buckets (vi0, False))))))))"

text \<open>
  Moving the excess of a cluster.  The branch for a source that is not overfull after all
  cannot be reached: the members were counted just before.
\<close>

text \<open>The least loaded sibling, the first one among equals.\<close>

definition least_loaded :: "vector_index \<Rightarrow> nat \<Rightarrow> nat \<Rightarrow> nat \<Rightarrow> nat option" where
  "least_loaded vi c source num_fine =
     map_option fst
       (fold (\<lambda>local best.
                (let g = global_fine_id (vi_l0 vi) c local; load = length (members_at vi g)
                 in if g = source then best
                    else (case best of
                            None \<Rightarrow> Some (local, load)
                          | Some (_, bl) \<Rightarrow> if load < bl then Some (local, load) else best)))
          [0..<num_fine] None)"

definition relocate_cmp :: "f64 \<times> cluster_member \<Rightarrow> f64 \<times> cluster_member \<Rightarrow> ordering" where
  "relocate_cmp a b = (case f64_partial_cmp (fst b) (fst a) of Some r \<Rightarrow> r | None \<Rightarrow> Equal)"

definition relocate_excess_within_coarse ::
  "'z wire_scheme \<Rightarrow> nat \<Rightarrow> vector_index \<Rightarrow> vfail + (vector_index \<times> bool)" where
  "relocate_excess_within_coarse W source vi =
     (let dim = l0_dimensions (vi_l0 vi); metr = l0_distance_metric (vi_l0 vi) in
      case coarse_local_from_global vi source of
        None \<Rightarrow> Inr (vi, False)
      | Some (c, _) \<Rightarrow>
          (let ms = members_at vi source; excess = length ms - MAX_CLUSTER_MEMBERS in
           if excess = 0 then Inr (vi, False)
           else
             (case fmlookup (vi_l1 vi) c of
                None \<Rightarrow> Inr (vi, False)
              | Some l1 \<Rightarrow>
                  (case least_loaded vi c source (l1_num_fine l1) of
                     None \<Rightarrow> Inr (vi, False)
                   | Some target \<Rightarrow>
                       (let target_global = global_fine_id (vi_l0 vi) c target;
                            centroid = (if target < length (l1_centroids l1) then l1_centroids l1 ! target else []);
                            scored = sort_by relocate_cmp
                              (map (\<lambda>m. (score_vector (member_as_f64 W m dim) centroid metr, m)) ms);
                            split_at = min excess (length scored - 1);
                            moved = map snd (take split_at scored);
                            keep = map snd (drop split_at scored);
                            c0 = the (fmlookup (vi_clusters vi) source);
                            vi1 = vi\<lparr>vi_clusters := fmupd source (c0\<lparr>cs_members := keep\<rparr>) (vi_clusters vi)\<rparr>
                        in Inr (extend_cluster target_global moved vi1, True))))))"

section \<open>Rounds of splitting\<close>

definition oversized :: "vector_index \<Rightarrow> nat list" where
  "oversized vi =
     map fst (filter (\<lambda>(f, c). MAX_CLUSTER_MEMBERS < length (cs_members c)) (fm_entries (vi_clusters vi)))"

text \<open>\<open>try_all op\<close> runs the operation on every listed cluster and reports whether one made progress.\<close>

definition try_all ::
  "(nat \<Rightarrow> vector_index \<Rightarrow> vfail + (vector_index \<times> bool)) \<Rightarrow> nat list \<Rightarrow> vector_index \<Rightarrow>
   vfail + (vector_index \<times> bool)" where
  "try_all tr fs vi =
     fold_ok (\<lambda>f (v, progress). map_ok (\<lambda>(v', p). (v', progress \<or> p)) (tr f v)) fs (vi, False)"

definition split_round ::
  "'z wire_scheme \<Rightarrow> nat list \<Rightarrow> vector_index \<Rightarrow> vfail + (vector_index \<times> bool)" where
  "split_round W fs vi =
     and_then (try_all (try_binary_split_oversized_cluster W) fs vi)
       (\<lambda>(vi1, p1).
          if p1 then Inr (vi1, True)
          else
            and_then (try_all (try_multishard_oversized_cluster W) fs vi1)
              (\<lambda>(vi2, p2).
                 if p2 then Inr (vi2, True) else try_all (relocate_excess_within_coarse W) fs vi2))"

fun split_rounds :: "'z wire_scheme \<Rightarrow> nat \<Rightarrow> vector_index \<Rightarrow> vfail + vector_index" where
  "split_rounds W 0 vi = Inr vi"
| "split_rounds W (Suc n) vi =
     (if oversized vi = [] then Inr vi
      else and_then (split_round W (oversized vi) vi)
             (\<lambda>(vi', progress). if progress then split_rounds W n vi' else Inr vi'))"

definition split_oversized_clusters :: "'z wire_scheme \<Rightarrow> vector_index \<Rightarrow> vfail + vector_index" where
  "split_oversized_clusters W vi = split_rounds W 128 vi"

section \<open>Merging and reassignment\<close>

definition merge_tiny :: "'z wire_scheme \<Rightarrow> nat \<Rightarrow> vector_index \<Rightarrow> vector_index" where
  "merge_tiny W f vi =
     (case coarse_local_from_global vi f of
        None \<Rightarrow> vi
      | Some (c, _) \<Rightarrow>
          (let ms = members_at vi f; vi0 = remove_cluster f vi in
           if ms = [] then vi0
           else
             (case fmlookup (vi_l1 vi) c of
                None \<Rightarrow> vi0
              | Some l1 \<Rightarrow>
                  (let sample = member_as_f64 W (hd ms) (l0_dimensions (vi_l0 vi));
                       target = global_fine_id (vi_l0 vi) c
                         (first_or 0 (l1_nearest_fine l1 sample (l0_distance_metric (vi_l0 vi)) 1))
                   in if target = f then insert_cluster f ms vi0
                      else if MAX_CLUSTER_MEMBERS < length (members_at vi0 target) + length ms
                      then insert_cluster f ms vi0
                      else extend_cluster target ms vi0))))"

definition merge_tiny_clusters :: "'z wire_scheme \<Rightarrow> vector_index \<Rightarrow> vector_index" where
  "merge_tiny_clusters W vi =
     fold (merge_tiny W)
       (map fst (filter (\<lambda>(f, c). 0 < length (cs_members c) \<and> length (cs_members c) \<le> MERGE_CLUSTER_MAX_MEMBERS)
                   (fm_entries (vi_clusters vi)))) vi"

definition drifted_in :: "'z wire_scheme \<Rightarrow> vector_index \<Rightarrow> nat \<times> cluster_segment \<Rightarrow> (string \<times> nat) list" where
  "drifted_in W vi x =
     (case x of
        (f, cl) \<Rightarrow>
          (case coarse_local_from_global vi f of
             None \<Rightarrow> []
           | Some (c, cur) \<Rightarrow>
               (case fmlookup (vi_l1 vi) c of
                  None \<Rightarrow> []
                | Some l1 \<Rightarrow>
                    concat (map (\<lambda>m.
                      (let best = first_or cur (l1_nearest_fine l1 (member_as_f64 W m (l0_dimensions (vi_l0 vi)))
                                                  (l0_distance_metric (vi_l0 vi)) 1);
                           dest = global_fine_id (vi_l0 vi) c best
                       in if best \<noteq> cur \<and> length (members_at vi dest) < MAX_CLUSTER_MEMBERS
                          then [(cm_doc_id m, dest)] else [])) (cs_members cl)))))"

definition find_member :: "string \<Rightarrow> cluster_member list \<Rightarrow> nat option" where
  "find_member i ms = map_option fst (List.find (\<lambda>(j, m). cm_doc_id m = i) (List.enumerate 0 ms))"

text \<open>\<open>remove_at\<close> is \<^verbatim>\<open>Vec::remove\<close>.\<close>

definition remove_at :: "nat \<Rightarrow> 'a list \<Rightarrow> 'a list" where
  "remove_at j xs = take j xs @ drop (Suc j) xs"

definition move_member :: "string \<times> nat \<Rightarrow> vector_index \<Rightarrow> vector_index" where
  "move_member mv vi =
     (case mv of
        (i, dest) \<Rightarrow>
          (case List.find (\<lambda>(f, c). find_member i (cs_members c) \<noteq> None) (fm_entries (vi_clusters vi)) of
             None \<Rightarrow> vi
           | Some (f, c) \<Rightarrow>
               (let j = the (find_member i (cs_members c)); m = cs_members c ! j
                in extend_cluster dest [m]
                     (vi\<lparr>vi_clusters := fmupd f (c\<lparr>cs_members := remove_at j (cs_members c)\<rparr>) (vi_clusters vi)\<rparr>))))"

definition reassign_drifted_members :: "'z wire_scheme \<Rightarrow> vector_index \<Rightarrow> vector_index" where
  "reassign_drifted_members W vi =
     fold move_member (concat (map (drifted_in W vi) (fm_entries (vi_clusters vi)))) vi"

definition refresh_one ::
  "'z wire_scheme \<Rightarrow> vector_index \<Rightarrow> nat \<Rightarrow> nat \<Rightarrow> centroid_index_l1 \<Rightarrow> vfail + centroid_index_l1" where
  "refresh_one W vi c local l1 =
     (let ms = members_at vi (global_fine_id (vi_l0 vi) c local); dim = l0_dimensions (vi_l0 vi) in
      if ms = [] then Inr l1
      else and_then (kmeans_centroids (members_as_pairs W ms dim) 1 dim (l0_distance_metric (vi_l0 vi)))
             (\<lambda>cs. Inr (if cs \<noteq> [] \<and> local < length (l1_centroids l1)
                        then l1\<lparr>l1_centroids := (l1_centroids l1)[local := hd cs]\<rparr> else l1)))"

definition refresh_fine_centroids :: "'z wire_scheme \<Rightarrow> vector_index \<Rightarrow> vfail + vector_index" where
  "refresh_fine_centroids W vi =
     map_ok (\<lambda>l1s. vi\<lparr>vi_l1 := l1s\<rparr>)
       (fold_ok (\<lambda>(c, l1) m. map_ok (\<lambda>l1'. fmupd c l1' m) (fold_ok (refresh_one W vi c) [0..<l1_num_fine l1] l1))
          (fm_entries (vi_l1 vi)) (vi_l1 vi))"

definition run_incremental_maintenance :: "'z wire_scheme \<Rightarrow> vector_index \<Rightarrow> vfail + vector_index" where
  "run_incremental_maintenance W vi =
     (if l0_num_fine_total (vi_l0 vi) = 0 \<or> l0_centroids (vi_l0 vi) = [] then Inr vi
      else
        (let l0 = vi_l0 vi;
             vi1 = prune_empty_clusters
               (vi\<lparr>vi_l0 := l0\<lparr>l0_maintenance_passes := min (l0_maintenance_passes l0 + 1) 0xFFFFFFFF\<rparr>\<rparr>)
         in and_then (split_oversized_clusters W vi1)
              (\<lambda>vi2.
                 and_then (refresh_fine_centroids W (reassign_drifted_members W (merge_tiny_clusters W vi2)))
                   (\<lambda>vi3. split_oversized_clusters W (prune_empty_clusters vi3)))))"

definition delta_upsert ::
  "'z wire_scheme \<Rightarrow> string \<Rightarrow> nat \<Rightarrow> string \<times> document \<Rightarrow> vector_index \<Rightarrow> vfail + vector_index" where
  "delta_upsert W field dim x vi =
     (case x of
        (i, d) \<Rightarrow>
          (let vi1 = remove_doc i vi in
           case extract_vector W (attributes d) field of
             Inl _ \<Rightarrow> Inr vi1
           | Inr v \<Rightarrow> if length v \<noteq> dim then Inr vi1 else assign_doc_to_nearest W i v vi1))"

definition vindex_apply_delta ::
  "'z wire_scheme \<Rightarrow> (string \<times> document) list \<Rightarrow> string list \<Rightarrow> vector_index \<Rightarrow> vfail + vector_index" where
  "vindex_apply_delta W ups dels vi =
     (let field = l0_vector_field (vi_l0 vi); dim = l0_dimensions (vi_l0 vi) in
      if dim = 0 \<or> l0_centroids (vi_l0 vi) = [] then Inr vi
      else
        and_then (fold_ok (delta_upsert W field dim) ups (fold remove_doc dels vi))
          (run_incremental_maintenance W))"

end
