(* ===== verification/Vector_Conserve.thy ===== *)
theory Vector_Conserve
  imports Vector_Maintain
begin

text \<open>
  The invariant of the vector index and its preservation: maintenance moves members between
  clusters but neither loses nor duplicates one, and does not fail on an index that satisfies
  the invariant.
\<close>

section \<open>The members of an index\<close>

definition index_members :: "(nat, cluster_segment) fmap \<Rightarrow> cluster_member multiset" where
  "index_members cl = (\<Sum>f \<in> fset (fmdom cl). mset (cs_members (the (fmlookup cl f))))"

definition cluster_at :: "(nat, cluster_segment) fmap \<Rightarrow> nat \<Rightarrow> cluster_member list" where
  "cluster_at cl f = (case fmlookup cl f of None \<Rightarrow> [] | Some c \<Rightarrow> cs_members c)"

lemma members_at_cluster: "members_at vi f = cluster_at (vi_clusters vi) f"
  by (simp add: members_at_def cluster_at_def)

lemma index_members_split: "index_members cl = index_members (fmdrop f cl) + mset (cluster_at cl f)"
proof (cases "fmlookup cl f")
  case None
  then have "fmdrop f cl = cl" by (intro fmap_ext) auto
  then show ?thesis using None by (simp add: cluster_at_def)
next
  case (Some c)
  then have f: "f \<in> fset (fmdom cl)" by (simp add: fmlookup_dom_iff)
  have "index_members cl = mset (cs_members c) + (\<Sum>g \<in> fset (fmdom cl) - {f}. mset (cs_members (the (fmlookup cl g))))"
    unfolding index_members_def using f Some by (simp add: sum.remove)
  also have "(\<Sum>g \<in> fset (fmdom cl) - {f}. mset (cs_members (the (fmlookup cl g)))) = index_members (fmdrop f cl)"
    unfolding index_members_def by (rule sum.cong) auto
  finally show ?thesis using Some by (simp add: cluster_at_def)
qed

lemma fmdrop_fmupd_same: "fmdrop f (fmupd f c cl) = fmdrop f cl"
  by (rule fmap_ext) simp

lemma index_members_upd: "index_members (fmupd f c cl) = index_members (fmdrop f cl) + mset (cs_members c)"
  using index_members_split [of "fmupd f c cl" f] by (simp add: cluster_at_def fmdrop_fmupd_same)

lemma index_members_extend: "index_members (cluster_extend sid f ms cl) = index_members cl + mset ms"
  using index_members_split [of cl f]
  by (auto simp: cluster_extend_def Let_def index_members_upd cluster_at_def split: option.splits)

lemma index_members_replace:
  "cs_members c = ms \<Longrightarrow> index_members (fmupd f c cl) + mset (cluster_at cl f) = index_members cl + mset ms"
  using index_members_split [of cl f] by (simp add: index_members_upd)

lemma fmdom_extend: "fmdom (cluster_extend sid f ms cl) = finsert f (fmdom cl)"
  by (simp add: cluster_extend_def Let_def)

text \<open>A renaming of the clusters keeps their members.\<close>

lemma index_members_rename:
  assumes inj: "inj_on h (fset (fmdom cl))" and dom: "fset (fmdom cl') = h ` fset (fmdom cl)"
    and same: "\<And>f. f \<in> fset (fmdom cl) \<Longrightarrow> cluster_at cl' (h f) = cluster_at cl f"
  shows "index_members cl' = index_members cl"
proof -
  have at: "cs_members (the (fmlookup c f)) = cluster_at c f" if "f \<in> fset (fmdom c)" for c f
    using that by (auto simp: cluster_at_def fmlookup_dom_iff)
  have "index_members cl' = (\<Sum>f \<in> h ` fset (fmdom cl). mset (cluster_at cl' f))"
    unfolding index_members_def dom [symmetric] by (rule sum.cong) (simp_all add: at)
  also have "\<dots> = (\<Sum>f \<in> fset (fmdom cl). mset (cluster_at cl' (h f)))"
    using inj by (simp add: sum.reindex)
  also have "\<dots> = index_members cl"
    unfolding index_members_def by (rule sum.cong) (simp_all add: at same)
  finally show ?thesis .
qed

lemma index_members_map:
  "(\<And>c. mset (cs_members (g c)) = filter_mset P (mset (cs_members c))) \<Longrightarrow>
   index_members (fmmap g cl) = filter_mset P (index_members cl)"
proof -
  assume g: "\<And>c. mset (cs_members (g c)) = filter_mset P (mset (cs_members c))"
  have "filter_mset P (\<Sum>f \<in> A. M f) = (\<Sum>f \<in> A. filter_mset P (M f))" if "finite A" for A and M :: "nat \<Rightarrow> cluster_member multiset"
    using that by (induction A) auto
  then have "filter_mset P (index_members cl) =
      (\<Sum>f \<in> fset (fmdom cl). filter_mset P (mset (cs_members (the (fmlookup cl f)))))"
    by (simp add: index_members_def)
  also have "\<dots> = index_members (fmmap g cl)"
    unfolding index_members_def
    by (rule sum.cong) (auto simp: fmlookup_dom_iff g)
  finally show ?thesis by simp
qed

lemma index_members_filter_empty:
  "index_members (fmfilter (\<lambda>f. cluster_at cl f \<noteq> []) cl) = index_members cl"
proof -
  have "index_members cl = (\<Sum>f \<in> fset (fmdom cl). mset (cluster_at cl f))"
    unfolding index_members_def by (rule sum.cong) (auto simp: cluster_at_def fmlookup_dom_iff)
  also have "\<dots> = (\<Sum>f \<in> fset (fmdom (fmfilter (\<lambda>f. cluster_at cl f \<noteq> []) cl)). mset (cluster_at cl f))"
    by (rule sum.mono_neutral_right) (auto simp: fmlookup_dom_iff)
  also have "\<dots> = index_members (fmfilter (\<lambda>f. cluster_at cl f \<noteq> []) cl)"
    unfolding index_members_def by (rule sum.cong) (auto simp: cluster_at_def fmlookup_dom_iff)
  finally show ?thesis by simp
qed

section \<open>The invariant\<close>

definition shape_ok :: "centroid_index_l0 \<Rightarrow> (nat, centroid_index_l1) fmap \<Rightarrow> bool" where
  "shape_ok l0 l1s \<longleftrightarrow>
     length (l0_fine_counts l0) = l0_num_coarse l0 \<and> length (l0_centroids l0) = l0_num_coarse l0 \<and>
     l0_num_fine_total l0 = sum_list (l0_fine_counts l0) \<and>
     fset (fmdom l1s) = {..<l0_num_coarse l0} \<and>
     (\<forall>c l1. fmlookup l1s c = Some l1 \<longrightarrow>
        l1_num_fine l1 = l0_fine_counts l0 ! c \<and> length (l1_centroids l1) = l0_fine_counts l0 ! c)"

definition vindex_ok :: "'z wire_scheme \<Rightarrow> vector_index \<Rightarrow> bool" where
  "vindex_ok W vi \<longleftrightarrow>
     shape_ok (vi_l0 vi) (vi_l1 vi) \<and>
     (\<forall>f \<in> fset (fmdom (vi_clusters vi)). f < l0_num_fine_total (vi_l0 vi)) \<and>
     (\<forall>m \<in># index_members (vi_clusters vi). length (member_as_f64 W m (l0_dimensions (vi_l0 vi))) = l0_dimensions (vi_l0 vi))"

text \<open>Every coarse cell has a fine centroid.\<close>

definition cells_filled :: "vector_index \<Rightarrow> bool" where
  "cells_filled vi \<longleftrightarrow> list_all (\<lambda>n. 0 < n) (l0_fine_counts (vi_l0 vi))"

definition l0_frame :: "centroid_index_l0 \<Rightarrow> nat \<times> distance_metric \<times> vector_element \<times> string \<times> f64 list list" where
  "l0_frame l0 =
     (l0_dimensions l0, l0_distance_metric l0, l0_vector_element l0, l0_vector_field l0, l0_centroids l0)"

text \<open>What a maintenance step keeps.\<close>

definition keeps :: "'z wire_scheme \<Rightarrow> vector_index \<Rightarrow> vector_index \<Rightarrow> bool" where
  "keeps W vi vi' \<longleftrightarrow>
     vindex_ok W vi' \<and> index_members (vi_clusters vi') = index_members (vi_clusters vi) \<and>
     l0_frame (vi_l0 vi') = l0_frame (vi_l0 vi) \<and> (cells_filled vi \<longrightarrow> cells_filled vi')"

lemma keeps_refl: "vindex_ok W vi \<Longrightarrow> keeps W vi vi"
  by (simp add: keeps_def)

lemma keeps_trans: "keeps W a b \<Longrightarrow> keeps W b c \<Longrightarrow> keeps W a c"
  by (simp add: keeps_def)

lemma keeps_ok: "keeps W vi vi' \<Longrightarrow> vindex_ok W vi'"
  by (simp add: keeps_def)

lemma keeps_clusters:
  assumes "vindex_ok W vi" "index_members cl = index_members (vi_clusters vi)"
    and "\<And>f. f \<in> fset (fmdom cl) \<Longrightarrow> f < l0_num_fine_total (vi_l0 vi)"
  shows "keeps W vi (vi\<lparr>vi_clusters := cl\<rparr>)"
  using assms by (simp add: keeps_def vindex_ok_def cells_filled_def)

lemma l1_lookup:
  assumes "vindex_ok W vi" "c < l0_num_coarse (vi_l0 vi)"
  obtains l1 where "fmlookup (vi_l1 vi) c = Some l1" "l1_num_fine l1 = fine_count (vi_l0 vi) c"
    "length (l1_centroids l1) = fine_count (vi_l0 vi) c"
proof -
  have sh: "shape_ok (vi_l0 vi) (vi_l1 vi)" using assms(1) by (simp add: vindex_ok_def)
  have "c \<in> fset (fmdom (vi_l1 vi))" using sh assms(2) by (simp add: shape_ok_def)
  then obtain l1 where l: "fmlookup (vi_l1 vi) c = Some l1" by (auto simp: fmlookup_dom_iff)
  then show thesis using that sh assms(2) by (auto simp: shape_ok_def fine_count_def)
qed

lemma start_plus_count: "c < length xs \<Longrightarrow> sum_list (take c xs) + xs ! c \<le> sum_list xs" for xs :: "nat list"
proof -
  assume c: "c < length xs"
  have "sum_list xs = sum_list (take (Suc c) xs) + sum_list (drop (Suc c) xs)"
    by (metis append_take_drop_id sum_list_append)
  then show ?thesis using c by (simp add: take_Suc_conv_app_nth)
qed

lemma global_in_range:
  assumes "vindex_ok W vi" "c < l0_num_coarse (vi_l0 vi)" "local < fine_count (vi_l0 vi) c"
  shows "global_fine_id (vi_l0 vi) c local < l0_num_fine_total (vi_l0 vi)"
proof -
  have "shape_ok (vi_l0 vi) (vi_l1 vi)" using assms(1) by (simp add: vindex_ok_def)
  then show ?thesis
    using assms(2,3) start_plus_count [of c "l0_fine_counts (vi_l0 vi)"]
    by (simp add: shape_ok_def fine_count_def global_fine_id_def global_id_start_def)
qed

lemma locate_Some:
  "locate f off c ns = Some (d, l) \<Longrightarrow> off \<le> f \<Longrightarrow>
   c \<le> d \<and> d < c + length ns \<and> l < ns ! (d - c) \<and> f = off + sum_list (take (d - c) ns) + l"
proof (induction ns arbitrary: off c)
  case (Cons n ns)
  show ?case
  proof (cases "f < off + n")
    case True
    then show ?thesis using Cons.prems by auto
  next
    case False
    then have "c + 1 \<le> d \<and> d < c + 1 + length ns \<and> l < ns ! (d - (c + 1)) \<and>
        f = off + n + sum_list (take (d - (c + 1)) ns) + l"
      using Cons.IH [of "off + n" "c + 1"] Cons.prems by simp
    moreover from this obtain e where "d = Suc (c + e)" by (metis Suc_eq_plus1 add_Suc less_eqE)
    ultimately show ?thesis by simp
  qed
qed simp

lemma located:
  assumes "vindex_ok W vi" "coarse_local_from_global vi f = Some (c, l)"
  shows "c < l0_num_coarse (vi_l0 vi)" "l < fine_count (vi_l0 vi) c" "f = global_fine_id (vi_l0 vi) c l"
  using assms locate_Some [of f 0 0 "l0_fine_counts (vi_l0 vi)" c l]
  by (auto simp: coarse_local_from_global_def vindex_ok_def shape_ok_def fine_count_def
      global_fine_id_def global_id_start_def)

lemma member_dims:
  assumes "vindex_ok W vi" "set ms \<subseteq> set_mset (index_members (vi_clusters vi))"
  shows "\<forall>p \<in> set (members_as_pairs W ms (l0_dimensions (vi_l0 vi))). length (snd p) = l0_dimensions (vi_l0 vi)"
  using assms by (auto simp: members_as_pairs_def vindex_ok_def)

lemma members_at_subset: "set (members_at vi f) \<subseteq> set_mset (index_members (vi_clusters vi))"
  using index_members_split [of "vi_clusters vi" f] by (auto simp: members_at_cluster)

section \<open>Moving members\<close>

lemma fmdrop_twice: "fmdrop f (fmdrop f cl) = fmdrop f cl"
  by (rule fmap_ext) simp

lemma reinsert_keeps:
  assumes "vindex_ok W vi" "f < l0_num_fine_total (vi_l0 vi)"
  shows "keeps W vi (insert_cluster f (members_at vi f) (remove_cluster f vi))"
proof -
  have "index_members (fmupd f (new_cluster (remove_cluster f vi) f (members_at vi f)) (fmdrop f (vi_clusters vi))) =
      index_members (vi_clusters vi)"
    using index_members_split [of "vi_clusters vi" f]
    by (simp add: index_members_upd fmdrop_twice new_cluster_def members_at_cluster)
  then have "keeps W vi (vi\<lparr>vi_clusters := fmupd f (new_cluster (remove_cluster f vi) f (members_at vi f))
      (fmdrop f (vi_clusters vi))\<rparr>)"
    using assms by (intro keeps_clusters) (auto simp: vindex_ok_def)
  then show ?thesis by (simp add: insert_cluster_def remove_cluster_def)
qed

lemma remove_empty_keeps:
  assumes "vindex_ok W vi" "members_at vi f = []"
  shows "keeps W vi (remove_cluster f vi)"
proof -
  have "index_members (fmdrop f (vi_clusters vi)) = index_members (vi_clusters vi)"
    using index_members_split [of "vi_clusters vi" f] assms(2) by (simp add: members_at_cluster)
  then show ?thesis
    using assms(1) unfolding remove_cluster_def by (intro keeps_clusters) (auto simp: vindex_ok_def)
qed

lemma move_cluster_keeps:
  assumes "vindex_ok W vi" "g < l0_num_fine_total (vi_l0 vi)"
  shows "keeps W vi (extend_cluster g (members_at vi f) (remove_cluster f vi))"
proof -
  let ?cl = "cluster_extend (l0_segment_id (vi_l0 vi)) g (members_at vi f) (fmdrop f (vi_clusters vi))"
  have "index_members ?cl = index_members (vi_clusters vi)"
    using index_members_split [of "vi_clusters vi" f] by (simp add: index_members_extend members_at_cluster)
  then have "keeps W vi (vi\<lparr>vi_clusters := ?cl\<rparr>)"
    using assms by (intro keeps_clusters) (auto simp: vindex_ok_def fmdom_extend)
  then show ?thesis by (simp add: extend_cluster_def remove_cluster_def)
qed

lemma prune_keeps: "vindex_ok W vi \<Longrightarrow> keeps W vi (prune_empty_clusters vi)"
  unfolding prune_empty_clusters_def members_at_cluster
  by (intro keeps_clusters) (auto simp: index_members_filter_empty vindex_ok_def)

lemma nearest_local:
  assumes "0 < length (l1_centroids l1)"
  shows "first_or d (l1_nearest_fine l1 v metr 1) < length (l1_centroids l1)"
proof -
  obtain x xs where x: "l1_nearest_fine l1 v metr 1 = x # xs"
    using length_top_m [of "l1_centroids l1" v metr 1] assms
    by (cases "l1_nearest_fine l1 v metr 1") (auto simp: l1_nearest_fine_def)
  then have "x \<in> {..<length (l1_centroids l1)}"
    using top_m_subset [of "l1_centroids l1" v metr 1] unfolding l1_nearest_fine_def by auto
  then show ?thesis unfolding x by (simp add: first_or_def)
qed

lemma merge_tiny_keeps:
  assumes ok: "vindex_ok W vi"
  shows "keeps W vi (merge_tiny W f vi)"
proof (cases "coarse_local_from_global vi f")
  case None
  then show ?thesis using ok by (simp add: merge_tiny_def keeps_refl)
next
  case (Some cl)
  obtain c l where cl: "coarse_local_from_global vi f = Some (c, l)" using Some by (cases cl) auto
  note loc = located [OF ok cl]
  obtain l1 where l1: "fmlookup (vi_l1 vi) c = Some l1" "length (l1_centroids l1) = fine_count (vi_l0 vi) c"
    using l1_lookup [OF ok loc(1)] by metis
  have f: "f < l0_num_fine_total (vi_l0 vi)" unfolding loc(3) by (rule global_in_range [OF ok loc(1,2)])
  have t: "global_fine_id (vi_l0 vi) c (first_or 0 (l1_nearest_fine l1 v metr 1)) < l0_num_fine_total (vi_l0 vi)" for v metr
    using nearest_local [of l1 0 v metr] l1(2) loc(2) by (intro global_in_range [OF ok loc(1)]) simp
  show ?thesis
    using reinsert_keeps [OF ok f] remove_empty_keeps [OF ok, of f] move_cluster_keeps [OF ok t]
    by (auto simp: merge_tiny_def cl l1(1) Let_def)
qed

lemma fold_keeps:
  assumes "\<And>x vi. vindex_ok W vi \<Longrightarrow> keeps W vi (g x vi)" "vindex_ok W vi"
  shows "keeps W vi (fold g xs vi)"
  using assms(2)
proof (induction xs arbitrary: vi)
  case (Cons x xs)
  note k = assms(1) [OF Cons.prems, of x]
  from Cons.IH [OF keeps_ok [OF k]] show ?case using keeps_trans [OF k] by simp
qed (simp add: keeps_refl)

lemma merge_tiny_clusters_keeps: "vindex_ok W vi \<Longrightarrow> keeps W vi (merge_tiny_clusters W vi)"
  unfolding merge_tiny_clusters_def by (rule fold_keeps) (rule merge_tiny_keeps)

lemma find_member_less: "find_member i ms = Some j \<Longrightarrow> j < length ms"
  by (auto simp: find_member_def in_set_enumerate_eq dest!: find_Some_key)

lemma mset_remove_at: "j < length xs \<Longrightarrow> add_mset (xs ! j) (mset (remove_at j xs)) = mset xs"
proof -
  assume "j < length xs"
  then have "mset xs = mset (take j xs @ xs ! j # drop (Suc j) xs)" by (simp flip: id_take_nth_drop)
  then show ?thesis by (simp add: remove_at_def)
qed

lemma move_member_keeps:
  assumes ok: "vindex_ok W vi" and dest: "snd mv < l0_num_fine_total (vi_l0 vi)"
  shows "keeps W vi (move_member mv vi) \<and> vi_l0 (move_member mv vi) = vi_l0 vi"
proof -
  obtain i d where mv: "mv = (i, d)" by (cases mv)
  show ?thesis
  proof (cases "List.find (\<lambda>(f, c). find_member i (cs_members c) \<noteq> None) (fm_entries (vi_clusters vi))")
    case None
    then show ?thesis using ok by (simp add: move_member_def mv keeps_refl)
  next
    case (Some x)
    obtain f c where x: "x = (f, c)" by (cases x)
    have e: "fmlookup (vi_clusters vi) f = Some c" and "find_member i (cs_members c) \<noteq> None"
      using find_Some_key [OF Some] by (auto simp: x)
    then obtain j where j: "find_member i (cs_members c) = Some j" by auto
    let ?c = "c\<lparr>cs_members := remove_at j (cs_members c)\<rparr>"
    let ?cl = "cluster_extend (l0_segment_id (vi_l0 vi)) d [cs_members c ! j] (fmupd f ?c (vi_clusters vi))"
    have at: "cluster_at (vi_clusters vi) f = cs_members c" by (simp add: cluster_at_def e)
    have "index_members ?cl + mset (cs_members c) = index_members (vi_clusters vi) + mset (cs_members c)"
      using index_members_replace [of ?c "remove_at j (cs_members c)" f "vi_clusters vi"]
        mset_remove_at [OF find_member_less [OF j]]
      by (simp add: index_members_extend at)
    then have "index_members ?cl = index_members (vi_clusters vi)" by simp
    moreover have "f < l0_num_fine_total (vi_l0 vi)"
      using ok e by (auto simp: vindex_ok_def fmlookup_dom_iff)
    ultimately have "keeps W vi (vi\<lparr>vi_clusters := ?cl\<rparr>)"
      using ok dest by (intro keeps_clusters) (auto simp: vindex_ok_def fmdom_extend mv)
    then show ?thesis
      using Some [unfolded not_None_eq] by (simp add: move_member_def mv x j extend_cluster_def Let_def)
  qed
qed

lemma drifted_in_range:
  assumes ok: "vindex_ok W vi" and mv: "mv \<in> set (drifted_in W vi x)"
  shows "snd mv < l0_num_fine_total (vi_l0 vi)"
proof -
  obtain f cl where x: "x = (f, cl)" by (cases x)
  obtain c cur where loc: "coarse_local_from_global vi f = Some (c, cur)"
    using mv by (cases "coarse_local_from_global vi f") (auto simp: drifted_in_def x)
  note l = located [OF ok loc]
  obtain l1 where l1: "fmlookup (vi_l1 vi) c = Some l1" "length (l1_centroids l1) = fine_count (vi_l0 vi) c"
    using l1_lookup [OF ok l(1)] by metis
  obtain v where "snd mv = global_fine_id (vi_l0 vi) c (first_or cur (l1_nearest_fine l1 v (l0_distance_metric (vi_l0 vi)) 1))"
    using mv by (auto simp: drifted_in_def x loc l1(1) Let_def split: if_splits)
  moreover have "first_or cur (l1_nearest_fine l1 v (l0_distance_metric (vi_l0 vi)) 1) < fine_count (vi_l0 vi) c"
    using nearest_local [of l1 cur v "l0_distance_metric (vi_l0 vi)"] l1(2) l(2) by simp
  ultimately show ?thesis using global_in_range [OF ok l(1)] by simp
qed

lemma fold_move_keeps:
  assumes "vindex_ok W vi" "\<forall>mv \<in> set mvs. snd mv < l0_num_fine_total (vi_l0 vi)"
  shows "keeps W vi (fold move_member mvs vi)"
  using assms
proof (induction mvs arbitrary: vi)
  case (Cons mv mvs)
  have k: "keeps W vi (move_member mv vi)" "vi_l0 (move_member mv vi) = vi_l0 vi"
    using move_member_keeps [OF Cons.prems(1), of mv] Cons.prems(2) by simp_all
  then have "keeps W (move_member mv vi) (fold move_member mvs (move_member mv vi))"
    using Cons.prems(2) by (intro Cons.IH) (auto simp: keeps_ok)
  then show ?case using keeps_trans [OF k(1)] by simp
qed (simp add: keeps_refl)

lemma reassign_keeps: "vindex_ok W vi \<Longrightarrow> keeps W vi (reassign_drifted_members W vi)"
  unfolding reassign_drifted_members_def using drifted_in_range by (intro fold_move_keeps) auto

end
