(* ===== verification/Vector_Split.thy ===== *)
theory Vector_Split
  imports Vector_Conserve
begin

text \<open>
  The splitting passes keep the members and the invariant, and do not fail.
\<close>

section \<open>The L1 segments\<close>

definition l1_sizes :: "(nat, centroid_index_l1) fmap \<Rightarrow> nat \<Rightarrow> (nat \<times> nat) option" where
  "l1_sizes m c = map_option (\<lambda>s. (l1_num_fine s, length (l1_centroids s))) (fmlookup m c)"

lemma shape_ok_sizes:
  "shape_ok l0 l1s \<longleftrightarrow>
     length (l0_fine_counts l0) = l0_num_coarse l0 \<and> length (l0_centroids l0) = l0_num_coarse l0 \<and>
     l0_num_fine_total l0 = sum_list (l0_fine_counts l0) \<and>
     (\<forall>c. l1_sizes l1s c = (if c < l0_num_coarse l0 then Some (l0_fine_counts l0 ! c, l0_fine_counts l0 ! c) else None))"
    (is "?L \<longleftrightarrow> ?R")
proof -
  have dom: "fset (fmdom l1s) = {..<n} \<longleftrightarrow> (\<forall>c. fmlookup l1s c \<noteq> None \<longleftrightarrow> c < n)" for n
    by (simp add: set_eq_iff fmlookup_dom_iff)
  have each: "(fmlookup l1s c \<noteq> None \<longleftrightarrow> c < n) \<and>
      (\<forall>l1. fmlookup l1s c = Some l1 \<longrightarrow> l1_num_fine l1 = xs ! c \<and> length (l1_centroids l1) = xs ! c) \<longleftrightarrow>
      l1_sizes l1s c = (if c < n then Some (xs ! c, xs ! c) else None)" for c n xs
    by (cases "fmlookup l1s c") (simp_all add: l1_sizes_def)
  show ?thesis
    unfolding shape_ok_def dom each [symmetric] all_conj_distrib by blast
qed

lemma keeps_l1:
  assumes "vindex_ok W vi" "\<And>c. l1_sizes l1s c = l1_sizes (vi_l1 vi) c"
  shows "keeps W vi (vi\<lparr>vi_l1 := l1s\<rparr>)"
proof -
  have "shape_ok (vi_l0 vi) l1s = shape_ok (vi_l0 vi) (vi_l1 vi)"
    unfolding shape_ok_sizes assms(2) ..
  then show ?thesis using assms(1) by (simp add: keeps_def vindex_ok_def cells_filled_def)
qed

lemma l1_sizes_upd: "l1_sizes (fmupd c s m) d = (if d = c then Some (l1_num_fine s, length (l1_centroids s)) else l1_sizes m d)"
  by (simp add: l1_sizes_def)

lemma set_centroid_keeps: "vindex_ok W vi \<Longrightarrow> keeps W vi (set_centroid c l v vi)"
  unfolding set_centroid_def
  by (auto split: option.splits simp: keeps_refl l1_sizes_upd intro!: keeps_l1)
    (simp add: l1_sizes_def)

section \<open>Adding a fine centroid\<close>

lemma lookup_moved:
  "fmlookup (fold (\<lambda>(f, c). fmupd f c) (map (\<lambda>f. (f + 1, h f)) ids) m) g =
     (if g \<noteq> 0 \<and> g - 1 \<in> set ids then Some (h (g - 1)) else fmlookup m g)" for g :: nat
  by (induction ids arbitrary: m) auto

lemma lookup_shift:
  "fmlookup (shift_clusters p cl) g =
     (if g < p then fmlookup cl g else if g = p then None
      else map_option (\<lambda>c. c\<lparr>cs_centroid_id := g\<rparr>) (fmlookup cl (g - 1)))"
proof -
  define ids where "ids = rev (filter (\<lambda>f. p \<le> f) (fm_keys cl))"
  have ids: "x \<in> set ids \<longleftrightarrow> p \<le> x \<and> fmlookup cl x \<noteq> None" for x
    by (auto simp: ids_def fmlookup_dom_iff)
  have "fmlookup (shift_clusters p cl) g =
      (if g \<noteq> 0 \<and> g - 1 \<in> set ids then Some ((the (fmlookup cl (g - 1)))\<lparr>cs_centroid_id := g - 1 + 1\<rparr>)
       else fmlookup (fmdrop_list ids cl) g)"
    unfolding shift_clusters_def Let_def ids_def [symmetric] by (rule lookup_moved)
  also have "\<dots> = (if g < p then fmlookup cl g else if g = p then None
      else map_option (\<lambda>c. c\<lparr>cs_centroid_id := g\<rparr>) (fmlookup cl (g - 1)))"
  proof (cases g)
    case 0
    then show ?thesis by (auto simp: ids)
  next
    case (Suc e)
    consider "g < p" | "g = p" | "p < g" by linarith
    then show ?thesis
      by cases (use Suc in \<open>auto simp: ids\<close>)
  qed
  finally show ?thesis .
qed

lemma members_shift: "index_members (shift_clusters p cl) = index_members cl"
proof (rule index_members_rename)
  let ?h = "\<lambda>f. if f < p then f else f + 1 :: nat"
  show "inj_on ?h (fset (fmdom cl))" by (auto simp: inj_on_def)
  show "fset (fmdom (shift_clusters p cl)) = ?h ` fset (fmdom cl)"
  proof (rule set_eqI)
    fix g
    show "g \<in> fset (fmdom (shift_clusters p cl)) \<longleftrightarrow> g \<in> ?h ` fset (fmdom cl)"
      by (cases g) (auto simp: fmlookup_dom_iff lookup_shift image_iff split: if_splits)
  qed
  show "cluster_at (shift_clusters p cl) (?h f) = cluster_at cl f" for f
    by (auto simp: cluster_at_def lookup_shift split: option.splits)
qed

definition in_cell :: "vector_index \<Rightarrow> nat \<Rightarrow> nat \<Rightarrow> bool" where
  "in_cell vi c f \<longleftrightarrow>
     c < l0_num_coarse (vi_l0 vi) \<and> global_id_start (vi_l0 vi) c \<le> f \<and>
     f < global_id_start (vi_l0 vi) c + fine_count (vi_l0 vi) c"

lemma in_cell_located: "vindex_ok W vi \<Longrightarrow> coarse_local_from_global vi f = Some (c, l) \<Longrightarrow> in_cell vi c f"
  using located [of W vi f c l] by (simp add: in_cell_def global_fine_id_def)

lemma l1_sizes_bump:
  "l1_sizes (fold (\<lambda>d m. case fmlookup m d of
                            None \<Rightarrow> m
                          | Some s \<Rightarrow> fmupd d (s\<lparr>l1_global_id_start := l1_global_id_start s + 1\<rparr>) m) ds m) c = l1_sizes m c"
  by (induction ds arbitrary: m) (auto simp: l1_sizes_upd split: option.splits, simp add: l1_sizes_def)

lemma sum_list_bump: "c < length xs \<Longrightarrow> sum_list (xs[c := Suc (xs ! c)]) = Suc (sum_list xs)"
  using elem_le_sum_list [of c xs] by (simp add: sum_list_update)

lemma append_keeps:
  assumes ok: "vindex_ok W vi" and c: "c < l0_num_coarse (vi_l0 vi)"
  obtains vi1 where "append_fine_centroid c v vi = Inr (vi1, fine_count (vi_l0 vi) c)" "keeps W vi vi1"
    "vi_clusters vi1 = shift_clusters (global_id_start (vi_l0 vi) c + fine_count (vi_l0 vi) c) (vi_clusters vi)"
    "global_id_start (vi_l0 vi1) c = global_id_start (vi_l0 vi) c"
    "fine_count (vi_l0 vi1) c = fine_count (vi_l0 vi) c + 1"
    "l0_num_coarse (vi_l0 vi1) = l0_num_coarse (vi_l0 vi)"
proof -
  obtain l1 where l1: "fmlookup (vi_l1 vi) c = Some l1" "l1_num_fine l1 = fine_count (vi_l0 vi) c"
    "length (l1_centroids l1) = fine_count (vi_l0 vi) c"
    using l1_lookup [OF ok c] by metis
  have sh: "shape_ok (vi_l0 vi) (vi_l1 vi)" using ok by (simp add: vindex_ok_def)
  have len: "length (l0_fine_counts (vi_l0 vi)) = l0_num_coarse (vi_l0 vi)" using sh by (simp add: shape_ok_sizes)
  obtain vi1 where run: "append_fine_centroid c v vi = Inr (vi1, fine_count (vi_l0 vi) c)"
    using l1 by (simp add: append_fine_centroid_def Let_def)
  then have vi1: "vi_clusters vi1 = shift_clusters (global_id_start (vi_l0 vi) c + fine_count (vi_l0 vi) c) (vi_clusters vi)"
    "vi_l0 vi1 = (vi_l0 vi)\<lparr>l0_fine_counts := (l0_fine_counts (vi_l0 vi))[c := l0_fine_counts (vi_l0 vi) ! c + 1],
       l0_num_fine_total := l0_num_fine_total (vi_l0 vi) + 1\<rparr>"
    "l1_sizes (vi_l1 vi1) d = (if d = c then Some (fine_count (vi_l0 vi) c + 1, fine_count (vi_l0 vi) c + 1)
       else l1_sizes (vi_l1 vi) d)" for d
    using l1 c len
    by (auto simp: append_fine_centroid_def Let_def l1_sizes_bump l1_sizes_upd)
  have counts: "fine_count (vi_l0 vi) c = l0_fine_counts (vi_l0 vi) ! c" using c len by (simp add: fine_count_def)
  have "shape_ok (vi_l0 vi1) (vi_l1 vi1)"
    using sh c len by (auto simp: shape_ok_sizes vi1 counts nth_list_update sum_list_bump)
  moreover have "f < l0_num_fine_total (vi_l0 vi1)" if "f \<in> fset (fmdom (vi_clusters vi1))" for f
  proof -
    have "f \<in> fset (fmdom (vi_clusters vi)) \<or> f - 1 \<in> fset (fmdom (vi_clusters vi))"
      using that by (auto simp: fmlookup_dom_iff vi1(1) lookup_shift split: if_splits)
    then show ?thesis using ok by (auto simp: vindex_ok_def vi1(2))
  qed
  moreover have "cells_filled vi1" if "cells_filled vi"
    using that c len set_update_subset_insert
    by (fastforce simp: cells_filled_def vi1(2) list_all_iff dest: subsetD [OF set_update_subset_insert])
  ultimately have "keeps W vi vi1"
    using ok by (simp add: keeps_def vindex_ok_def vi1(1) members_shift l0_frame_def vi1(2))
  then show thesis
    using that [OF run] vi1 c len by (simp add: global_id_start_def fine_count_def)
qed

section \<open>Buckets\<close>

lemma bucket_of_le: "bucket_of as hi m \<le> hi"
  by (simp add: bucket_of_def)

lemma mset_buckets:
  assumes "\<And>m. h m < k"
  shows "(\<Sum>j \<leftarrow> [0..<k]. mset (filter (\<lambda>m. h m = j) ms)) = mset ms"
proof (induction ms)
  case Nil
  show ?case by (induction k) simp_all
next
  case (Cons x ms)
  have "(\<Sum>j \<leftarrow> [0..<k]. mset (filter (\<lambda>m. h m = j) (x # ms))) =
      (\<Sum>j \<leftarrow> [0..<k]. (if j = h x then {#x#} else {#}) + mset (filter (\<lambda>m. h m = j) ms))"
    by (rule arg_cong [where f = sum_list]) (rule map_cong, auto)
  also have "\<dots> = (\<Sum>j \<leftarrow> [0..<k]. if j = h x then {#x#} else {#}) + mset ms"
    unfolding sum_list_addf Cons.IH ..
  also have "(\<Sum>j \<leftarrow> [0..<k]. if j = h x then {#x#} else {#}) = {#x#}"
    using assms [of x] by (simp add: interv_sum_list_conv_sum_set_nat sum.delta)
  finally show ?case by simp
qed

lemma mset_two_buckets:
  "mset (filter (\<lambda>m. bucket_of as 1 m = 0) ms) + mset (filter (\<lambda>m. bucket_of as 1 m = 1) ms) = mset ms"
proof -
  have "bucket_of as 1 m = 1 \<longleftrightarrow> bucket_of as 1 m \<noteq> 0" for m by (auto simp: bucket_of_def)
  then show ?thesis by simp
qed

section \<open>The binary split\<close>

lemma kmeans_members:
  assumes "vindex_ok W vi" "1 \<le> k" "metr = l0_distance_metric (vi_l0 vi)"
  obtains sub where "kmeans_centroids (members_as_pairs W (members_at vi f) (l0_dimensions (vi_l0 vi))) k
      (l0_dimensions (vi_l0 vi)) metr = Inr sub"
  using kmeans_ok [OF member_dims [OF assms(1) members_at_subset [of vi f]] assms(2), of metr] by auto

lemma split_into_keeps:
  assumes ok: "vindex_ok W vi" and g: "g < l0_num_fine_total (vi_l0 vi)" "fmlookup (vi_clusters vi) g = None"
    and ms: "members_at vi f \<noteq> []" and b: "mset b0 + mset b1 = mset (members_at vi f)"
  shows "keeps W vi (insert_cluster g b1 (set_members f b0 vi))"
proof -
  obtain c where c: "fmlookup (vi_clusters vi) f = Some c" using ms by (auto simp: members_at_def split: option.splits)
  have fg: "f \<noteq> g" using c g(2) by auto
  let ?cl = "fmupd f (c\<lparr>cs_members := b0, cs_centroid_id := f\<rparr>) (vi_clusters vi)"
  have "index_members ?cl + mset (members_at vi f) = index_members (vi_clusters vi) + mset b0"
    unfolding members_at_cluster by (rule index_members_replace) simp
  moreover have "fmdrop g ?cl = ?cl" using g(2) fg by (intro fmap_ext) auto
  ultimately have "index_members (fmupd g (new_cluster vi' g b1) ?cl) = index_members (vi_clusters vi)" for vi'
    using b by (simp add: index_members_upd new_cluster_def) (metis add.assoc add.commute add_right_cancel)
  moreover have "f < l0_num_fine_total (vi_l0 vi)" using ok c by (auto simp: vindex_ok_def fmlookup_dom_iff)
  ultimately have "keeps W vi (vi\<lparr>vi_clusters := fmupd g (new_cluster vi' g b1) ?cl\<rparr>)" for vi'
    using ok g(1) by (intro keeps_clusters) (auto simp: vindex_ok_def)
  then show ?thesis by (simp add: insert_cluster_def set_members_def c)
qed

lemma set_centroid_frame [simp]:
  "vi_l0 (set_centroid c l v vi) = vi_l0 vi" "vi_clusters (set_centroid c l v vi) = vi_clusters vi"
  by (auto simp: set_centroid_def split: option.splits)

lemma split_frame [simp]:
  "vi_l0 (insert_cluster g ms vi) = vi_l0 vi" "vi_l0 (set_members f ms vi) = vi_l0 vi"
  by (auto simp: insert_cluster_def set_members_def split: option.splits)

lemma split_cell_keeps:
  assumes ok: "vindex_ok W vi" and cell: "in_cell vi c f" and ms: "members_at vi f \<noteq> []"
    and b: "mset b0 + mset b1 = mset (members_at vi f)"
  obtains vi1 n where "append_fine_centroid c v vi = Inr (vi1, n)"
    "keeps W vi (insert_cluster (global_fine_id (vi_l0 vi1) c n) b1 (set_members f b0 (set_centroid c l u vi1)))"
    "in_cell vi1 c f" "in_cell vi1 c (global_fine_id (vi_l0 vi1) c n)"
proof -
  have c: "c < l0_num_coarse (vi_l0 vi)" using cell by (simp add: in_cell_def)
  obtain vi1 where vi1: "append_fine_centroid c v vi = Inr (vi1, fine_count (vi_l0 vi) c)" "keeps W vi vi1"
    "vi_clusters vi1 = shift_clusters (global_id_start (vi_l0 vi) c + fine_count (vi_l0 vi) c) (vi_clusters vi)"
    "global_id_start (vi_l0 vi1) c = global_id_start (vi_l0 vi) c"
    "fine_count (vi_l0 vi1) c = fine_count (vi_l0 vi) c + 1"
    "l0_num_coarse (vi_l0 vi1) = l0_num_coarse (vi_l0 vi)"
    using append_keeps [OF ok c] by metis
  let ?g = "global_fine_id (vi_l0 vi1) c (fine_count (vi_l0 vi) c)"
  let ?vi2 = "set_centroid c l u vi1"
  have k2: "keeps W vi1 ?vi2" using set_centroid_keeps [OF keeps_ok [OF vi1(2)]] .
  have g: "?g < l0_num_fine_total (vi_l0 ?vi2)"
    using global_in_range [OF keeps_ok [OF vi1(2)], of c "fine_count (vi_l0 vi) c"] c by (simp add: vi1)
  have free: "fmlookup (vi_clusters ?vi2) ?g = None"
    by (simp add: vi1(3,4) lookup_shift global_fine_id_def)
  have same: "members_at ?vi2 f = members_at vi f"
    using cell by (simp add: members_at_def vi1(3) lookup_shift in_cell_def)
  have "keeps W ?vi2 (insert_cluster ?g b1 (set_members f b0 ?vi2))"
    using ms b by (intro split_into_keeps [OF keeps_ok [OF k2] g free]) (simp_all add: same)
  then have "keeps W vi (insert_cluster ?g b1 (set_members f b0 ?vi2))"
    using keeps_trans [OF vi1(2) keeps_trans [OF k2]] by simp
  then show thesis
    using cell by (intro that [OF vi1(1)]) (simp_all add: in_cell_def vi1 global_fine_id_def)
qed

lemma binary_split_pass_keeps:
  assumes ok: "vindex_ok W vi" and cell: "in_cell vi c f"
  shows "binary_split_pass W c f local vi = Inr None \<or>
    (\<exists>vi' f' l'. binary_split_pass W c f local vi = Inr (Some (vi', f', l')) \<and> keeps W vi vi' \<and> in_cell vi' c f')"
proof (cases "can_add_fine_centroid_for_split vi c \<and> MAX_CLUSTER_MEMBERS < length (members_at vi f)")
  case True
  define metr where "metr = l0_distance_metric (vi_l0 vi)"
  define pairs where "pairs = members_as_pairs W (members_at vi f) (l0_dimensions (vi_l0 vi))"
  obtain sub where sub: "kmeans_centroids pairs 2 (l0_dimensions (vi_l0 vi)) metr = Inr sub"
    using kmeans_members [OF ok _ metr_def, of 2 f] by (auto simp: pairs_def)
  define b0 where "b0 = filter (\<lambda>m. bucket_of (assign_to_centroids pairs sub metr) 1 m = 0) (members_at vi f)"
  define b1 where "b1 = filter (\<lambda>m. bucket_of (assign_to_centroids pairs sub metr) 1 m = 1) (members_at vi f)"
  have ne: "members_at vi f \<noteq> []" using True by auto
  have b: "mset b0 + mset b1 = mset (members_at vi f)" unfolding b0_def b1_def by (rule mset_two_buckets)
  obtain vi1 n where vi1: "append_fine_centroid c (sub ! 1) vi = Inr (vi1, n)"
    "keeps W vi (insert_cluster (global_fine_id (vi_l0 vi1) c n) b1 (set_members f b0 (set_centroid c local (sub ! 0) vi1)))"
    "in_cell vi1 c f" "in_cell vi1 c (global_fine_id (vi_l0 vi1) c n)"
    using split_cell_keeps [OF ok cell ne b] by metis
  then show ?thesis
    using True unfolding binary_split_pass_def Let_def metr_def [symmetric] pairs_def [symmetric] sub and_then.simps
      b0_def [symmetric] b1_def [symmetric]
    by (auto simp: not_le in_cell_def)
next
  case False
  then show ?thesis by (auto simp: binary_split_pass_def Let_def)
qed

definition goes_well :: "'z wire_scheme \<Rightarrow> vector_index \<Rightarrow> vfail + (vector_index \<times> bool) \<Rightarrow> bool" where
  "goes_well W vi r \<longleftrightarrow> (\<exists>vi' p. r = Inr (vi', p) \<and> keeps W vi vi')"

lemma goes_well_trans: "keeps W vi vi1 \<Longrightarrow> goes_well W vi1 r \<Longrightarrow> goes_well W vi r"
  unfolding goes_well_def using keeps_trans by blast

lemma goes_well_refl: "vindex_ok W vi \<Longrightarrow> goes_well W vi (Inr (vi, p))"
  by (simp add: goes_well_def keeps_refl)

lemma binary_split_loop_keeps:
  "vindex_ok W vi \<Longrightarrow> in_cell vi c f \<Longrightarrow> goes_well W vi (binary_split_loop W n c f local p vi)"
proof (induction n arbitrary: f local p vi)
  case 0
  then show ?case by (simp add: goes_well_refl)
next
  case (Suc n)
  from binary_split_pass_keeps [OF Suc.prems, of local] show ?case
  proof (elim disjE exE conjE)
    fix vi' f' l'
    assume *: "binary_split_pass W c f local vi = Inr (Some (vi', f', l'))" "keeps W vi vi'" "in_cell vi' c f'"
    then show ?thesis using goes_well_trans [OF *(2) Suc.IH [OF keeps_ok [OF *(2)] *(3)]] by simp
  qed (use Suc.prems in \<open>simp add: goes_well_refl\<close>)
qed

lemma binary_split_keeps: "vindex_ok W vi \<Longrightarrow> goes_well W vi (try_binary_split_oversized_cluster W f vi)"
  unfolding try_binary_split_oversized_cluster_def
  by (auto split: option.splits simp: goes_well_refl intro: binary_split_loop_keeps dest: in_cell_located)

section \<open>Sharding over the fine centroids of a cell\<close>

lemma fold_place:
  assumes "\<And>j. global_fine_id l0 c (j mod nf) < l0_num_fine_total l0" "vi_l0 vi = l0"
  shows "\<exists>cl p'. fold (place_bucket c nf) bs (vi, p) = (vi\<lparr>vi_clusters := cl\<rparr>, p') \<and>
    index_members cl = index_members (vi_clusters vi) + (\<Sum>b \<leftarrow> bs. mset (snd b)) \<and>
    (\<forall>f \<in> fset (fmdom cl). f \<in> fset (fmdom (vi_clusters vi)) \<or> f < l0_num_fine_total l0)"
  using assms(2)
proof (induction bs arbitrary: vi p)
  case Nil
  then show ?case by (intro exI [of _ "vi_clusters vi"] exI [of _ p]) simp
next
  case (Cons b bs)
  obtain j ms where b: "b = (j, ms)" by (cases b)
  show ?case
  proof (cases "ms = []")
    case True
    then show ?thesis using Cons.IH [OF Cons.prems, of p] by (simp add: b place_bucket_def)
  next
    case False
    let ?f = "global_fine_id l0 c (j mod nf)"
    let ?vi = "extend_cluster ?f ms vi"
    have "vi_l0 ?vi = l0" by (simp add: extend_cluster_def Cons.prems)
    from Cons.IH [OF this, of True] obtain cl p' where
      "fold (place_bucket c nf) bs (?vi, True) = (?vi\<lparr>vi_clusters := cl\<rparr>, p')"
      "index_members cl = index_members (vi_clusters ?vi) + (\<Sum>b \<leftarrow> bs. mset (snd b))"
      "\<forall>f \<in> fset (fmdom cl). f \<in> fset (fmdom (vi_clusters ?vi)) \<or> f < l0_num_fine_total l0"
      by blast
    moreover have "place_bucket c nf b (vi, p) = (?vi, True)"
      using False by (simp add: b place_bucket_def Cons.prems)
    ultimately show ?thesis
      using assms(1) [of j]
      by (intro exI [of _ cl] exI [of _ p'])
        (auto simp: b extend_cluster_def index_members_extend fmdom_extend ac_simps)
  qed
qed

lemma multishard_keeps:
  assumes ok: "vindex_ok W vi"
  shows "goes_well W vi (try_multishard_oversized_cluster W f vi)"
proof (cases "coarse_local_from_global vi f")
  case None
  then show ?thesis using ok by (simp add: try_multishard_oversized_cluster_def goes_well_refl)
next
  case (Some x)
  obtain c l where loc: "coarse_local_from_global vi f = Some (c, l)" using Some by (cases x) auto
  note lc = located [OF ok loc]
  obtain l1 where l1: "fmlookup (vi_l1 vi) c = Some l1" "l1_num_fine l1 = fine_count (vi_l0 vi) c"
    using l1_lookup [OF ok lc(1)] by metis
  have f: "f < l0_num_fine_total (vi_l0 vi)" unfolding lc(3) by (rule global_in_range [OF ok lc(1,2)])
  define ms where "ms = members_at vi f"
  define nf where "nf = max (l1_num_fine l1) 1"
  define k where "k = min (min (max (min nf (ceil_div (length ms) MAX_CLUSTER_MEMBERS)) 2) nf) (length ms)"
  define pairs where "pairs = members_as_pairs W ms (l0_dimensions (vi_l0 vi))"
  define metr where "metr = l0_distance_metric (vi_l0 vi)"
  show ?thesis
  proof (cases "length ms \<le> MAX_CLUSTER_MEMBERS")
    case True
    then show ?thesis
      using reinsert_keeps [OF ok f] remove_empty_keeps [OF ok, of f]
      by (cases "ms = []") (simp_all add: try_multishard_oversized_cluster_def loc Let_def goes_well_def exI [of _ False] flip: ms_def)
  next
    case False
    have k: "1 \<le> k" using False by (auto simp: k_def nf_def)
    obtain sub where sub: "kmeans_centroids pairs k (l0_dimensions (vi_l0 vi)) metr = Inr sub"
      using kmeans_members [OF ok k metr_def, of f] by (auto simp: pairs_def ms_def)
    define as where "as = assign_to_centroids pairs sub metr"
    define bs where "bs = map (\<lambda>j. (j, filter (\<lambda>m. bucket_of as (k - 1) m = j) ms)) [0..<k]"
    have "bucket_of as (k - 1) m < k" for m using bucket_of_le [of as "k - 1" m] k by simp
    then have part: "(\<Sum>b \<leftarrow> bs. mset (snd b)) = mset ms"
      using mset_buckets [of "bucket_of as (k - 1)" k ms] by (simp add: bs_def comp_def)
    have rng: "global_fine_id (vi_l0 vi) c (j mod nf) < l0_num_fine_total (vi_l0 vi)" for j
      using lc(2) l1(2) by (intro global_in_range [OF ok lc(1)]) (simp add: nf_def)
    obtain cl p where placed: "fold (place_bucket c nf) bs (remove_cluster f vi, False) = ((remove_cluster f vi)\<lparr>vi_clusters := cl\<rparr>, p)"
      "index_members cl = index_members (vi_clusters (remove_cluster f vi)) + mset ms"
      "\<forall>g \<in> fset (fmdom cl). g \<in> fset (fmdom (vi_clusters (remove_cluster f vi))) \<or> g < l0_num_fine_total (vi_l0 vi)"
      using fold_place [OF rng, of "remove_cluster f vi" bs False] part by (auto simp: remove_cluster_def)
    have "keeps W vi (vi\<lparr>vi_clusters := cl\<rparr>)"
      using placed(2,3) index_members_split [of "vi_clusters vi" f] ok
      by (intro keeps_clusters) (auto simp: remove_cluster_def ms_def members_at_cluster vindex_ok_def)
    then have "goes_well W vi (Inr (fold (place_bucket c nf) bs (remove_cluster f vi, False)))"
      unfolding placed(1) goes_well_def by (simp add: remove_cluster_def)
    then show ?thesis
      using False reinsert_keeps [OF ok f]
      unfolding try_multishard_oversized_cluster_def Let_def loc l1(1) option.case prod.case ms_def [symmetric]
        nf_def [symmetric] k_def [symmetric] pairs_def [symmetric] metr_def [symmetric] sub and_then.simps
        as_def [symmetric] bs_def [symmetric]
      by (cases "sub = []") (simp_all add: goes_well_def exI [of _ False] flip: ms_def)
  qed
qed

section \<open>Relocation\<close>

lemma least_loaded_less:
  assumes "least_loaded vi c f n = Some l"
  shows "l < n"
proof -
  have fold: "\<forall>x. fold g ls best = Some x \<longrightarrow> best = Some x \<or> fst x \<in> set ls"
    if "\<And>l b x. g l b = Some x \<Longrightarrow> b = Some x \<or> fst x = l" for g :: "nat \<Rightarrow> (nat \<times> nat) option \<Rightarrow> (nat \<times> nat) option" and ls best
    using that by (induction ls arbitrary: best) (auto, metis)
  show ?thesis
    using assms unfolding least_loaded_def
    by (auto dest!: fold [rule_format, rotated] split: if_splits option.splits simp: Let_def)
qed

lemma mset_exchange: "a + b = c \<Longrightarrow> x + c = y + b \<Longrightarrow> x + a = y" for a b c x y :: "'a multiset"
  by (metis add.assoc add_right_cancel)

lemma relocate_keeps:
  assumes ok: "vindex_ok W vi"
  shows "goes_well W vi (relocate_excess_within_coarse W f vi)"
proof (cases "coarse_local_from_global vi f")
  case None
  then show ?thesis using ok by (simp add: relocate_excess_within_coarse_def goes_well_refl)
next
  case (Some x)
  obtain c l where loc: "coarse_local_from_global vi f = Some (c, l)" using Some by (cases x) auto
  note lc = located [OF ok loc]
  obtain l1 where l1: "fmlookup (vi_l1 vi) c = Some l1" "l1_num_fine l1 = fine_count (vi_l0 vi) c"
    using l1_lookup [OF ok lc(1)] by metis
  define ms where "ms = members_at vi f"
  have move: "goes_well W vi (Inr (extend_cluster (global_fine_id (vi_l0 vi) c t) (map snd (take n sc))
        (vi\<lparr>vi_clusters := fmupd f (c0\<lparr>cs_members := map snd (drop n sc)\<rparr>) (vi_clusters vi)\<rparr>), True))"
    if t: "t < fine_count (vi_l0 vi) c" and sc: "mset (map snd sc) = mset ms" and ne: "ms \<noteq> []"
    for t n c0 and sc :: "(f64 \<times> cluster_member) list"
  proof -
    let ?cl = "cluster_extend (l0_segment_id (vi_l0 vi)) (global_fine_id (vi_l0 vi) c t) (map snd (take n sc))
        (fmupd f (c0\<lparr>cs_members := map snd (drop n sc)\<rparr>) (vi_clusters vi))"
    have "mset (map snd (take n sc)) + mset (map snd (drop n sc)) = mset ms"
      unfolding sc [symmetric] by (metis append_take_drop_id map_append mset_append)
    then have "index_members ?cl = index_members (vi_clusters vi)"
      unfolding index_members_extend
      by (rule mset_exchange) (simp add: ms_def members_at_cluster index_members_replace)
    moreover have "f < l0_num_fine_total (vi_l0 vi)" unfolding lc(3) by (rule global_in_range [OF ok lc(1,2)])
    ultimately have "keeps W vi (vi\<lparr>vi_clusters := ?cl\<rparr>)"
      using ok global_in_range [OF ok lc(1) t] by (intro keeps_clusters) (auto simp: vindex_ok_def fmdom_extend)
    then show ?thesis by (auto simp: goes_well_def extend_cluster_def)
  qed
  have sorted: "mset (map snd (sort_by relocate_cmp (map (\<lambda>m. (h m, m)) ms))) = mset ms" for h :: "cluster_member \<Rightarrow> f64"
    unfolding mset_map mset_sort_by by (simp add: comp_def multiset.map_comp)
  show ?thesis
  proof (cases "length ms \<le> MAX_CLUSTER_MEMBERS \<or> least_loaded vi c f (fine_count (vi_l0 vi) c) = None")
    case True
    then show ?thesis
      using goes_well_refl [OF ok] by (auto simp: relocate_excess_within_coarse_def loc l1 Let_def simp flip: ms_def)
  next
    case False
    then obtain t where t: "least_loaded vi c f (fine_count (vi_l0 vi) c) = Some t" by auto
    have "ms \<noteq> []" using False by auto
    note moved = move [OF least_loaded_less [OF t] sorted this]
    show ?thesis
      unfolding relocate_excess_within_coarse_def Let_def loc option.case prod.case ms_def [symmetric] l1 t
      using False by (simp only: if_False Nat.diff_is_0_eq moved de_Morgan_disj)
  qed
qed

section \<open>Rounds\<close>

lemma try_all_keeps:
  assumes "\<And>f vi. vindex_ok W vi \<Longrightarrow> goes_well W vi (tr f vi)" "vindex_ok W vi"
  shows "goes_well W vi (try_all tr fs vi)"
proof -
  have "\<exists>s. fold_ok (\<lambda>f (v, progress). map_ok (\<lambda>(v', p). (v', progress \<or> p)) (tr f v)) fs (vi, False) = Inr s \<and>
      keeps W vi (fst s)"
  proof (rule fold_ok_total)
    show "keeps W vi (fst (vi, False))" using assms(2) by (simp add: keeps_refl)
  next
    fix f and s :: "vector_index \<times> bool"
    assume k: "keeps W vi (fst s)"
    obtain v p where s: "s = (v, p)" by (cases s)
    obtain v' p' where "tr f v = Inr (v', p')" "keeps W v v'"
      using assms(1) [OF keeps_ok [OF k], of f] by (auto simp: goes_well_def s)
    then show "\<exists>s'. (\<lambda>(v, progress). map_ok (\<lambda>(v', p). (v', progress \<or> p)) (tr f v)) s = Inr s' \<and> keeps W vi (fst s')"
      using k keeps_trans by (auto simp: s)
  qed
  then show ?thesis by (force simp: try_all_def goes_well_def)
qed

lemma goes_well_then:
  assumes "goes_well W vi r" "\<And>vi' p. keeps W vi vi' \<Longrightarrow> goes_well W vi' (g (vi', p))"
  shows "goes_well W vi (and_then r g)"
  using assms goes_well_trans unfolding goes_well_def by fastforce

lemma split_round_keeps: "vindex_ok W vi \<Longrightarrow> goes_well W vi (split_round W fs vi)"
  unfolding split_round_def
  using keeps_ok by (auto intro!: goes_well_then try_all_keeps binary_split_keeps multishard_keeps relocate_keeps goes_well_refl)

lemma split_rounds_keeps: "vindex_ok W vi \<Longrightarrow> \<exists>vi'. split_rounds W n vi = Inr vi' \<and> keeps W vi vi'"
proof (induction n arbitrary: vi)
  case (Suc n)
  obtain vi1 p where vi1: "split_round W (oversized vi) vi = Inr (vi1, p)" "keeps W vi vi1"
    using split_round_keeps [OF Suc.prems, of "oversized vi"] by (auto simp: goes_well_def)
  from Suc.IH [OF keeps_ok [OF vi1(2)]] obtain vi2 where "split_rounds W n vi1 = Inr vi2" "keeps W vi1 vi2" by blast
  then show ?case using vi1 Suc.prems keeps_trans [OF vi1(2)] by (auto simp: keeps_refl)
qed (simp add: keeps_refl)

lemma split_oversized_keeps: "vindex_ok W vi \<Longrightarrow> \<exists>vi'. split_oversized_clusters W vi = Inr vi' \<and> keeps W vi vi'"
  unfolding split_oversized_clusters_def by (rule split_rounds_keeps)

section \<open>Maintenance\<close>

lemma refresh_one_ok:
  assumes "vindex_ok W vi"
  shows "\<exists>l1'. refresh_one W vi c l l1 = Inr l1' \<and> l1_num_fine l1' = l1_num_fine l1 \<and>
    length (l1_centroids l1') = length (l1_centroids l1)"
proof -
  obtain sub where "kmeans_centroids (members_as_pairs W (members_at vi (global_fine_id (vi_l0 vi) c l)) (l0_dimensions (vi_l0 vi))) 1
      (l0_dimensions (vi_l0 vi)) (l0_distance_metric (vi_l0 vi)) = Inr sub"
    using kmeans_members [OF assms, of 1] by auto
  then show ?thesis by (simp add: refresh_one_def Let_def)
qed

lemma refresh_keeps:
  assumes ok: "vindex_ok W vi"
  shows "\<exists>vi'. refresh_fine_centroids W vi = Inr vi' \<and> keeps W vi vi'"
proof -
  have "\<exists>m. fold_ok (\<lambda>(c, l1) m. map_ok (\<lambda>l1'. fmupd c l1' m) (fold_ok (refresh_one W vi c) [0..<l1_num_fine l1] l1))
      (fm_entries (vi_l1 vi)) (vi_l1 vi) = Inr m \<and> (\<forall>c. l1_sizes m c = l1_sizes (vi_l1 vi) c)"
  proof (rule fold_ok_total)
    fix x m
    assume x: "x \<in> set (fm_entries (vi_l1 vi))" and m: "\<forall>c. l1_sizes m c = l1_sizes (vi_l1 vi) c"
    obtain c l1 where x': "x = (c, l1)" by (cases x)
    have "\<exists>l1'. fold_ok (refresh_one W vi c) [0..<l1_num_fine l1] l1 = Inr l1' \<and> (l1_num_fine l1' = l1_num_fine l1 \<and>
        length (l1_centroids l1') = length (l1_centroids l1))"
      by (rule fold_ok_total) (use refresh_one_ok [OF ok] in \<open>metis, simp\<close>)
    then obtain l1' where l1': "fold_ok (refresh_one W vi c) [0..<l1_num_fine l1] l1 = Inr l1'"
      "l1_num_fine l1' = l1_num_fine l1" "length (l1_centroids l1') = length (l1_centroids l1)" by blast
    have "fmlookup (vi_l1 vi) c = Some l1" using x by (simp add: x')
    then show "\<exists>m'. (\<lambda>(c, l1) m. map_ok (\<lambda>l1'. fmupd c l1' m) (fold_ok (refresh_one W vi c) [0..<l1_num_fine l1] l1)) x m = Inr m' \<and>
        (\<forall>c. l1_sizes m' c = l1_sizes (vi_l1 vi) c)"
      using m l1' by (simp add: x' l1_sizes_upd) (simp add: l1_sizes_def)
  qed simp
  then show ?thesis using keeps_l1 [OF ok] by (auto simp: refresh_fine_centroids_def)
qed

lemma pass_count_keeps: "vindex_ok W vi \<Longrightarrow> keeps W vi (vi\<lparr>vi_l0 := (vi_l0 vi)\<lparr>l0_maintenance_passes := n\<rparr>\<rparr>)"
  by (auto simp: keeps_def vindex_ok_def shape_ok_def cells_filled_def l0_frame_def)

lemma maintenance_keeps:
  assumes ok: "vindex_ok W vi"
  shows "\<exists>vi'. run_incremental_maintenance W vi = Inr vi' \<and> keeps W vi vi'"
proof (cases "l0_num_fine_total (vi_l0 vi) = 0 \<or> l0_centroids (vi_l0 vi) = []")
  case True
  then show ?thesis using ok by (auto simp: run_incremental_maintenance_def keeps_refl)
next
  case False
  define vi1 where "vi1 = prune_empty_clusters
    (vi\<lparr>vi_l0 := (vi_l0 vi)\<lparr>l0_maintenance_passes := min (l0_maintenance_passes (vi_l0 vi) + 1) 0xFFFFFFFF\<rparr>\<rparr>)"
  have k1: "keeps W vi vi1"
    unfolding vi1_def using keeps_trans [OF pass_count_keeps [OF ok] prune_keeps [OF keeps_ok [OF pass_count_keeps [OF ok]]]] .
  obtain vi2 where vi2: "split_oversized_clusters W vi1 = Inr vi2" "keeps W vi1 vi2"
    using split_oversized_keeps [OF keeps_ok [OF k1]] by blast
  note k3 = merge_tiny_clusters_keeps [OF keeps_ok [OF vi2(2)]]
  note k4 = reassign_keeps [OF keeps_ok [OF k3]]
  obtain vi3 where vi3: "refresh_fine_centroids W (reassign_drifted_members W (merge_tiny_clusters W vi2)) = Inr vi3"
    "keeps W (reassign_drifted_members W (merge_tiny_clusters W vi2)) vi3"
    using refresh_keeps [OF keeps_ok [OF k4]] by blast
  note k5 = prune_keeps [OF keeps_ok [OF vi3(2)]]
  obtain vi4 where vi4: "split_oversized_clusters W (prune_empty_clusters vi3) = Inr vi4" "keeps W (prune_empty_clusters vi3) vi4"
    using split_oversized_keeps [OF keeps_ok [OF k5]] by blast
  have "run_incremental_maintenance W vi = Inr vi4"
    using False unfolding run_incremental_maintenance_def Let_def vi1_def [symmetric]
    by (simp add: vi2(1) vi3(1) vi4(1))
  moreover have "keeps W vi vi4"
    using keeps_trans [OF k1 keeps_trans [OF vi2(2) keeps_trans [OF k3 keeps_trans [OF k4 keeps_trans [OF vi3(2) keeps_trans [OF k5 vi4(2)]]]]]] .
  ultimately show ?thesis by blast
qed

end
