(* ===== verification/Vector_Query.thy ===== *)
theory Vector_Query
  imports Vector_Index
begin

text \<open>
  Queries on the vector index (\<^verbatim>\<open>src/index/vector.rs\<close>): the descent from the coarse to the fine
  centroids, the candidate pool, scoring, and the choice of the fields to index.
\<close>

section \<open>Scoring\<close>

definition score_member :: "'z wire_scheme \<Rightarrow> f64 list \<Rightarrow> distance_metric \<Rightarrow> nat \<Rightarrow> vector_element \<Rightarrow> cluster_member \<Rightarrow> f64" where
  "score_member W query metr dim element m =
     (case element of
        F32 \<Rightarrow> score_vector query (cm_vector m) metr
      | F16 \<Rightarrow> score_vector_f32 (map f64_to_f32 (take dim query)) (as_f32_slice W m dim) metr)"

definition score_members ::
  "'z wire_scheme \<Rightarrow> cluster_segment \<Rightarrow> f64 list \<Rightarrow> distance_metric \<Rightarrow> nat \<Rightarrow> nat \<Rightarrow> vector_element \<Rightarrow> (string \<times> f64) list" where
  "score_members W c query metr top_k dim element =
     take top_k (sort_by score_cmp
       (map (\<lambda>m. (cm_doc_id m, score_member W query metr dim element m)) (cs_members c)))"

section \<open>Probing\<close>

definition rank_l2 ::
  "(nat \<times> nat, centroid_index_l2) fmap \<Rightarrow> nat \<Rightarrow> f64 list \<Rightarrow> distance_metric \<Rightarrow> nat \<Rightarrow> (nat \<times> f64) list" where
  "rank_l2 l2s c query metr parts =
     concat (map (\<lambda>l2_id.
       (case fmlookup l2s (c, l2_id) of
          None \<Rightarrow> []
        | Some seg \<Rightarrow>
            if l2_centroids seg = [] then []
            else [(l2_id, fold (\<lambda>v best. f64_max best (score_vector query v metr)) (l2_centroids seg) NegInf)])) [0..<parts])"

definition probe_l2 ::
  "centroid_index_l0 \<Rightarrow> (nat \<times> nat, centroid_index_l2) fmap \<Rightarrow> nat \<Rightarrow> f64 list \<Rightarrow> nat \<Rightarrow> (nat \<times> f64) list \<Rightarrow> nat list" where
  "probe_l2 l0 l2s c query parts ranked =
     concat (map (\<lambda>(l2_id, _).
       (case fmlookup l2s (c, l2_id) of
          None \<Rightarrow> []
        | Some seg \<Rightarrow>
            map (\<lambda>local. l2_global_fine_start seg + local)
              (l2_nearest_fine seg query (l0_distance_metric l0) (probe_fine_count_for_num_fine l0 (l2_num_fine seg)))))
       (take (probe_l2_count l0 parts) (sort_by score_cmp ranked)))"

definition probe_l1 ::
  "centroid_index_l0 \<Rightarrow> (nat, centroid_index_l1) fmap \<Rightarrow> nat \<Rightarrow> f64 list \<Rightarrow> nat list" where
  "probe_l1 l0 l1s c query =
     (case fmlookup l1s c of
        None \<Rightarrow> []
      | Some seg \<Rightarrow>
          map (global_fine_id l0 c) (l1_nearest_fine seg query (l0_distance_metric l0) (probe_fine_count l0 seg)))"

definition probe_cell ::
  "centroid_index_l0 \<Rightarrow> (nat, centroid_index_l1) fmap \<Rightarrow> centroid_routing option \<Rightarrow>
   (nat \<times> nat, centroid_index_l2) fmap \<Rightarrow> f64 list \<Rightarrow> nat \<Rightarrow> nat list" where
  "probe_cell l0 l1s routing l2s query c =
     (let parts = (case routing of None \<Rightarrow> 0 | Some r \<Rightarrow> l2_count_for_coarse r c);
          ranked = rank_l2 l2s c query (l0_distance_metric l0) parts
      in if 1 < parts \<and> l2s \<noteq> fmempty \<and> ranked \<noteq> [] then probe_l2 l0 l2s c query parts ranked
         else probe_l1 l0 l1s c query)"

definition probe_fine_centroids_parts ::
  "centroid_index_l0 \<Rightarrow> (nat, centroid_index_l1) fmap \<Rightarrow> centroid_routing option \<Rightarrow>
   (nat \<times> nat, centroid_index_l2) fmap \<Rightarrow> f64 list \<Rightarrow> nat list" where
  "probe_fine_centroids_parts l0 l1s routing l2s query =
     (if length query \<noteq> l0_dimensions l0 then []
      else remdups (sort (concat (map (probe_cell l0 l1s routing l2s query) (nearest_coarse l0 query (probe_coarse_count l0))))))"

definition probe_fine_centroids :: "vector_index \<Rightarrow> f64 list \<Rightarrow> nat list" where
  "probe_fine_centroids vi query =
     probe_fine_centroids_parts (vi_l0 vi) (vi_l1 vi) (vi_routing vi) (vi_l2 vi) query"

section \<open>Candidates and answers\<close>

definition vector_candidate_doc_ids :: "vector_index \<Rightarrow> f64 list \<Rightarrow> string fset" where
  "vector_candidate_doc_ids vi query =
     fset_of_list (concat (map (\<lambda>f. case fmlookup (vi_clusters vi) f of
                                      None \<Rightarrow> [] | Some c \<Rightarrow> map cm_doc_id (cs_members c))
       (probe_fine_centroids vi query)))"

definition ann_pool_doc_ids :: "vector_index \<Rightarrow> f64 list \<Rightarrow> string fset" where
  "ann_pool_doc_ids vi query = vector_candidate_doc_ids vi query"

definition rerank_top_k ::
  "vector_index \<Rightarrow> f64 list \<Rightarrow> nat \<Rightarrow> (string \<Rightarrow> f64 list option) \<Rightarrow> (string \<times> f64) list" where
  "rerank_top_k vi query top_k view_vector =
     (if length query \<noteq> l0_dimensions (vi_l0 vi) then []
      else take top_k (sort_by score_cmp
        (List.map_filter (\<lambda>i. case view_vector i of
                               None \<Rightarrow> None
                             | Some v \<Rightarrow> if length v \<noteq> length query then None
                                         else Some (i, score_vector query v (l0_distance_metric (vi_l0 vi))))
          (sorted_list_of_fset (ann_pool_doc_ids vi query)))))"

definition score_doc_id :: "'z wire_scheme \<Rightarrow> vector_index \<Rightarrow> string \<Rightarrow> f64 list \<Rightarrow> f64 option" where
  "score_doc_id W vi i query =
     (let l0 = vi_l0 vi in
      if length query \<noteq> l0_dimensions l0 then None
      else map_option (score_member W query (l0_distance_metric l0) (l0_dimensions l0) (l0_vector_element l0))
             (List.find (\<lambda>m. cm_doc_id m = i) (concat (map cs_members (fm_values (vi_clusters vi))))))"

text \<open>The better of two scores of one document.\<close>

definition keep_best :: "string \<times> f64 \<Rightarrow> (string, f64) fmap \<Rightarrow> (string, f64) fmap" where
  "keep_best x scores =
     (case x of
        (i, s) \<Rightarrow>
          (case fmlookup scores i of
             None \<Rightarrow> fmupd i s scores
           | Some old \<Rightarrow> if f64_lt old s then fmupd i s scores else scores))"

definition query_ann :: "'z wire_scheme \<Rightarrow> vector_index \<Rightarrow> f64 list \<Rightarrow> nat \<Rightarrow> (string \<times> f64) list" where
  "query_ann W vi query top_k =
     (let l0 = vi_l0 vi in
      if length query \<noteq> l0_dimensions l0 then []
      else
        (let scores =
               fold (\<lambda>f scores.
                 (case fmlookup (vi_clusters vi) f of
                    None \<Rightarrow> scores
                  | Some c \<Rightarrow>
                      fold keep_best
                        (score_members W c query (l0_distance_metric l0) (top_k * 4) (l0_dimensions l0) (l0_vector_element l0))
                        scores)) (probe_fine_centroids vi query) fmempty
         in take top_k (sort_by score_cmp (fm_entries scores))))"

section \<open>Recall\<close>

definition brute_force_top_k :: "(string \<times> f64 list) list \<Rightarrow> f64 list \<Rightarrow> distance_metric \<Rightarrow> nat \<Rightarrow> string list" where
  "brute_force_top_k docs query metr top_k =
     map fst (take top_k (sort_by score_cmp (map (\<lambda>(i, v). (i, score_vector query v metr)) docs)))"

definition measure_recall_at_k ::
  "'z wire_scheme \<Rightarrow> vector_index \<Rightarrow> (string \<times> f64 list) list \<Rightarrow> nat \<Rightarrow> nat \<Rightarrow> bool \<Rightarrow> (string \<Rightarrow> f64 list option) \<Rightarrow> f64" where
  "measure_recall_at_k W vi vectors queries top_k use_rerank view_vector =
     (if queries = 0 \<or> vectors = [] then Fin 0
      else
        f64_div
          (fold (\<lambda>q total.
             (let query = snd (vectors ! (q * (length vectors div queries)));
                  brute = brute_force_top_k vectors query (l0_distance_metric (vi_l0 vi)) top_k;
                  ann = map fst (if use_rerank then rerank_top_k vi query top_k view_vector
                                 else query_ann W vi query top_k);
                  hits = length (filter (\<lambda>i. i \<in> set ann) brute);
                  denom = max (min (length brute) top_k) 1
              in f64_add total (f64_div (f64_of_nat hits) (f64_of_nat denom)))) [0..<queries] (Fin 0))
          (f64_of_nat queries))"

section \<open>Fields\<close>

definition primary_vector_field :: "'z wire_scheme \<Rightarrow> json \<Rightarrow> document option \<Rightarrow> string option" where
  "primary_vector_field W sch sample =
     (case vector_fields_from_schema sch of
        f # _ \<Rightarrow> Some f
      | [] \<Rightarrow>
          (case sample of
             None \<Rightarrow> None
           | Some d \<Rightarrow>
               map_option fst (List.find (\<lambda>(k, v). \<not> isl (value_to_f64_vec W v)) (fm_entries (attributes d)))))"

definition vector_fields_to_index ::
  "'z wire_scheme \<Rightarrow> json \<Rightarrow> namespace_meta \<Rightarrow> document option \<Rightarrow> string list" where
  "vector_fields_to_index W sch m sample =
     (let fs = map vf_name (vector_fields m);
          fs = (if fs = [] then vector_fields_from_schema sch else fs);
          fs = take MAX_VECTOR_FIELDS fs
      in if fs \<noteq> [] then fs
         else if vector_field m \<noteq> [] then [vector_field m]
         else (case primary_vector_field W sch sample of None \<Rightarrow> [] | Some n \<Rightarrow> [n]))"

end
