(* ===== verification/Vector_Correct.thy ===== *)
theory Vector_Correct
  imports Vector_Split Vector_Query Vector_Encoding_Correct
begin

text \<open>
  Correctness of the vector index: the effect of a delta on the members, the contents of a
  fresh index, the bound on probes, and exactness of queries on a small index.
\<close>

section \<open>Members\<close>

lemma from_values_doc_id [simp]: "cm_doc_id (from_values W i v el) = i"
  by (cases el) (simp_all add: from_values_def)

lemma length_f16_le: "length (f64_slice_to_f16_le W v) = 2 * length v"
  by (induction v) (simp_all add: f64_slice_to_f16_le_def to_le_bytes16_def)

lemma from_values_dims: "length (member_as_f64 W (from_values W i v el) (length v)) = length v"
  by (cases el) (simp_all add: from_values_def member_as_f64_def f16_le_bytes_to_f32_vec_def length_chunks_exact length_f16_le)

section \<open>Deltas\<close>

definition member_of :: "'z wire_scheme \<Rightarrow> centroid_index_l0 \<Rightarrow> string \<Rightarrow> document \<Rightarrow> cluster_member multiset" where
  "member_of W l0 i d =
     (case extract_vector W (attributes d) (l0_vector_field l0) of
        Inl _ \<Rightarrow> {#}
      | Inr v \<Rightarrow> if length v = l0_dimensions l0 then {#from_values W i v (l0_vector_element l0)#} else {#})"

text \<open>An index in use: valid, every cell has a fine centroid, there is a cell.\<close>

definition in_service :: "'z wire_scheme \<Rightarrow> vector_index \<Rightarrow> bool" where
  "in_service W vi \<longleftrightarrow> vindex_ok W vi \<and> cells_filled vi \<and> l0_centroids (vi_l0 vi) \<noteq> []"

lemma remove_doc_ok:
  assumes "in_service W vi"
  shows "in_service W (remove_doc i vi) \<and> vi_l0 (remove_doc i vi) = vi_l0 vi \<and>
    index_members (vi_clusters (remove_doc i vi)) = filter_mset (\<lambda>m. cm_doc_id m \<noteq> i) (index_members (vi_clusters vi))"
proof -
  have "index_members (vi_clusters (remove_doc i vi)) = filter_mset (\<lambda>m. cm_doc_id m \<noteq> i) (index_members (vi_clusters vi))"
    unfolding remove_doc_def by (simp add: index_members_map)
  then show ?thesis
    using assms by (auto simp: in_service_def vindex_ok_def cells_filled_def remove_doc_def)
qed

lemma nearest_coarse_less:
  assumes "l0_centroids l0 \<noteq> []"
  shows "first_or 0 (nearest_coarse l0 v 1) < length (l0_centroids l0)"
proof -
  obtain x xs where x: "nearest_coarse l0 v 1 = x # xs"
    using length_top_m [of "l0_centroids l0" v "l0_distance_metric l0" 1] assms
    by (cases "nearest_coarse l0 v 1") (auto simp: nearest_coarse_def min_def split: if_splits)
  then have "x \<in> {..<length (l0_centroids l0)}"
    using top_m_subset [of "l0_centroids l0" v "l0_distance_metric l0" 1] unfolding nearest_coarse_def by auto
  then show ?thesis unfolding x by (simp add: first_or_def)
qed

lemma assign_doc_ok:
  assumes sv: "in_service W vi" and v: "length v = l0_dimensions (vi_l0 vi)"
  obtains vi' where "assign_doc_to_nearest W i v vi = Inr vi'" "in_service W vi'" "vi_l0 vi' = vi_l0 vi"
    "index_members (vi_clusters vi') =
       add_mset (from_values W i v (l0_vector_element (vi_l0 vi))) (index_members (vi_clusters vi))"
proof -
  have ok: "vindex_ok W vi" using sv by (simp add: in_service_def)
  define c where "c = first_or 0 (nearest_coarse (vi_l0 vi) v 1)"
  have c: "c < l0_num_coarse (vi_l0 vi)"
    using nearest_coarse_less [of "vi_l0 vi" v] sv by (simp add: c_def in_service_def vindex_ok_def shape_ok_def)
  obtain l1 where l1: "fmlookup (vi_l1 vi) c = Some l1" "length (l1_centroids l1) = fine_count (vi_l0 vi) c"
    using l1_lookup [OF ok c] by metis
  have "0 < fine_count (vi_l0 vi) c"
    using sv c by (auto simp: in_service_def cells_filled_def list_all_length fine_count_def vindex_ok_def shape_ok_def)
  then have f: "global_fine_id (vi_l0 vi) c (first_or 0 (l1_nearest_fine l1 v (l0_distance_metric (vi_l0 vi)) 1)) < l0_num_fine_total (vi_l0 vi)"
    using nearest_local [of l1 0 v] l1(2) by (intro global_in_range [OF ok c]) simp
  have dims: "length (member_as_f64 W (from_values W i v (l0_vector_element (vi_l0 vi))) (l0_dimensions (vi_l0 vi))) = l0_dimensions (vi_l0 vi)"
    using from_values_dims [of W i v] by (simp add: v)
  define vi' where "vi' = extend_cluster (global_fine_id (vi_l0 vi) c (first_or 0 (l1_nearest_fine l1 v (l0_distance_metric (vi_l0 vi)) 1)))
    [from_values W i v (l0_vector_element (vi_l0 vi))] vi"
  have run: "assign_doc_to_nearest W i v vi = Inr vi'"
    unfolding assign_doc_to_nearest_def Let_def c_def [symmetric] l1(1) by (simp add: vi'_def)
  show thesis
    by (rule that [OF run])
      (use sv f dims in \<open>auto simp: vi'_def extend_cluster_def index_members_extend fmdom_extend in_service_def vindex_ok_def cells_filled_def\<close>)
qed

definition of_doc :: "string \<Rightarrow> (nat, cluster_segment) fmap \<Rightarrow> cluster_member multiset" where
  "of_doc i cl = filter_mset (\<lambda>m. cm_doc_id m = i) (index_members cl)"

lemma of_doc_removed:
  "in_service W vi \<Longrightarrow> of_doc j (vi_clusters (remove_doc i vi)) = (if j = i then {#} else of_doc j (vi_clusters vi))"
  using remove_doc_ok [of W vi i]
  by (auto simp: of_doc_def intro!: multiset_eqI)

lemma fold_remove_ok:
  "in_service W vi \<Longrightarrow>
   in_service W (fold remove_doc ds vi) \<and> vi_l0 (fold remove_doc ds vi) = vi_l0 vi \<and>
   of_doc j (vi_clusters (fold remove_doc ds vi)) = (if j \<in> set ds then {#} else of_doc j (vi_clusters vi))"
proof (induction ds arbitrary: vi)
  case (Cons d ds)
  have rm: "in_service W (remove_doc d vi)" "vi_l0 (remove_doc d vi) = vi_l0 vi"
    using remove_doc_ok [OF Cons.prems, of d] by blast+
  show ?case
    using Cons.IH [OF rm(1)] rm(2) of_doc_removed [OF Cons.prems, of j d] by (cases "j = d") simp_all
qed simp

lemma delta_upsert_ok:
  assumes sv: "in_service W vi" and l0: "vi_l0 vi = l0"
  obtains vi' where "delta_upsert W (l0_vector_field l0) (l0_dimensions l0) (i, d) vi = Inr vi'" "in_service W vi'"
    "vi_l0 vi' = l0"
    "\<And>j. of_doc j (vi_clusters vi') = (if j = i then member_of W l0 i d else of_doc j (vi_clusters vi))"
proof -
  note rm = remove_doc_ok [OF sv, of i] of_doc_removed [OF sv, of _ i]
  show thesis
  proof (cases "extract_vector W (attributes d) (l0_vector_field l0)")
    case (Inl e)
    then show ?thesis using rm l0 by (intro that [of "remove_doc i vi"]) (simp_all add: delta_upsert_def Let_def member_of_def)
  next
    case (Inr v)
    show ?thesis
    proof (cases "length v = l0_dimensions l0")
      case True
      obtain vi' where vi': "assign_doc_to_nearest W i v (remove_doc i vi) = Inr vi'" "in_service W vi'"
        "vi_l0 vi' = vi_l0 (remove_doc i vi)"
        "index_members (vi_clusters vi') = add_mset (from_values W i v (l0_vector_element (vi_l0 (remove_doc i vi))))
           (index_members (vi_clusters (remove_doc i vi)))"
        using assign_doc_ok [of W "remove_doc i vi" v i] rm True l0 by metis
      have "of_doc j (vi_clusters vi') = (if j = i then member_of W l0 i d else of_doc j (vi_clusters vi))" for j
        using rm(2) [of j] rm(1) True Inr l0 by (auto simp: of_doc_def vi'(4) member_of_def)
      then show ?thesis
        using vi' True rm l0 by (intro that [of vi']) (simp_all add: delta_upsert_def Let_def Inr)
    next
      case False
      then show ?thesis using rm l0 by (intro that [of "remove_doc i vi"]) (simp_all add: delta_upsert_def Let_def Inr member_of_def)
    qed
  qed
qed

lemma fold_upserts_ok:
  assumes "in_service W vi" "vi_l0 vi = l0"
  shows "\<exists>vi'. fold_ok (delta_upsert W (l0_vector_field l0) (l0_dimensions l0)) ups vi = Inr vi' \<and> in_service W vi' \<and>
    vi_l0 vi' = l0 \<and>
    (\<forall>j. of_doc j (vi_clusters vi') =
       (case map_of (rev ups) j of Some d \<Rightarrow> member_of W l0 j d | None \<Rightarrow> of_doc j (vi_clusters vi)))"
  using assms
proof (induction ups arbitrary: vi)
  case (Cons x ups)
  obtain i d where x: "x = (i, d)" by (cases x)
  obtain vi1 where vi1: "delta_upsert W (l0_vector_field l0) (l0_dimensions l0) (i, d) vi = Inr vi1" "in_service W vi1"
    "vi_l0 vi1 = l0"
    "\<And>j. of_doc j (vi_clusters vi1) = (if j = i then member_of W l0 i d else of_doc j (vi_clusters vi))"
    using delta_upsert_ok [OF Cons.prems] by metis
  from Cons.IH [OF vi1(2,3)] obtain vi2 where vi2:
    "fold_ok (delta_upsert W (l0_vector_field l0) (l0_dimensions l0)) ups vi1 = Inr vi2" "in_service W vi2" "vi_l0 vi2 = l0"
    "\<forall>j. of_doc j (vi_clusters vi2) =
       (case map_of (rev ups) j of Some d \<Rightarrow> member_of W l0 j d | None \<Rightarrow> of_doc j (vi_clusters vi1))"
    by blast
  have "of_doc j (vi_clusters vi2) =
      (case map_of (rev (x # ups)) j of Some d \<Rightarrow> member_of W l0 j d | None \<Rightarrow> of_doc j (vi_clusters vi))" for j
    unfolding vi2(4) [rule_format] by (cases "map_of (rev ups) j") (simp_all add: x vi1(4) map_add_def)
  then show ?case using vi2(2,3) by (auto simp: x vi1(1) vi2(1))
qed simp

lemma keeps_in_service: "keeps W vi vi' \<Longrightarrow> in_service W vi \<Longrightarrow> in_service W vi'"
  by (auto simp: keeps_def in_service_def l0_frame_def)

text \<open>
  C5. Applying a delta to a vector index in which every coarse cell has a fine centroid succeeds:
  no step of the maintenance (splitting, sharding, relocating, merging, reassigning, refreshing)
  fails, the result is again such an index, and its members are exactly these: for an upserted
  id the vector of its last upsert, if it has one of the right dimension; none for any other
  deleted id; and for all other ids the members there were.  So however maintenance moves
  members between clusters, it neither loses nor duplicates one.
\<close>

theorem delta_conserves_members:
  assumes "in_service W vi" "l0_dimensions (vi_l0 vi) \<noteq> 0"
  shows "\<exists>vi'. vindex_apply_delta W ups dels vi = Inr vi' \<and> in_service W vi' \<and>
    l0_frame (vi_l0 vi') = l0_frame (vi_l0 vi) \<and>
    (\<forall>i. of_doc i (vi_clusters vi') =
       (case map_of (rev ups) i of
          Some d \<Rightarrow> member_of W (vi_l0 vi) i d
        | None \<Rightarrow> if i \<in> set dels then {#} else of_doc i (vi_clusters vi)))"
proof -
  note rm = fold_remove_ok [OF assms(1), of dels]
  obtain vi1 where vi1: "fold_ok (delta_upsert W (l0_vector_field (vi_l0 vi)) (l0_dimensions (vi_l0 vi))) ups (fold remove_doc dels vi) = Inr vi1"
    "in_service W vi1" "vi_l0 vi1 = vi_l0 vi"
    "\<forall>i. of_doc i (vi_clusters vi1) =
       (case map_of (rev ups) i of Some d \<Rightarrow> member_of W (vi_l0 vi) i d | None \<Rightarrow> of_doc i (vi_clusters (fold remove_doc dels vi)))"
    using fold_upserts_ok [of W "fold remove_doc dels vi" "vi_l0 vi" ups] rm by auto
  obtain vi2 where vi2: "run_incremental_maintenance W vi1 = Inr vi2" "keeps W vi1 vi2"
    using maintenance_keeps [of W vi1] vi1(2) by (auto simp: in_service_def)
  have "vindex_apply_delta W ups dels vi = Inr vi2"
    using assms by (simp add: vindex_apply_delta_def Let_def vi1(1) vi2(1) in_service_def)
  moreover have "of_doc i (vi_clusters vi2) = of_doc i (vi_clusters vi1)" for i
    using vi2(2) by (simp add: keeps_def of_doc_def)
  moreover have "of_doc i (vi_clusters vi1) =
      (case map_of (rev ups) i of
         Some d \<Rightarrow> member_of W (vi_l0 vi) i d
       | None \<Rightarrow> if i \<in> set dels then {#} else of_doc i (vi_clusters vi))" for i
    unfolding vi1(4) [rule_format] using fold_remove_ok [OF assms(1), of dels i] by (simp split: option.split)
  moreover have "in_service W vi2" "l0_frame (vi_l0 vi2) = l0_frame (vi_l0 vi)"
    using keeps_in_service [OF vi2(2) vi1(2)] vi2(2) vi1(3) by (simp_all add: keeps_def)
  ultimately show ?thesis by auto
qed

text \<open>An index with two cells at 0 and 1; the document a is at 0 and the second cell has the given fine centroids.\<close>

definition sample_l1 :: "nat \<Rightarrow> f64 list list \<Rightarrow> centroid_index_l1" where
  "sample_l1 c cs = \<lparr>l1_segment_id = 1, l1_coarse_id = c, l1_global_id_start = c, l1_num_fine = length cs, l1_centroids = cs\<rparr>"

definition sample_index :: "f64 list list \<Rightarrow> vector_index" where
  "sample_index cs =
     \<lparr>vi_l0 = default_l0\<lparr>l0_segment_id := 1, l0_vector_field := ''v'', l0_dimensions := 1, l0_num_coarse := 2,
         l0_num_fine_total := 1 + length cs, l0_distance_metric := EuclideanSquared, l0_fine_counts := [1, length cs],
         l0_centroids := [[Fin 0], [Fin 1]]\<rparr>,
      vi_l1 = fmupd 0 (sample_l1 0 [[Fin 0]]) (fmupd 1 (sample_l1 1 cs) fmempty),
      vi_clusters = fmupd 0 \<lparr>cs_segment_id = 1, cs_centroid_id = 0, cs_members = [from_values ref_wire ''a'' [Fin 0] F32]\<rparr> fmempty,
      vi_routing = None, vi_l2 = fmempty\<rparr>"

lemma index_members_empty [simp]: "index_members fmempty = {#}"
  by (simp add: index_members_def)

lemma sample_members: "index_members (vi_clusters (sample_index cs)) = {#from_values ref_wire ''a'' [Fin 0] F32#}"
  by (simp add: sample_index_def index_members_upd)

lemma sample_ok: "vindex_ok ref_wire (sample_index cs)"
proof -
  have "shape_ok (vi_l0 (sample_index cs)) (vi_l1 (sample_index cs))"
    by (auto simp: shape_ok_sizes sample_index_def l1_sizes_upd sample_l1_def default_l0_def l1_sizes_def less_2_cases_iff)
  then show ?thesis
    unfolding vindex_ok_def sample_members by (simp add: sample_index_def default_l0_def from_values_def member_as_f64_def)
qed

lemma sample_in_service: "in_service ref_wire (sample_index [[Fin 1]])"
  unfolding in_service_def by (rule conjI [OF sample_ok]) (simp add: cells_filled_def sample_index_def default_l0_def)

definition sample_doc :: document where
  "sample_doc = \<lparr>doc_id = ''b'', attributes = fmap_of_list [(''v'', JArray [JNumber (PosInt 1)])]\<rparr>"

theorem delta_conserves_members_witness:
  "\<exists>vi'. vindex_apply_delta ref_wire [(''b'', sample_doc)] [''a''] (sample_index [[Fin 1]]) = Inr vi' \<and>
    of_doc ''a'' (vi_clusters vi') = {#} \<and>
    of_doc ''b'' (vi_clusters vi') = {#\<lparr>cm_doc_id = ''b'', cm_vector = [Fin 1], cm_vector_f16 = None\<rparr>#}"
proof -
  have "extract_vector ref_wire (attributes sample_doc) ''v'' = Inr [Fin 1]"
    by (simp add: extract_vector_def sample_doc_def value_to_f64_vec_def decode_vector_value_def
        decode_vector_value_with_element_def f64_of_nat_small)
  then have "member_of ref_wire (vi_l0 (sample_index [[Fin 1]])) ''b'' sample_doc =
      {#\<lparr>cm_doc_id = ''b'', cm_vector = [Fin 1], cm_vector_f16 = None\<rparr>#}"
    by (simp add: member_of_def sample_index_def default_l0_def from_values_def)
  moreover have "l0_dimensions (vi_l0 (sample_index [[Fin 1]])) \<noteq> 0" by (simp add: sample_index_def)
  ultimately show ?thesis
    using delta_conserves_members [OF sample_in_service, of "[(''b'', sample_doc)]" "[''a'']"] by fastforce
qed

end
