(* ===== verification/Vector_Build_Correct.thy ===== *)
theory Vector_Build_Correct
  imports Vector_Correct
begin

text \<open>
  A fresh vector index: building never fails, and the index holds every document with a usable
  vector once.
\<close>

section \<open>Sizes\<close>

lemma clamp_nat_range: "lo \<le> hi \<Longrightarrow> lo \<le> clamp_nat x lo hi \<and> clamp_nat x lo hi \<le> hi"
  by (simp add: clamp_nat_def)

lemma num_fine_range: "num_fine_for_version n version \<le> n \<and> (0 < n \<longrightarrow> 1 \<le> num_fine_for_version n version)"
  using clamp_nat_range [of 1 n "sqrt_ceil n"]
  by (auto simp: num_fine_for_version_def num_fine_v3_def num_fine_v2_def MAX_FINE_PER_COARSE_def MAX_FINE_PER_COARSE_V3_def min_def)

lemma shrink_coarse_range: "shrink_coarse n k \<le> k \<and> (8 \<le> k \<longrightarrow> 8 \<le> shrink_coarse n k)"
proof (induction n k rule: shrink_coarse.induct)
  case (1 n k)
  show ?case
  proof (cases "8 < k \<and> V3_INDEX_OBJECT_CAP \<le> v3_l1_cluster_object_count_estimate n k")
    case True
    have step: "shrink_coarse n k = shrink_coarse n (k - 1)" using True by (subst shrink_coarse.simps) simp
    have "8 \<le> k - 1" using True by linarith
    then show ?thesis unfolding step using 1 [OF True] by linarith
  next
    case False
    then have "shrink_coarse n k = k" by (subst shrink_coarse.simps) auto
    then show ?thesis by simp
  qed
qed

lemma num_coarse_range:
  assumes "0 < n"
  shows "1 \<le> num_coarse_for_version n version \<and> num_coarse_for_version n version \<le> n"
proof -
  have "1 \<le> num_coarse_v2 n \<and> num_coarse_v2 n \<le> n"
    using assms clamp_nat_range [of 1 n "max (sqrt_ceil n div 4) 4"]
    by (auto simp: num_coarse_v2_def MAX_COARSE_CENTROIDS_def min_def)
  moreover have "1 \<le> num_coarse_v3 n \<and> num_coarse_v3 n \<le> n"
  proof (cases "n \<le> 32")
    case False
    let ?k = "min (clamp_nat (max (n div V3_TARGET_DOCS_PER_COARSE) 8) 8 n) MAX_COARSE_CENTROIDS_V3"
    have "8 \<le> ?k \<and> ?k \<le> n"
      using False clamp_nat_range [of 8 n "max (n div V3_TARGET_DOCS_PER_COARSE) 8"]
      by (auto simp: MAX_COARSE_CENTROIDS_V3_def min_def)
    then have "8 \<le> shrink_coarse n ?k \<and> shrink_coarse n ?k \<le> n"
      using shrink_coarse_range [of n ?k] le_trans by blast
    then show ?thesis using False by (simp add: num_coarse_v3_def)
  qed (use assms in \<open>simp add: num_coarse_v3_def\<close>)
  ultimately show ?thesis using assms by (simp add: num_coarse_for_version_def)
qed

text \<open>A cell of version 3 never has more fine centroids than fit one L1 segment, so no L2 segment is written.\<close>

lemma build_l2_none: "build_l2 sid version c g (num_fine_for_version n version) fv st = Inr st"
proof -
  have "\<not> (ANN_VERSION_V3 \<le> version \<and> L2_SPLIT_FINE_THRESHOLD < num_fine_for_version n version)"
    by (auto simp: num_fine_for_version_def num_fine_v3_def MAX_FINE_PER_COARSE_V3_def L2_SPLIT_FINE_THRESHOLD_def min_def)
  then show ?thesis unfolding build_l2_def by (rule if_not_P)
qed

section \<open>Cells\<close>

lemma assigned_less:
  assumes "0 < length cs"
  shows "fm_get0 (assign_to_centroids pairs cs metr) i < length cs"
proof -
  have "fmlookup (fold (\<lambda>(i, v). fmupd i (nearest_centroid_id v cs metr)) pairs m) i = Some n \<Longrightarrow>
      (\<forall>j n. fmlookup m j = Some n \<longrightarrow> n < length cs) \<Longrightarrow> n < length cs" for m n
  proof (induction pairs arbitrary: m)
    case (Cons p ps)
    obtain j v where p: "p = (j, v)" by (cases p)
    have "nearest_centroid_id v cs metr < length cs" using assms by (simp add: nearest_centroid_id_less)
    then show ?case using Cons.prems by (intro Cons.IH [of "fmupd j (nearest_centroid_id v cs metr) m"]) (simp_all add: p)
  qed simp
  from this [of fmempty] show ?thesis
    using assms by (auto simp: fm_get0_def assign_to_centroids_def split: option.splits)
qed

lemma collect_pairs_dims:
  "collect_pairs W field docs dim = (ps, dim') \<Longrightarrow>
   (\<forall>p \<in> set ps. length (snd p) = dim' \<and> snd p \<noteq> []) \<and> (0 < dim \<longrightarrow> dim' = dim) \<and> (ps = [] \<longrightarrow> dim' = dim)"
proof (induction docs arbitrary: dim ps)
  case (Cons x docs)
  obtain i d where x: "x = (i, d)" by (cases x)
  show ?case
  proof (cases "extract_vector W (attributes d) field")
    case (Inl e)
    then show ?thesis using Cons.IH Cons.prems by (simp add: x)
  next
    case (Inr v)
    show ?thesis
    proof (cases "v = [] \<or> (dim \<noteq> 0 \<and> length v \<noteq> dim)")
      case True
      then have "collect_pairs W field docs dim = (ps, dim')" using Cons.prems by (auto simp: x Inr split: if_splits)
      then show ?thesis by (rule Cons.IH)
    next
      case False
      obtain ps1 where ps1: "collect_pairs W field docs (if dim = 0 then length v else dim) = (ps1, dim')" "ps = (i, v) # ps1"
        using Cons.prems False by (auto simp: x Inr Let_def split: prod.splits if_splits)
      then show ?thesis using Cons.IH [OF ps1(1)] False by auto
    qed
  qed
qed simp

lemma fold_ok_append: "fold_ok f (xs @ ys) s = and_then (fold_ok f xs s) (fold_ok f ys)"
proof (induction xs arbitrary: s)
  case (Cons x xs)
  then show ?case by (cases "f x s") simp_all
qed simp

lemma place_docs_members:
  "index_members (place_docs W sid el g as cell cl) =
     index_members cl + mset (map (\<lambda>(i, v). from_values W i v el) cell)"
  unfolding place_docs_def
  by (induction cell arbitrary: cl) (auto simp: index_members_extend split: prod.splits)

lemma place_docs_dom:
  "fset (fmdom (place_docs W sid el g as cell cl)) = fset (fmdom cl) \<union> (\<lambda>(i, v). g + fm_get0 as i) ` set cell"
  unfolding place_docs_def
  by (induction cell arbitrary: cl) (auto simp: fmdom_extend split: prod.splits)

text \<open>The state of the build after the first \<open>c\<close> of \<open>k\<close> cells.\<close>

definition built_to ::
  "'z wire_scheme \<Rightarrow> vector_element \<Rightarrow> nat \<Rightarrow> nat \<Rightarrow> (nat \<Rightarrow> (string \<times> f64 list) list) \<Rightarrow> nat \<Rightarrow> build_state \<Rightarrow> bool" where
  "built_to W el version k cells c st \<longleftrightarrow>
     length (bd_fine_counts st) = k \<and>
     (\<forall>j < c. bd_fine_counts st ! j = num_fine_for_version (length (cells j)) version) \<and>
     (\<forall>j. l1_sizes (bd_l1 st) j = (if j < c then Some (bd_fine_counts st ! j, bd_fine_counts st ! j) else None)) \<and>
     bd_global_start st = sum_list (take c (bd_fine_counts st)) \<and> bd_l2 st = fmempty \<and>
     index_members (bd_clusters st) = (\<Sum>j \<leftarrow> [0..<c]. mset (map (\<lambda>(i, v). from_values W i v el) (cells j))) \<and>
     (\<forall>f \<in> fset (fmdom (bd_clusters st)). f < bd_global_start st)"

lemma build_cell_step:
  assumes inv: "built_to W el version k cells c st" and c: "c < k" and dims: "\<forall>p \<in> set (cells c). length (snd p) = dim"
  shows "\<exists>st'. build_cell W sid metr version dim el cells c st = Inr st' \<and> built_to W el version k cells (Suc c) st'"
proof -
  define kf where "kf = num_fine_for_version (length (cells c)) version"
  have kf: "kf \<le> length (cells c)" "0 < length (cells c) \<Longrightarrow> 1 \<le> kf"
    using num_fine_range [of "length (cells c)" version] by (auto simp: kf_def)
  have "\<exists>fv. (if cells c = [] then Inr [] else kmeans_centroids (cells c) kf dim metr) = Inr fv \<and> length fv = kf"
  proof (cases "cells c = []")
    case False
    then show ?thesis using kmeans_ok [OF dims kf(2), of metr] kf(1) by (auto simp: centroids_ok_def)
  qed (use kf in simp)
  then obtain fv where fv: "(if cells c = [] then Inr [] else kmeans_centroids (cells c) kf dim metr) = Inr fv" "length fv = kf"
    by blast
  define as where "as = assign_to_centroids (cells c) fv metr"
  define st1 where "st1 = st\<lparr>bd_fine_counts := (bd_fine_counts st)[c := kf],
    bd_l1 := fmupd c \<lparr>l1_segment_id = sid, l1_coarse_id = c, l1_global_id_start = bd_global_start st,
                      l1_num_fine = length fv, l1_centroids = fv\<rparr> (bd_l1 st)\<rparr>"
  define st2 where "st2 = st1\<lparr>bd_clusters := place_docs W sid el (bd_global_start st) as (cells c) (bd_clusters st1),
    bd_global_start := bd_global_start st + kf\<rparr>"
  have run: "build_cell W sid metr version dim el cells c st = Inr st2"
    unfolding build_cell_def Let_def kf_def [symmetric] fv(1) and_then.simps st1_def [symmetric]
    by (simp add: kf_def build_l2_none) (simp add: st2_def as_def kf_def)
  have placed: "\<forall>p \<in> set (cells c). fm_get0 as (fst p) < kf"
  proof
    fix p
    assume "p \<in> set (cells c)"
    then have "0 < kf" using kf(2) by (cases "cells c") auto
    then show "fm_get0 as (fst p) < kf" using assigned_less [of fv "cells c" metr "fst p"] by (simp add: as_def fv(2))
  qed
  have len: "length (bd_fine_counts st) = k" using inv by (simp add: built_to_def)
  have take: "take (Suc c) ((bd_fine_counts st)[c := kf]) = take c (bd_fine_counts st) @ [kf]"
    using c len by (simp add: take_Suc_conv_app_nth)
  have "built_to W el version k cells (Suc c) st2"
    unfolding built_to_def st2_def st1_def
    using inv c placed
    by (auto simp: built_to_def take nth_list_update l1_sizes_upd fv(2) place_docs_members place_docs_dom less_Suc_eq
        simp flip: kf_def split: prod.splits)
  then show ?thesis using run by blast
qed

lemma build_cells:
  assumes dims: "\<forall>j < k. \<forall>p \<in> set (cells j). length (snd p) = dim" and n: "c \<le> k"
  shows "\<exists>st. fold_ok (build_cell W sid metr version dim el cells) [0..<c]
      \<lparr>bd_l1 = fmempty, bd_clusters = fmempty, bd_l2 = fmempty, bd_l2_counts = replicate k 0,
       bd_fine_counts = replicate k 0, bd_global_start = 0\<rparr> = Inr st \<and> built_to W el version k cells c st"
  using n
proof (induction c)
  case 0
  show ?case by (simp add: built_to_def l1_sizes_def index_members_def)
next
  case (Suc c)
  then obtain st where "fold_ok (build_cell W sid metr version dim el cells) [0..<c]
      \<lparr>bd_l1 = fmempty, bd_clusters = fmempty, bd_l2 = fmempty, bd_l2_counts = replicate k 0,
       bd_fine_counts = replicate k 0, bd_global_start = 0\<rparr> = Inr st" "built_to W el version k cells c st"
    by auto
  moreover have "\<exists>st'. build_cell W sid metr version dim el cells c st = Inr st' \<and> built_to W el version k cells (Suc c) st'"
    using dims Suc.prems by (intro build_cell_step [OF calculation(2)]) (simp_all add: Suc_le_eq)
  ultimately show ?case by (auto simp: fold_ok_append)
qed

section \<open>The whole build\<close>

lemma sum_image_mset: "(\<Sum>j \<leftarrow> xs. image_mset f (g j)) = image_mset f (\<Sum>j \<leftarrow> xs. g j)"
  by (induction xs) simp_all

lemma sum_size: "(\<Sum>j \<leftarrow> xs. size (g j)) = size (\<Sum>j \<leftarrow> xs. g j)" for g :: "nat \<Rightarrow> 'a multiset"
  by (induction xs) simp_all

lemma cells_partition:
  assumes "\<And>i. fm_get0 as i < k"
  shows "(\<Sum>j \<leftarrow> [0..<k]. mset (group_by_coarse as pairs j)) = mset pairs"
  using mset_buckets [of "\<lambda>p. fm_get0 as (fst p)" k pairs] assms by (simp add: group_by_coarse_def case_prod_unfold)

lemma built_vindex_ok:
  assumes st: "built_to W el version k cells k st" and part: "(\<Sum>j \<leftarrow> [0..<k]. mset (cells j)) = mset pairs"
    and dims: "\<forall>p \<in> set pairs. length (snd p) = dim"
    and l0: "l0_num_coarse (vi_l0 vi) = k" "l0_fine_counts (vi_l0 vi) = bd_fine_counts st" "length (l0_centroids (vi_l0 vi)) = k"
      "l0_num_fine_total (vi_l0 vi) = bd_global_start st" "l0_dimensions (vi_l0 vi) = dim"
    and vi: "vi_l1 vi = bd_l1 st" "vi_clusters vi = bd_clusters st"
  shows "vindex_ok W vi \<and> index_members (vi_clusters vi) = mset (map (\<lambda>(i, v). from_values W i v el) pairs) \<and>
    l0_num_fine_total (vi_l0 vi) \<le> length pairs"
proof -
  have len: "length (bd_fine_counts st) = k" using st by (simp add: built_to_def)
  have total: "bd_global_start st = sum_list (bd_fine_counts st)" using st len by (simp add: built_to_def)
  have mem: "index_members (vi_clusters vi) = mset (map (\<lambda>(i, v). from_values W i v el) pairs)"
    using st part by (simp add: built_to_def vi(2) sum_image_mset)
  have "\<forall>m \<in># index_members (vi_clusters vi). length (member_as_f64 W m dim) = dim"
    using dims from_values_dims [of W _ _ el] by (auto simp: mem)
  then have "vindex_ok W vi"
    using st len total by (simp add: vindex_ok_def shape_ok_sizes l0 vi) (simp add: built_to_def)
  moreover have "sum_list (bd_fine_counts st) \<le> (\<Sum>j \<leftarrow> [0..<k]. size (mset (cells j)))"
  proof -
    have "bd_fine_counts st = map (\<lambda>j. num_fine_for_version (length (cells j)) version) [0..<k]"
      using st by (intro nth_equalityI) (auto simp: built_to_def)
    moreover have "(\<Sum>j \<leftarrow> [0..<k]. num_fine_for_version (length (cells j)) version) \<le> (\<Sum>j \<leftarrow> [0..<k]. size (mset (cells j)))"
      using num_fine_range by (intro sum_list_mono) simp
    ultimately show ?thesis by simp
  qed
  ultimately show ?thesis using mem total unfolding sum_size part by (simp add: l0)
qed

lemma small_build_filled:
  assumes st: "built_to W el version k cells k st" and part: "(\<Sum>j \<leftarrow> [0..<k]. mset (cells j)) = mset pairs"
    and ne: "pairs \<noteq> []" and k: "k = num_coarse_for_version (length pairs) version'"
  shows "32 < length pairs \<or> list_all (\<lambda>n. 0 < n) (bd_fine_counts st)"
proof (cases "32 < length pairs")
  case False
  then have k1: "k = 1"
    using ne by (simp add: k num_coarse_for_version_def num_coarse_v2_def num_coarse_v3_def)
  then have "mset (cells 0) = mset pairs" using part by simp
  then have "0 < length (cells 0)" using ne by (cases "cells 0") auto
  moreover obtain n where n: "bd_fine_counts st = [n]"
    using st k1 by (auto simp: built_to_def length_Suc_conv)
  ultimately show ?thesis
    using st num_fine_range [of "length (cells 0)" version] k1 by (simp add: built_to_def)
qed simp

text \<open>
  C20. Building the index of a vector field never fails.  It yields nothing exactly when no document
  has a usable vector; otherwise a valid index of that field whose members are exactly the usable
  vectors, one for each, with at most as many fine centroids as vectors and without the second
  routing level.  With at most 32 vectors every coarse cell has a fine centroid, so that the index
  can take deltas.
\<close>

theorem build_indexes_every_vector:
  "\<exists>r pairs dim. collect_pairs W field docs 0 = (pairs, dim) \<and>
    vindex_build W sid field metr docs sch bld = Inr r \<and> (r = None \<longleftrightarrow> pairs = []) \<and>
    (pairs = [] \<or>
     (\<exists>vi. r = Some vi \<and> vindex_ok W vi \<and>
        index_members (vi_clusters vi) =
          mset (map (\<lambda>(i, v). from_values W i v (vector_element_for_field sch field)) pairs) \<and>
        l0_dimensions (vi_l0 vi) = dim \<and> l0_vector_field (vi_l0 vi) = field \<and> l0_distance_metric (vi_l0 vi) = metr \<and>
        l0_vector_element (vi_l0 vi) = vector_element_for_field sch field \<and>
        l0_num_fine_total (vi_l0 vi) \<le> length pairs \<and> vi_l2 vi = fmempty \<and>
        (32 < length pairs \<or> in_service W vi)))"
proof -
  obtain pairs dim where pd: "collect_pairs W field docs 0 = (pairs, dim)" by (cases "collect_pairs W field docs 0")
  note dims = collect_pairs_dims [OF pd]
  show ?thesis
  proof (cases "pairs = []")
    case True
    then show ?thesis by (auto simp: pd vindex_build_def Let_def)
  next
    case False
    define version where "version = ab_ann_version bld"
    define el where "el = vector_element_for_field sch field"
    define k where "k = num_coarse_for_version (length pairs) version"
    have k: "1 \<le> k" "k \<le> length pairs" using num_coarse_range [of "length pairs" version] False by (auto simp: k_def)
    obtain cv where cv: "kmeans_centroids pairs k dim metr = Inr cv" "length cv = k"
      using kmeans_ok [of pairs dim k metr] dims k by (auto simp: centroids_ok_def)
    define as where "as = assign_to_centroids pairs cv metr"
    define cells where "cells = group_by_coarse as pairs"
    have "fm_get0 as i < k" for i using assigned_less [of cv pairs metr i] k cv(2) by (simp add: as_def)
    from cells_partition [OF this] have part: "(\<Sum>j \<leftarrow> [0..<k]. mset (cells j)) = mset pairs" by (simp add: cells_def)
    have "\<forall>j < k. \<forall>p \<in> set (cells j). length (snd p) = dim" using dims by (auto simp: cells_def group_by_coarse_def)
    from build_cells [OF this order_refl] obtain st where st:
      "fold_ok (build_cell W sid metr version dim el cells) [0..<k]
         \<lparr>bd_l1 = fmempty, bd_clusters = fmempty, bd_l2 = fmempty, bd_l2_counts = replicate k 0,
          bd_fine_counts = replicate k 0, bd_global_start = 0\<rparr> = Inr st" "built_to W el version k cells k st"
      by blast
    obtain vi where vi: "vindex_build W sid field metr docs sch bld = Inr (Some vi)"
      "l0_num_coarse (vi_l0 vi) = k" "l0_fine_counts (vi_l0 vi) = bd_fine_counts st" "l0_centroids (vi_l0 vi) = cv"
      "l0_num_fine_total (vi_l0 vi) = bd_global_start st" "l0_dimensions (vi_l0 vi) = dim"
      "l0_vector_field (vi_l0 vi) = field" "l0_distance_metric (vi_l0 vi) = metr" "l0_vector_element (vi_l0 vi) = el"
      "vi_l1 vi = bd_l1 st" "vi_clusters vi = bd_clusters st" "vi_l2 vi = bd_l2 st"
      using False
      by (simp add: vindex_build_def Let_def pd cv(1) st(1) flip: version_def el_def k_def as_def cells_def)
    have ok: "vindex_ok W vi \<and> index_members (vi_clusters vi) = mset (map (\<lambda>(i, v). from_values W i v el) pairs) \<and>
        l0_num_fine_total (vi_l0 vi) \<le> length pairs"
      using dims by (intro built_vindex_ok [OF st(2) part]) (simp_all add: vi cv(2))
    have "32 < length pairs \<or> in_service W vi"
      using ok cv(2) k small_build_filled [OF st(2) part False k_def] by (auto simp: in_service_def cells_filled_def vi)
    moreover have "vi_l2 vi = fmempty" using st(2) by (simp add: vi built_to_def)
    ultimately show ?thesis
      using False by (intro exI [of _ "Some vi"] exI [of _ pairs] exI [of _ dim])
        (simp add: pd vi(1) conjunct1 [OF ok] conjunct1 [OF conjunct2 [OF ok]] conjunct2 [OF conjunct2 [OF ok]]
          vi(6-9) del: mset_map flip: el_def)
  qed
qed

end
