(* ===== verification/Vector_Query_Correct.thy ===== *)
theory Vector_Query_Correct
  imports Vector_Build_Correct
begin

text \<open>
  Queries on a vector index: the number of clusters a query reads, exactness on small indexes,
  and a case in which a vector cannot be found.
\<close>

section \<open>Probes\<close>

lemma probe_cell_no_l2: "probe_cell l0 l1s routing fmempty q = (\<lambda>c. probe_l1 l0 l1s c q)"
  by (rule ext) (simp add: probe_cell_def Let_def)

lemma probe_no_l2: "vi_l2 vi = fmempty \<Longrightarrow>
  probe_fine_centroids vi q =
    (if length q \<noteq> l0_dimensions (vi_l0 vi) then []
     else remdups (sort (concat (map (\<lambda>c. probe_l1 (vi_l0 vi) (vi_l1 vi) c q)
       (nearest_coarse (vi_l0 vi) q (probe_coarse_count (vi_l0 vi)))))))"
  by (simp add: probe_fine_centroids_def probe_fine_centroids_parts_def probe_cell_no_l2)

lemma top_m_all:
  assumes "length cs \<le> m"
  shows "set (top_m_centroids cs q metr m) = {..<length cs}"
proof (cases "cs = []")
  case False
  let ?xs = "map (\<lambda>(i, c). (i, score_vector q c metr)) (List.enumerate 0 cs)"
  have t: "take (min m (length cs)) (sort_by score_cmp ?xs) = sort_by score_cmp ?xs"
    using assms by simp
  show ?thesis
    unfolding top_m_centroids_def if_not_P [OF False] t
    unfolding set_map set_sort_by image_image case_prod_unfold fst_conv
    using enumerate_fst [of 0 cs] by (simp add: atLeast0LessThan)
qed (simp add: top_m_centroids_def)

lemma locate_total: "off \<le> f \<Longrightarrow> f < off + sum_list ns \<Longrightarrow> \<exists>x. locate f off c ns = Some x"
  by (induction ns arbitrary: off c) (auto simp: not_less)

lemma probe_l1_range:
  assumes ok: "vindex_ok W vi" and c: "c < l0_num_coarse (vi_l0 vi)"
  shows "set (probe_l1 (vi_l0 vi) (vi_l1 vi) c q) \<subseteq> {..<l0_num_fine_total (vi_l0 vi)}"
proof -
  obtain l1 where l1: "fmlookup (vi_l1 vi) c = Some l1" "length (l1_centroids l1) = fine_count (vi_l0 vi) c"
    using l1_lookup [OF ok c] by metis
  show ?thesis
    using top_m_subset [of "l1_centroids l1" q] global_in_range [OF ok c] l1(2)
    by (fastforce simp: probe_l1_def l1(1) l1_nearest_fine_def)
qed

lemma probes_in_range:
  assumes ok: "vindex_ok W vi" and l2: "vi_l2 vi = fmempty"
  shows "set (probe_fine_centroids vi q) \<subseteq> {..<l0_num_fine_total (vi_l0 vi)}"
proof -
  have "set (nearest_coarse (vi_l0 vi) q n) \<subseteq> {..<l0_num_coarse (vi_l0 vi)}" for n
    using top_m_subset [of "l0_centroids (vi_l0 vi)"] ok by (simp add: nearest_coarse_def vindex_ok_def shape_ok_def)
  then have "set (probe_l1 (vi_l0 vi) (vi_l1 vi) c q) \<subseteq> {..<l0_num_fine_total (vi_l0 vi)}"
    if "c \<in> set (nearest_coarse (vi_l0 vi) q n)" for c n
    using that by (intro probe_l1_range [OF ok]) auto
  then show ?thesis by (simp add: probe_no_l2 [OF l2]) blast
qed

lemma small_probes_all:
  assumes ok: "vindex_ok W vi" and l2: "vi_l2 vi = fmempty" and small: "l0_num_fine_total (vi_l0 vi) \<le> 32"
    and q: "length q = l0_dimensions (vi_l0 vi)"
  shows "set (probe_fine_centroids vi q) = {..<l0_num_fine_total (vi_l0 vi)}"
proof
  show "{..<l0_num_fine_total (vi_l0 vi)} \<subseteq> set (probe_fine_centroids vi q)"
  proof
    fix f
    assume "f \<in> {..<l0_num_fine_total (vi_l0 vi)}"
    then obtain c l where loc: "coarse_local_from_global vi f = Some (c, l)"
      using locate_total [of 0 f "l0_fine_counts (vi_l0 vi)" 0] ok
      by (auto simp: coarse_local_from_global_def vindex_ok_def shape_ok_def)
    note lc = located [OF ok loc]
    obtain l1 where l1: "fmlookup (vi_l1 vi) c = Some l1" "l1_num_fine l1 = fine_count (vi_l0 vi) c"
      "length (l1_centroids l1) = fine_count (vi_l0 vi) c"
      using l1_lookup [OF ok lc(1)] by metis
    have "c \<in> set (nearest_coarse (vi_l0 vi) q (probe_coarse_count (vi_l0 vi)))"
      using lc(1) top_m_all [of "l0_centroids (vi_l0 vi)" "probe_coarse_count (vi_l0 vi)" q] ok small
      by (simp add: nearest_coarse_def probe_coarse_count_def vindex_ok_def shape_ok_def)
    moreover have "l \<in> set (l1_nearest_fine l1 q (l0_distance_metric (vi_l0 vi)) (probe_fine_count (vi_l0 vi) l1))"
      using lc(2) l1 small top_m_all [of "l1_centroids l1" "probe_fine_count (vi_l0 vi) l1" q]
      by (simp add: l1_nearest_fine_def probe_fine_count_def probe_fine_count_for_num_fine_def)
    ultimately show "f \<in> set (probe_fine_centroids vi q)"
      using q by (auto simp: probe_no_l2 [OF l2] probe_l1_def l1(1) lc(3) intro!: bexI [of _ c])
  qed
qed (rule probes_in_range [OF ok l2])

section \<open>The probe cap\<close>

lemma room_bound: "0 < c \<Longrightarrow> 2 * c + 4 \<le> cap \<Longrightarrow> c + c * fine_room cap c + 4 \<le> cap"
proof -
  assume c: "0 < c" and cap: "2 * c + 4 \<le> cap"
  have "c \<le> cap - 4 - c" using cap by simp
  then have "1 \<le> (cap - 4 - c) div c" using div_le_mono [of c "cap - 4 - c" c] c by simp
  then have "fine_room cap c = (cap - 4 - c) div c" using c by (simp add: fine_room_def max_def)
  then have "c * fine_room cap c \<le> cap - 4 - c" by (simp only: times_div_less_eq_dividend)
  then show ?thesis using cap by linarith
qed

lemma clamp_widths:
  assumes cap: "8 \<le> cap" and run: "clamp_probe_widths_to_cluster_cap c0 f0 cap = (c, f)"
  shows "1 \<le> c \<and> 1 \<le> f \<and> c \<le> max c0 1 \<and> f \<le> max f0 1 \<and> c + c * f + 4 \<le> cap"
proof (cases "cluster_get_upper_bound_for_probes (max c0 1) (max f0 1) \<le> cap")
  case True
  then show ?thesis
    using run by (auto simp: clamp_probe_widths_to_cluster_cap_def cluster_get_upper_bound_for_probes_def Let_def)
next
  case False
  define c1 where "c1 = min (max c0 1) (max ((cap - 4) div 2) 1)"
  define f1 where "f1 = max (min (max f0 1) (fine_room cap c1)) 1"
  have c: "0 < c1" "2 * c1 + 4 \<le> cap" "c1 \<le> max c0 1" using cap by (auto simp: c1_def)
  have "1 \<le> fine_room cap c1" by (simp add: fine_room_def)
  then have f: "f1 \<le> fine_room cap c1" "f1 \<le> max f0 1" "1 \<le> f1" by (auto simp: f1_def)
  have "c1 * f1 \<le> c1 * fine_room cap c1" by (rule mult_le_mono2 [OF f(1)])
  then have b: "c1 + c1 * f1 + 4 \<le> cap" using room_bound [OF c(1,2)] by linarith
  then have "cluster_get_upper_bound_for_probes c1 f1 \<le> cap"
    using c(1) f(3) by (simp add: cluster_get_upper_bound_for_probes_def Let_def max_absorb1)
  then have "(c, f) = (c1, f1)"
    using run False unfolding clamp_probe_widths_to_cluster_cap_def Let_def c1_def [symmetric] f1_def [symmetric] by simp
  then show ?thesis using b f c by auto
qed

lemma clamped_plan:
  assumes "\<not> l0_num_fine_total l0 \<le> 32"
  shows "max (l0_probe_coarse (clamp_probe_plan_for_query env l0)) 1 + max (l0_probe_coarse (clamp_probe_plan_for_query env l0)) 1 *
      max (l0_probe_fine (clamp_probe_plan_for_query env l0)) 1 + 4 \<le> ann_max_probe_clusters env \<and>
    l0_probe_coarse (clamp_probe_plan_for_query env l0) \<le> max (l0_probe_coarse l0) 1 \<and>
    l0_probe_fine (clamp_probe_plan_for_query env l0) \<le> max (l0_probe_fine l0) 1"
proof -
  define cap where "cap = ann_max_probe_clusters env"
  define c0 where "c0 = max (l0_probe_coarse l0) 1"
  define f0 where "f0 = max (l0_probe_fine l0) 1"
  have cap: "8 \<le> cap" by (auto simp: cap_def ann_max_probe_clusters_def DEFAULT_ANN_MAX_PROBE_CLUSTERS_def split: option.splits)
  obtain c f where cf: "clamp_probe_widths_to_cluster_cap c0 f0 cap = (c, f)"
    by (cases "clamp_probe_widths_to_cluster_cap c0 f0 cap")
  note w = clamp_widths [OF cap cf]
  have run: "clamp_probe_plan_for_query env l0 =
      (if c \<noteq> c0 \<or> f \<noteq> f0 then l0\<lparr>l0_probe_coarse := c, l0_probe_fine := f\<rparr> else l0)"
    using assms unfolding clamp_probe_plan_for_query_def Let_def c0_def [symmetric] f0_def [symmetric] cap_def [symmetric] cf by simp
  show ?thesis
  proof (cases "c \<noteq> c0 \<or> f \<noteq> f0")
    case True
    then show ?thesis using w unfolding run cap_def [symmetric] by (simp add: max_absorb1 c0_def f0_def)
  next
    case False
    then have "max (l0_probe_coarse l0) 1 = c" "max (l0_probe_fine l0) 1 = f" by (auto simp: c0_def f0_def)
    moreover have "c + c * f + 4 \<le> cap" using w by blast
    ultimately show ?thesis using False unfolding run cap_def [symmetric] by (auto simp: c0_def f0_def)
  qed
qed

lemma length_concat_le: "(\<And>x. x \<in> set xs \<Longrightarrow> length (g x) \<le> n) \<Longrightarrow> length (concat (map g xs)) \<le> length xs * n"
  by (induction xs) (auto intro: add_mono)

lemma probes_le:
  assumes l2: "vi_l2 vi = fmempty" and big: "\<not> l0_num_fine_total (vi_l0 vi) \<le> 32"
  shows "length (probe_fine_centroids vi q) \<le> max (l0_probe_coarse (vi_l0 vi)) 1 * max (l0_probe_fine (vi_l0 vi)) 1"
proof -
  let ?l0 = "vi_l0 vi"
  let ?cs = "nearest_coarse ?l0 q (probe_coarse_count ?l0)"
  have one: "length (probe_l1 ?l0 (vi_l1 vi) c q) \<le> max (l0_probe_fine ?l0) 1" for c
    using big by (auto simp: probe_l1_def l1_nearest_fine_def length_top_m probe_fine_count_def
        probe_fine_count_for_num_fine_def split: option.splits)
  have "length (probe_fine_centroids vi q) \<le> length (concat (map (\<lambda>c. probe_l1 ?l0 (vi_l1 vi) c q) ?cs))"
    unfolding probe_no_l2 [OF l2] by (auto intro: order_trans [OF length_remdups_leq])
  also have "\<dots> \<le> length ?cs * max (l0_probe_fine ?l0) 1" by (rule length_concat_le) (rule one)
  also have "length ?cs \<le> max (l0_probe_coarse ?l0) 1"
    using big by (auto simp: nearest_coarse_def length_top_m probe_coarse_count_def)
  finally show ?thesis by (simp add: mult_le_mono1)
qed



section \<open>Ranking\<close>

lemma sorted_wrt_unique:
  assumes "sorted_wrt R xs" "sorted_wrt R ys" "distinct xs" "distinct ys" "set xs = set ys"
    and "\<And>a b. a \<in> set xs \<Longrightarrow> b \<in> set xs \<Longrightarrow> R a b \<Longrightarrow> R b a \<Longrightarrow> a = b"
  shows "xs = ys"
  using assms
proof (induction xs arbitrary: ys)
  case (Cons x xs)
  then obtain y ys' where ys: "ys = y # ys'" by (cases ys) auto
  have "x = y"
  proof (rule ccontr)
    assume "x \<noteq> y"
    then have "R x y" "R y x" using Cons.prems(1,2,5) unfolding ys by auto
    then show False using Cons.prems(5,6) \<open>x \<noteq> y\<close> unfolding ys by (metis list.set_intros(1))
  qed
  moreover have "set xs = set ys'"
    using Cons.prems(3,4,5) \<open>x = y\<close> unfolding ys by (metis distinct.simps(2) insert_ident list.simps(15))
  then have "xs = ys'"
    using Cons.prems unfolding ys by (intro Cons.IH) auto
  ultimately show ?case by (simp add: ys)
qed simp

lemma score_cmp_antisym:
  assumes "snd a \<noteq> NaN" "snd b \<noteq> NaN" "score_cmp a b \<noteq> Greater" "score_cmp b a \<noteq> Greater"
  shows "fst a = fst b"
proof -
  obtain p q where "f64_pos (snd a) = Some p" "f64_pos (snd b) = Some q" using assms(1,2) f64_pos_some by metis
  note sc = score_cmp_Greater [OF this] score_cmp_Greater [OF this(2,1)]
  from assms(3,4) show ?thesis unfolding sc by (metis linorder_less_linear)
qed

definition ranked_list :: "('k::linorder \<times> f64) list \<Rightarrow> bool" where
  "ranked_list xs \<longleftrightarrow> distinct (map fst xs) \<and> (\<forall>x \<in> set xs. snd x \<noteq> NaN)"

lemma rank_unique:
  assumes "ranked_list xs" "set xs = set ys" "sorted_wrt (\<lambda>a b. score_cmp a b \<noteq> Greater) ys" "distinct ys"
  shows "sort_by score_cmp xs = ys"
proof (rule sorted_wrt_unique)
  show "sorted_wrt (\<lambda>a b. score_cmp a b \<noteq> Greater) (sort_by score_cmp xs)"
    using assms(1) by (intro sorted_sort_by total_score_cmp) (auto simp: ranked_list_def)
  show "distinct (sort_by score_cmp xs)"
    using assms(1) distinct_sort_by [of id score_cmp xs] by (simp add: ranked_list_def distinct_map)
  show "set (sort_by score_cmp xs) = set ys" using assms(2) by simp
  fix a b
  assume "a \<in> set (sort_by score_cmp xs)" "b \<in> set (sort_by score_cmp xs)"
    "score_cmp a b \<noteq> Greater" "score_cmp b a \<noteq> Greater"
  then show "a = b"
    using score_cmp_antisym [of a b] assms(1) by (auto simp: ranked_list_def distinct_map inj_on_def)
qed (rule assms)+

lemma rank_filter:
  assumes "ranked_list xs" "set ys = {x \<in> set xs. P x}" "distinct (map fst ys)"
  shows "sort_by score_cmp ys = filter P (sort_by score_cmp xs)"
proof (rule rank_unique)
  show "ranked_list ys" using assms by (auto simp: ranked_list_def)
  show "set ys = set (filter P (sort_by score_cmp xs))" using assms(2) by auto
  show "sorted_wrt (\<lambda>a b. score_cmp a b \<noteq> Greater) (filter P (sort_by score_cmp xs))"
    using assms(1) by (intro sorted_wrt_filter sorted_sort_by total_score_cmp) (auto simp: ranked_list_def)
  show "distinct (filter P (sort_by score_cmp xs))"
    using assms(1) distinct_sort_by [of id score_cmp xs] by (simp add: ranked_list_def distinct_map)
qed

lemma take_of_filter: "\<forall>x \<in> set (take k s). P x \<Longrightarrow> take k (filter P s) = take k s"
  by (induction s arbitrary: k) (auto split: nat.splits simp: take_Cons)

lemma in_take_filter: "x \<in> set (take k s) \<Longrightarrow> P x \<Longrightarrow> x \<in> set (take k (filter P s))"
proof -
  assume x: "x \<in> set (take k s)" "P x"
  have "filter P s = filter P (take k s) @ filter P (drop k s)"
    by (metis append_take_drop_id filter_append)
  moreover have "length (filter P (take k s)) \<le> k" by (rule order_trans [OF length_filter_le]) simp
  ultimately show ?thesis using x by simp
qed

text \<open>The best of each part, ranked together: the cut-off of a part does not matter if it is at least that of the whole.\<close>

lemma top_k_of_parts:
  fixes parts :: "('k::linorder \<times> f64) list list"
  assumes all: "ranked_list (concat parts)" and n: "k \<le> n"
    and es: "set es = set (concat (map (\<lambda>p. take n (sort_by score_cmp p)) parts))" "distinct (map fst es)"
  shows "take k (sort_by score_cmp es) = take k (sort_by score_cmp (concat parts))"
proof -
  let ?s = "sort_by score_cmp (concat parts)"
  have kept: "x \<in> set es" if x: "x \<in> set (take k ?s)" for x
  proof -
    have "x \<in> set (concat parts)" using in_set_takeD [OF x] by simp
    then obtain p where p: "p \<in> set parts" "x \<in> set p" by auto
    have "distinct (map fst p)"
      using p(1) all by (auto simp: ranked_list_def map_concat distinct_concat_iff image_iff)
    then have "sort_by score_cmp p = filter (\<lambda>y. y \<in> set p) ?s"
      using p(1) by (intro rank_filter [OF all]) auto
    then have "x \<in> set (take k (sort_by score_cmp p))" using in_take_filter [OF x, of "\<lambda>y. y \<in> set p"] p(2) by simp
    then have "x \<in> set (take n (sort_by score_cmp p))" using set_take_subset_set_take [OF n, of "sort_by score_cmp p"] by blast
    then show ?thesis using p(1) by (auto simp: es(1))
  qed
  have "set (take n (sort_by score_cmp p)) \<subseteq> set p" for p :: "('k \<times> f64) list"
    using set_take_subset [of n "sort_by score_cmp p"] by simp
  then have "set es \<subseteq> set (concat parts)" unfolding es(1) by fastforce
  then have "set es = {x \<in> set (concat parts). x \<in> set es}" by blast
  from rank_filter [OF all this es(2)] show ?thesis
    using take_of_filter [of k ?s "\<lambda>x. x \<in> set es"] kept by simp
qed

section \<open>Exactness\<close>

lemma fold_keep_best:
  "distinct (map fst xs) \<Longrightarrow> (\<And>x. x \<in> set xs \<Longrightarrow> fmlookup m (fst x) = None) \<Longrightarrow>
   fmlookup (fold keep_best xs m) i = (case map_of xs i of Some s \<Rightarrow> Some s | None \<Rightarrow> fmlookup m i)"
proof (induction xs arbitrary: m)
  case (Cons x xs)
  obtain j s where x: "x = (j, s)" by (cases x)
  have "keep_best x m = fmupd j s m" using Cons.prems(2) [of x] by (simp add: x keep_best_def)
  moreover have "fmlookup (fmupd j s m) (fst y) = None" if "y \<in> set xs" for y
    using Cons.prems that by (auto simp: x image_iff)
  moreover have "map_of xs j = None" using Cons.prems(1) by (simp add: x map_of_eq_None_iff)
  ultimately show ?case
    using Cons.IH [of "fmupd j s m"] Cons.prems(1) by (cases "map_of xs i"; cases "i = j") (simp_all add: x)
qed simp

lemma best_entries:
  assumes "distinct (map fst xs)"
  shows "set (fm_entries (fold keep_best xs fmempty)) = set xs"
proof (rule set_eqI)
  fix x :: "string \<times> f64"
  obtain i v where x: "x = (i, v)" by (cases x)
  have "fmlookup (fold keep_best xs fmempty) i = map_of xs i"
    using fold_keep_best [OF assms, of fmempty i] by (simp split: option.splits)
  then show "x \<in> set (fm_entries (fold keep_best xs fmempty)) \<longleftrightarrow> x \<in> set xs"
    unfolding x by (simp add: map_of_eq_Some_iff [OF assms])
qed

definition scored :: "'z wire_scheme \<Rightarrow> vector_index \<Rightarrow> f64 list \<Rightarrow> cluster_member \<Rightarrow> string \<times> f64" where
  "scored W vi q m =
     (cm_doc_id m, score_member W q (l0_distance_metric (vi_l0 vi)) (l0_dimensions (vi_l0 vi)) (l0_vector_element (vi_l0 vi)) m)"

lemma query_ann_parts:
  assumes "length q = l0_dimensions (vi_l0 vi)"
  shows "query_ann W vi q k =
    take k (sort_by score_cmp (fm_entries (fold keep_best
      (concat (map (\<lambda>p. take (k * 4) (sort_by score_cmp p))
        (map (\<lambda>f. map (scored W vi q) (members_at vi f)) (probe_fine_centroids vi q)))) fmempty)))"
proof -
  have "fold (\<lambda>f scores. case fmlookup (vi_clusters vi) f of None \<Rightarrow> scores
        | Some c \<Rightarrow> fold keep_best (score_members W c q (l0_distance_metric (vi_l0 vi)) (k * 4) (l0_dimensions (vi_l0 vi))
            (l0_vector_element (vi_l0 vi))) scores) fs m =
      fold keep_best (concat (map (\<lambda>p. take (k * 4) (sort_by score_cmp p)) (map (\<lambda>f. map (scored W vi q) (members_at vi f)) fs))) m"
    for fs m
    by (induction fs arbitrary: m) (simp_all add: members_at_def scored_def [abs_def] score_members_def sort_by.simps split: option.split)
  then show ?thesis using assms by (simp add: query_ann_def Let_def)
qed

lemma members_listed:
  assumes ok: "vindex_ok W vi" and fs: "distinct fs" "set fs = {..<l0_num_fine_total (vi_l0 vi)}"
  shows "mset (concat (map (members_at vi) fs)) = index_members (vi_clusters vi)"
proof -
  have "mset (concat (map (members_at vi) fs)) = (\<Sum>f \<leftarrow> fs. mset (members_at vi f))"
    by (simp add: mset_concat comp_def)
  also have "\<dots> = (\<Sum>f \<in> {..<l0_num_fine_total (vi_l0 vi)}. mset (members_at vi f))"
    using fs by (simp add: sum_list_distinct_conv_sum_set)
  also have "\<dots> = (\<Sum>f \<in> fset (fmdom (vi_clusters vi)). mset (members_at vi f))"
    using ok by (intro sum.mono_neutral_right) (auto simp: vindex_ok_def members_at_def fmlookup_dom_iff split: option.splits)
  also have "\<dots> = index_members (vi_clusters vi)"
    unfolding index_members_def by (rule sum.cong) (auto simp: members_at_def fmlookup_dom_iff)
  finally show ?thesis .
qed

lemma distinct_kept:
  "distinct (map fst (concat parts)) \<Longrightarrow>
   distinct (map fst (concat (map (\<lambda>p. take n (sort_by score_cmp p)) parts)))"
  for parts :: "('k::linorder \<times> f64) list list"
proof (induction parts)
  case (Cons p parts)
  have sub: "set (take n (sort_by score_cmp p)) \<subseteq> set p" for p :: "('k \<times> f64) list"
    using set_take_subset [of n "sort_by score_cmp p"] by simp
  have "set (concat (map (\<lambda>p. take n (sort_by score_cmp p)) parts)) \<subseteq> set (concat parts)" using sub by fastforce
  moreover have "distinct (map fst (take n (sort_by score_cmp p)))"
    using Cons.prems by (simp add: distinct_take flip: take_map)
  moreover have "fst ` set p \<inter> fst ` set (concat parts) = {}" "distinct (map fst (concat parts))"
    using Cons.prems by simp_all
  ultimately show ?case
    using Cons.IH sub [of p] unfolding list.map concat.simps map_append distinct_append set_map by blast
qed simp

lemma small_query_ranks_all:
  assumes ok: "vindex_ok W vi" and l2: "vi_l2 vi = fmempty" and small: "l0_num_fine_total (vi_l0 vi) \<le> 32"
    and q: "length q = l0_dimensions (vi_l0 vi)"
    and ms: "index_members (vi_clusters vi) = mset ms" and rk: "ranked_list (map (scored W vi q) ms)"
  shows "query_ann W vi q k = take k (sort_by score_cmp (map (scored W vi q) ms))"
proof -
  define fs where "fs = probe_fine_centroids vi q"
  have fs: "distinct fs" "set fs = {..<l0_num_fine_total (vi_l0 vi)}"
    using small_probes_all [OF ok l2 small q] by (simp_all add: fs_def probe_no_l2 [OF l2])
  define parts where "parts = map (\<lambda>f. map (scored W vi q) (members_at vi f)) fs"
  have "concat parts = map (scored W vi q) (concat (map (members_at vi) fs))"
    by (simp add: parts_def map_concat comp_def)
  then have m: "mset (concat parts) = mset (map (scored W vi q) ms)"
    using members_listed [OF ok fs] ms by (metis mset_map)
  then have s: "set (concat parts) = set (map (scored W vi q) ms)" by (rule mset_eq_setD)
  have "mset (map fst (concat parts)) = mset (map fst (map (scored W vi q) ms))" using m by (metis mset_map)
  then have all: "ranked_list (concat parts)"
    using rk s mset_eq_imp_distinct_iff unfolding ranked_list_def by blast
  let ?kept = "concat (map (\<lambda>p. take (k * 4) (sort_by score_cmp p)) parts)"
  have d: "distinct (map fst ?kept)" using all by (intro distinct_kept) (simp add: ranked_list_def)
  have e: "distinct (map fst (fm_entries m))" for m :: "(string, f64) fmap" by (simp add: map_fst_fm_entries)
  have k: "k \<le> k * 4" by simp
  have "set (concat parts) = {x \<in> set (map (scored W vi q) ms). True}" unfolding s by blast
  from rank_filter [OF rk this] have "sort_by score_cmp (concat parts) = sort_by score_cmp (map (scored W vi q) ms)"
    using all unfolding ranked_list_def by (metis filter_True)
  then show ?thesis
    unfolding query_ann_parts [OF q] fs_def [symmetric] parts_def [symmetric]
      top_k_of_parts [OF all k best_entries [OF d] e] by (rule arg_cong)
qed


text \<open>Zero and one are exact.\<close>

lemma f64_of_rat_units [simp]: "f64_of_rat 0 = Fin 0" "f64_of_rat 1 = Fin 1"
proof -
  have "ilog2 1 = 0" by (rule ilog2_unique) (simp_all add: pow2_def)
  then show "f64_of_rat 1 = Fin 1" by (simp add: f64_of_rat_def Let_def pow2_def round_half_even_def)
qed (simp add: f64_of_rat_def)

lemma sample_scores:
  "score_vector [Fin 1] [Fin 0] EuclideanSquared = Fin (- 1)" "score_vector [Fin 1] [Fin 1] EuclideanSquared = NegZero"
  by (simp_all add: score_vector_def score_with_def euclidean_squared_def fp_sub_def fp_add_def fp_mul_def Let_def
      f64_is_inf_def f64_zero_def f64_finite_def)


section \<open>Empty cells\<close>

text \<open>
  C37. A coarse cell can end up without a fine centroid (k-means leaves it without a document).  If
  the coarse centroid nearest to a new vector belongs to such a cell and the cell is the last one,
  the insertion reports success, but puts the vector into the cluster whose number is the total
  number of fine centroids.  No query reads that cluster, not even one for the vector itself, and it
  is not among the clusters that loading the index reads: the document cannot be found.
\<close>

theorem vector_lost_in_empty_cell:
  assumes ok: "vindex_ok W vi" and l2: "vi_l2 vi = fmempty"
    and nearest: "Suc (first_or 0 (nearest_coarse (vi_l0 vi) v 1)) = l0_num_coarse (vi_l0 vi)"
    and empty: "fine_count (vi_l0 vi) (first_or 0 (nearest_coarse (vi_l0 vi) v 1)) = 0"
    and new: "of_doc i (vi_clusters vi) = {#}"
  shows "\<exists>vi'. assign_doc_to_nearest W i v vi = Inr vi' \<and>
    of_doc i (vi_clusters vi') = {#from_values W i v (l0_vector_element (vi_l0 vi))#} \<and>
    i |\<notin>| vector_candidate_doc_ids vi' q \<and>
    (\<forall>f < l0_num_fine_total (vi_l0 vi'). i \<notin> cm_doc_id ` set (members_at vi' f))"
proof -
  define c where "c = first_or 0 (nearest_coarse (vi_l0 vi) v 1)"
  have c: "Suc c = l0_num_coarse (vi_l0 vi)" using nearest unfolding c_def .
  have e: "fine_count (vi_l0 vi) c = 0" using empty unfolding c_def .
  obtain l1 where l1: "fmlookup (vi_l1 vi) c = Some l1" "length (l1_centroids l1) = fine_count (vi_l0 vi) c"
    using l1_lookup [OF ok, of c] c by (metis lessI)
  have sh: "shape_ok (vi_l0 vi) (vi_l1 vi)" using ok by (simp add: vindex_ok_def)
  have "l0_fine_counts (vi_l0 vi) = take c (l0_fine_counts (vi_l0 vi)) @ [0]"
    using sh c e take_Suc_conv_app_nth [of c "l0_fine_counts (vi_l0 vi)"]
    by (auto simp: shape_ok_def fine_count_def)
  then have start: "global_id_start (vi_l0 vi) c = l0_num_fine_total (vi_l0 vi)"
    using sh by (simp add: shape_ok_def global_id_start_def) (metis add.right_neutral sum_list.Cons sum_list.Nil sum_list_append)
  define vi' where "vi' = extend_cluster (l0_num_fine_total (vi_l0 vi)) [from_values W i v (l0_vector_element (vi_l0 vi))] vi"
  have "l1_centroids l1 = []" using l1(2) e by simp
  then have run: "assign_doc_to_nearest W i v vi = Inr vi'"
    unfolding assign_doc_to_nearest_def Let_def c_def [symmetric] l1(1)
    by (simp add: l1_nearest_fine_def top_m_centroids_def first_or_def global_fine_id_def start vi'_def)
  have frame: "vi_l0 vi' = vi_l0 vi" "vi_l1 vi' = vi_l1 vi" "vi_l2 vi' = fmempty" "vi_routing vi' = vi_routing vi"
    by (simp_all add: vi'_def extend_cluster_def l2)
  have old: "i \<notin> cm_doc_id ` set (members_at vi f)" for f
    using new members_at_subset [of vi f] by (auto simp: of_doc_def simp flip: set_mset_eq_empty_iff)
  have at: "members_at vi' f = members_at vi f" if "f < l0_num_fine_total (vi_l0 vi)" for f
    using that by (simp add: members_at_def vi'_def extend_cluster_def cluster_extend_def Let_def)
  have probes: "probe_fine_centroids vi' q = probe_fine_centroids vi q"
    by (simp add: probe_fine_centroids_def frame l2)
  have pool: "vector_candidate_doc_ids vi' q = fset_of_list (concat (map (\<lambda>f. map cm_doc_id (members_at vi' f)) (probe_fine_centroids vi q)))"
    unfolding vector_candidate_doc_ids_def probes by (intro arg_cong [where f = fset_of_list] arg_cong [where f = concat] map_cong)
      (auto simp: members_at_def split: option.splits)
  have "i |\<notin>| vector_candidate_doc_ids vi' q"
    using probes_in_range [OF ok l2, of q] at old by (fastforce simp: pool fset_of_list_elem)
  moreover have "of_doc i (vi_clusters vi') = {#from_values W i v (l0_vector_element (vi_l0 vi))#}"
    using new by (simp add: vi'_def extend_cluster_def of_doc_def index_members_extend)
  ultimately show ?thesis using run at old by (auto simp: frame)
qed

theorem vector_lost_in_empty_cell_witness:
  "\<exists>vi'. assign_doc_to_nearest ref_wire ''b'' [Fin 1] (sample_index []) = Inr vi' \<and>
    of_doc ''b'' (vi_clusters vi') = {#from_values ref_wire ''b'' [Fin 1] F32#} \<and>
    ''b'' |\<notin>| vector_candidate_doc_ids vi' [Fin 1]"
proof -
  have near: "first_or 0 (nearest_coarse (vi_l0 (sample_index [])) [Fin 1] 1) = 1"
    by (simp add: sample_index_def default_l0_def nearest_coarse_def top_m_centroids_def sample_scores
        score_cmp_def f64_partial_cmp_def first_or_def cmp_of_def)
  have "\<exists>vi'. assign_doc_to_nearest ref_wire ''b'' [Fin 1] (sample_index []) = Inr vi' \<and>
    of_doc ''b'' (vi_clusters vi') = {#from_values ref_wire ''b'' [Fin 1] (l0_vector_element (vi_l0 (sample_index [])))#} \<and>
    ''b'' |\<notin>| vector_candidate_doc_ids vi' [Fin 1] \<and>
    (\<forall>f < l0_num_fine_total (vi_l0 vi'). ''b'' \<notin> cm_doc_id ` set (members_at vi' f))"
    by (rule vector_lost_in_empty_cell [OF sample_ok])
      (simp_all only: near, simp_all add: sample_index_def fine_count_def of_doc_def index_members_upd)
  then show ?thesis by (auto simp: sample_index_def default_l0_def)
qed

end
