(* ===== verification/Indexer.thy ===== *)
theory Indexer
  imports Compaction Fts Filter_Index Vector_Query Vector_Maintain
begin

text \<open>
  The background indexer (\<^verbatim>\<open>src/indexer.rs\<close>): loading and writing index segments through the local
  cache, merging a range of the log into the segments, and the compare-and-swap that publishes
  the result.  The bincode encodings are parameters; the in-process commit lock and the sleeps
  have no effect on a single run.  A panic of the vector index ends the task and is an error here.
\<close>

section \<open>Environment\<close>

text \<open>The on-disk form of the coarse table before version 3.\<close>

record centroid_index_l0_legacy =
  lg_segment_id :: u64
  lg_vector_field :: string
  lg_dimensions :: nat
  lg_num_coarse :: nat
  lg_num_fine_total :: nat
  lg_probe_coarse :: nat
  lg_probe_fine :: nat
  lg_distance_metric :: distance_metric
  lg_vector_element :: vector_element
  lg_fine_counts :: "nat list"
  lg_centroids :: "f64 list list"

definition l0_from_legacy :: "centroid_index_l0_legacy \<Rightarrow> centroid_index_l0" where
  "l0_from_legacy g =
     \<lparr>l0_segment_id = lg_segment_id g, l0_vector_field = lg_vector_field g, l0_dimensions = lg_dimensions g,
      l0_num_coarse = lg_num_coarse g, l0_num_fine_total = lg_num_fine_total g,
      l0_probe_coarse = lg_probe_coarse g, l0_probe_fine = lg_probe_fine g,
      l0_distance_metric = lg_distance_metric g, l0_vector_element = lg_vector_element g,
      l0_fine_counts = lg_fine_counts g, l0_centroids = lg_centroids g, l0_ann_version = ANN_VERSION_V2,
      l0_has_routing = False, l0_maintenance_passes = 0\<rparr>"

record ix_codec = ns_codec +
  fts_enc :: "fts_segment \<Rightarrow> bytes option"
  fts_dec :: "bytes \<Rightarrow> fts_segment option"
  filter_enc :: "filter_segment \<Rightarrow> bytes option"
  filter_dec :: "bytes \<Rightarrow> filter_segment option"
  l0_enc :: "centroid_index_l0 \<Rightarrow> bytes option"
  l0_dec :: "bytes \<Rightarrow> centroid_index_l0 option"
  l0_legacy_dec :: "bytes \<Rightarrow> centroid_index_l0_legacy option"
  l1_enc :: "centroid_index_l1 \<Rightarrow> bytes option"
  l1_dec :: "bytes \<Rightarrow> centroid_index_l1 option"
  cluster_enc :: "cluster_segment \<Rightarrow> bytes option"
  cluster_dec :: "bytes \<Rightarrow> cluster_segment option"
  routing_enc :: "centroid_routing \<Rightarrow> bytes option"
  routing_dec :: "bytes \<Rightarrow> centroid_routing option"
  l2_enc :: "centroid_index_l2 \<Rightarrow> bytes option"
  l2_dec :: "bytes \<Rightarrow> centroid_index_l2 option"

record 's ix_env =
  ie_s3 :: "'s s3_client"
  ie_codec :: ix_codec
  ie_policy :: wal_corrupt_policy
  ie_fs :: "string \<Rightarrow> write_outcome"
  ie_fts :: fts_ops
  ie_text :: f64_text
  ie_wire :: wire
  ie_ann :: ann_build_config
  ie_probe_cap :: "nat option"

text \<open>A step reads and changes the local cache and the bucket.\<close>

type_synonym ('s, 'a) cio = "seg_cache \<times> 's \<Rightarrow> 'a res \<times> seg_cache \<times> 's"

definition bind_io :: "('w \<Rightarrow> 'a res \<times> 'w) \<Rightarrow> ('a \<Rightarrow> 'w \<Rightarrow> 'b res \<times> 'w) \<Rightarrow> 'w \<Rightarrow> 'b res \<times> 'w" where
  "bind_io f g w = (case f w of (Inl e, w') \<Rightarrow> (Inl e, w') | (Inr x, w') \<Rightarrow> g x w')"

definition pure_io :: "'a res \<Rightarrow> 'w \<Rightarrow> 'a res \<times> 'w" where
  "pure_io r w = (r, w)"

fun fold_io :: "('a \<Rightarrow> 'b \<Rightarrow> 'w \<Rightarrow> 'b res \<times> 'w) \<Rightarrow> 'a list \<Rightarrow> 'b \<Rightarrow> 'w \<Rightarrow> 'b res \<times> 'w" where
  "fold_io f [] y = pure_io (Inr y)"
| "fold_io f (x # xs) y = bind_io (f x y) (fold_io f xs)"

definition s3_io :: "('s \<Rightarrow> 'a res \<times> 's) \<Rightarrow> ('s, 'a) cio" where
  "s3_io f w = (case f (snd w) of (r, s') \<Rightarrow> (r, fst w, s'))"

definition or_err :: "string \<Rightarrow> 'a option \<Rightarrow> 'a res" where
  "or_err msg x = (case x of None \<Rightarrow> Inl (ErrMsg msg) | Some y \<Rightarrow> Inr y)"

definition of_vfail :: "vfail + 'a \<Rightarrow> 'a res" where
  "of_vfail r = (case r of Inl VPanic \<Rightarrow> Inl (ErrMsg ''panic'') | Inl (VErr e) \<Rightarrow> Inl e | Inr x \<Rightarrow> Inr x)"

section \<open>Reading and writing segments\<close>

definition put_and_cache :: "'s ix_env \<Rightarrow> string \<Rightarrow> bytes \<Rightarrow> ('s, unit) cio" where
  "put_and_cache E key body w =
     (case put_object (ie_s3 E) key body Always (snd w) of
        (Inl e, s') \<Rightarrow> (Inl (S3Failed e), fst w, s')
      | (Inr etag, s') \<Rightarrow> (Inr (), populate_after_put (ie_fs E) (fst w) key body etag, s'))"

definition put_encoded :: "'s ix_env \<Rightarrow> string \<Rightarrow> bytes option \<Rightarrow> ('s, unit) cio" where
  "put_encoded E key body = bind_io (pure_io (or_err ''encode'' body)) (put_and_cache E key)"

definition cache_get :: "'s ix_env \<Rightarrow> string \<Rightarrow> ('s, bytes option) cio" where
  "cache_get E key w = cache_get_bytes (ie_fs E) (ie_s3 E) (fst w) key (snd w)"

definition fetch_meta_io :: "'s ix_env \<Rightarrow> string \<Rightarrow> ('s, (namespace_meta \<times> string option) option) cio" where
  "fetch_meta_io E ns = s3_io (fetch_meta (ie_s3 E) (ie_codec E) ns)"

definition primary_fts_field :: "namespace_meta \<Rightarrow> string" where
  "primary_fts_field m = (case index_fields_from_schema (schema m) of [] \<Rightarrow> [] | f # _ \<Rightarrow> f)"

text \<open>A segment whose field differs from the expected one is used all the same.\<close>

definition load_fts_segment :: "'s ix_env \<Rightarrow> string \<Rightarrow> u64 \<Rightarrow> string \<Rightarrow> ('s, fts_segment option) cio" where
  "load_fts_segment E ns sid expected_field =
     (if sid = 0 then pure_io (Inr None)
      else bind_io (cache_get E (fts_key ns sid))
        (\<lambda>b. case b of
           None \<Rightarrow> pure_io (Inr None)
         | Some x \<Rightarrow> pure_io (map_ok Some (or_err ''decode'' (fts_dec (ie_codec E) x)))))"

definition load_filter_segment :: "'s ix_env \<Rightarrow> string \<Rightarrow> u64 \<Rightarrow> ('s, filter_segment option) cio" where
  "load_filter_segment E ns sid =
     (if sid = 0 then pure_io (Inr None)
      else bind_io (cache_get E (filter_segment_key ns sid))
        (\<lambda>b. case b of
           None \<Rightarrow> pure_io (Inr None)
         | Some x \<Rightarrow> pure_io (map_ok Some (or_err ''decode'' (filter_dec (ie_codec E) x)))))"

definition load_filter_segment_for_query :: "'s ix_env \<Rightarrow> string \<Rightarrow> namespace_meta \<Rightarrow> ('s, filter_segment option) cio" where
  "load_filter_segment_for_query E ns m =
     (if filter_segment_id m = 0 \<or> index_cursor m = 0 then pure_io (Inr None)
      else load_filter_segment E ns (filter_segment_id m))"

definition load_fts_segment_for_query :: "'s ix_env \<Rightarrow> string \<Rightarrow> namespace_meta \<Rightarrow> ('s, fts_segment option) cio" where
  "load_fts_segment_for_query E ns m =
     (if namespace_meta.fts_segment_id m = 0 \<or> index_cursor m = 0 then pure_io (Inr None)
      else load_fts_segment E ns (namespace_meta.fts_segment_id m) (primary_fts_field m))"

definition cache_get_with_legacy_fallback :: "'s ix_env \<Rightarrow> string \<Rightarrow> string option \<Rightarrow> ('s, bytes option) cio" where
  "cache_get_with_legacy_fallback E key legacy_key =
     bind_io (cache_get E key)
       (\<lambda>b. case b of
          Some x \<Rightarrow> pure_io (Inr (Some x))
        | None \<Rightarrow> (case legacy_key of Some lk \<Rightarrow> cache_get E lk | None \<Rightarrow> pure_io (Inr None)))"

definition fetch_index_objects_from_cache :: "'s ix_env \<Rightarrow> string list \<Rightarrow> ('s, (string, bytes) fmap) cio" where
  "fetch_index_objects_from_cache E keys =
     fold_io (\<lambda>k out. bind_io (cache_get E k)
                (\<lambda>b. pure_io (Inr (case b of None \<Rightarrow> out | Some x \<Rightarrow> fmupd k x out)))) keys fmempty"

definition decode_l0 :: "ix_codec \<Rightarrow> bytes \<Rightarrow> centroid_index_l0 option" where
  "decode_l0 cd b =
     (case l0_dec cd b of Some l0 \<Rightarrow> Some l0 | None \<Rightarrow> map_option l0_from_legacy (l0_legacy_dec cd b))"

definition load_vector_l0_for_field ::
  "'s ix_env \<Rightarrow> string \<Rightarrow> namespace_meta \<Rightarrow> string \<Rightarrow> ('s, centroid_index_l0 option) cio" where
  "load_vector_l0_for_field E ns m field =
     (case List.find (\<lambda>f. vf_name f = field) (effective_vector_fields m) of
        None \<Rightarrow> pure_io (Inr None)
      | Some cfg \<Rightarrow>
          if vf_segment_id cfg = 0 \<or> index_cursor m = 0 \<or> vf_dimensions cfg = 0 then pure_io (Inr None)
          else
            bind_io (cache_get_with_legacy_fallback E (l0_key ns field)
                       (if vector_index_uses_legacy_paths m field then Some (l0_legacy_key ns) else None))
              (\<lambda>b. case b of
                 None \<Rightarrow> pure_io (Inr None)
               | Some x \<Rightarrow>
                   pure_io (map_ok (\<lambda>l0. Some (clamp_probe_plan_for_query (ie_probe_cap E)
                                                 (align_with_namespace_meta l0 m (Some (ie_ann E)))))
                              (or_err ''decode'' (decode_l0 (ie_codec E) x)))))"

definition load_vector_l0_for_query ::
  "'s ix_env \<Rightarrow> string \<Rightarrow> namespace_meta \<Rightarrow> ('s, (string, centroid_index_l0) fmap) cio" where
  "load_vector_l0_for_query E ns m =
     fold_io (\<lambda>cfg out.
       if vf_segment_id cfg = 0 \<or> index_cursor m = 0 \<or> vf_dimensions cfg = 0 then pure_io (Inr out)
       else bind_io (load_vector_l0_for_field E ns m (vf_name cfg))
              (\<lambda>l0. pure_io (Inr (case l0 of
                 Some l \<Rightarrow> if 0 < l0_num_fine_total l then fmupd (vf_name cfg) l out else out
               | None \<Rightarrow> out))))
       (effective_vector_fields m) fmempty"

definition load_segments ::
  "'s ix_env \<Rightarrow> (nat \<Rightarrow> string) \<Rightarrow> (nat \<Rightarrow> string option) \<Rightarrow> (bytes \<Rightarrow> 'a option) \<Rightarrow> nat \<Rightarrow> ('s, (nat, 'a) fmap) cio" where
  "load_segments E key legacy decode_seg n =
     fold_io (\<lambda>i out. bind_io (cache_get_with_legacy_fallback E (key i) (legacy i))
                (\<lambda>b. case b of
                   None \<Rightarrow> pure_io (Inr out)
                 | Some x \<Rightarrow> pure_io (map_ok (\<lambda>seg. fmupd i seg out) (or_err ''decode'' (decode_seg x)))))
       [0..<n] fmempty"

definition load_vector_index_full_for_field ::
  "'s ix_env \<Rightarrow> string \<Rightarrow> namespace_meta \<Rightarrow> string \<Rightarrow> ('s, vector_index option) cio" where
  "load_vector_index_full_for_field E ns m field =
     bind_io (load_vector_l0_for_field E ns m field)
       (\<lambda>r. case r of
          None \<Rightarrow> pure_io (Inr None)
        | Some l0 \<Rightarrow>
            if l0_num_fine_total l0 = 0 then pure_io (Inr None)
            else
              (let legacy = (\<lambda>key i. if vector_index_uses_legacy_paths m field then Some (key i) else None) in
               bind_io (load_segments E (l1_key ns field) (legacy (l1_legacy_key ns)) (l1_dec (ie_codec E)) (l0_num_coarse l0))
                 (\<lambda>l1s.
                    bind_io (load_segments E (cluster_key ns field) (legacy (cluster_legacy_key ns))
                               (cluster_dec (ie_codec E)) (l0_num_fine_total l0))
                      (\<lambda>cl. pure_io (Inr (Some \<lparr>vi_l0 = l0, vi_l1 = l1s, vi_clusters = cl, vi_routing = None,
                                                  vi_l2 = fmempty\<rparr>))))))"

definition load_vector_indexes_full_for_eval ::
  "'s ix_env \<Rightarrow> string \<Rightarrow> namespace_meta \<Rightarrow> ('s, (string, vector_index) fmap) cio" where
  "load_vector_indexes_full_for_eval E ns m =
     fold_io (\<lambda>cfg out. bind_io (load_vector_index_full_for_field E ns m (vf_name cfg))
                (\<lambda>vi. pure_io (Inr (case vi of None \<Rightarrow> out | Some v \<Rightarrow> fmupd (vf_name cfg) v out))))
       (effective_vector_fields m) fmempty"

text \<open>The coarse table is written last.\<close>

definition write_vector_index :: "'s ix_env \<Rightarrow> string \<Rightarrow> string \<Rightarrow> vector_index \<Rightarrow> ('s, unit) cio" where
  "write_vector_index E ns field vi =
     (let cd = ie_codec E in
      bind_io (pure_io (or_err ''encode CentroidIndexL0'' (l0_enc cd (vi_l0 vi))))
        (\<lambda>l0_body.
           bind_io (fold_io (\<lambda>l1 _. put_encoded E (l1_key ns field (l1_coarse_id l1)) (l1_enc cd l1)) (fm_values (vi_l1 vi)) ())
             (\<lambda>_. bind_io (fold_io (\<lambda>(f, c) _. put_encoded E (cluster_key ns field f) (cluster_enc cd c)) (fm_entries (vi_clusters vi)) ())
             (\<lambda>_. bind_io (case vi_routing vi of
                              None \<Rightarrow> pure_io (Inr ())
                            | Some r \<Rightarrow> put_encoded E (routing_key ns field) (routing_enc cd r))
             (\<lambda>_. bind_io (fold_io (\<lambda>((c, l2), seg) _. put_encoded E (l2_key ns field c l2) (l2_enc cd seg)) (fm_entries (vi_l2 vi)) ())
             (\<lambda>_. put_and_cache E (l0_key ns field) l0_body))))))"

section \<open>The delta of a range of the log\<close>

definition index_delta_from_wal_entries ::
  "'s ix_env \<Rightarrow> string \<Rightarrow> u64 \<Rightarrow> wal_entry list \<Rightarrow> ('s, (string \<times> document) list \<times> string list) cio" where
  "index_delta_from_wal_entries E ns cursor entries =
     (if \<not> list_ex (\<lambda>e. patches e \<noteq> []) entries
      then pure_io (map_ok (\<lambda>dss. (map (\<lambda>d. (doc_id d, d)) (concat dss), concat (map deletes entries)))
                      (traverse (into_documents (ie_codec E)) entries))
      else
        bind_io (s3_io (docs_at_index_cursor (ie_s3 E) (ie_codec E) (ie_policy E) ns cursor))
          (\<lambda>baseline. pure_io (snd (collect_index_delta (ie_codec E) baseline entries))))"

text \<open>
  The loop of \<^verbatim>\<open>stream_index_delta_from_wal\<close> over the segments left; the first entry with patches starts the
  whole range over from the segments it was given.
\<close>

fun stream_loop ::
  "'s ix_env \<Rightarrow> string \<Rightarrow> json \<Rightarrow>
   ('s, (fts_segment \<times> filter_segment) \<times> (string \<times> document) list \<times> string list) cio \<Rightarrow> u64 list \<Rightarrow>
   (fts_segment \<times> filter_segment) \<times> (string \<times> document) list \<times> string list \<Rightarrow>
   ('s, (fts_segment \<times> filter_segment) \<times> (string \<times> document) list \<times> string list) cio" where
  "stream_loop E ns sch restart [] acc = pure_io (Inr acc)"
| "stream_loop E ns sch restart (q # qs) acc =
     bind_io (s3_io (read_wal_entry (ie_s3 E) (ie_codec E) ns q))
       (\<lambda>entry.
          if patches entry \<noteq> [] then restart
          else
            bind_io (pure_io (into_documents (ie_codec E) entry))
              (\<lambda>ds.
                 (let ups = map (\<lambda>d. (doc_id d, d)) ds; dels = deletes entry; ((fts, flt), us, del) = acc
                  in stream_loop E ns sch restart qs
                       ((fts_apply_delta (ie_fts E) ups dels fts, filter_apply_delta (ie_text E) sch ups dels flt),
                        us @ ups, del @ dels))))"

definition stream_index_delta_from_wal ::
  "'s ix_env \<Rightarrow> string \<Rightarrow> u64 \<Rightarrow> u64 \<Rightarrow> u64 \<Rightarrow> fts_segment \<Rightarrow> filter_segment \<Rightarrow> json \<Rightarrow>
   ('s, (fts_segment \<times> filter_segment) \<times> (string \<times> document) list \<times> string list) cio" where
  "stream_index_delta_from_wal E ns cursor from_seq to_seq fts flt sch =
     stream_loop E ns sch
       (bind_io (s3_io (replay_wal_entries (ie_s3 E) (ie_codec E) ns from_seq to_seq))
          (\<lambda>entries. bind_io (index_delta_from_wal_entries E ns cursor entries)
             (\<lambda>(u, d). pure_io (Inr ((fts_apply_delta (ie_fts E) u d fts, filter_apply_delta (ie_text E) sch u d flt), u, d)))))
       [from_seq..<Suc to_seq] ((fts, flt), [], [])"

section \<open>Publishing\<close>

definition meta_after_index_commit ::
  "namespace_meta \<Rightarrow> u64 \<Rightarrow> u64 \<Rightarrow> u64 \<Rightarrow> vector_field_config list \<Rightarrow> nat \<Rightarrow> namespace_meta res" where
  "meta_after_index_commit m cursor fts_sid filter_sid vfs version =
     (if wal_commit_seq m < cursor then Inl (ErrMsg ''index_cursor past wal_commit_seq'')
      else if cursor \<le> index_cursor m then Inl (ErrMsg ''index_cursor does not advance'')
      else
        (let n = sync_legacy_vector_fields
               (m\<lparr>index_cursor := cursor, namespace_meta.fts_segment_id := fts_sid,
                  fts_segment_ids := push_segment_id (fts_segment_ids m) fts_sid,
                  filter_segment_id := filter_sid,
                  filter_segment_ids := push_segment_id (filter_segment_ids m) filter_sid,
                  vector_fields := vfs\<rparr>)
         in Inr (if ANN_VERSION_V3 \<le> version then n\<lparr>preferred_ann_version := ANN_VERSION_V3\<rparr> else n)))"

definition stamp_segment :: "u64 \<Rightarrow> vector_index \<Rightarrow> vector_index" where
  "stamp_segment sid vi =
     vi\<lparr>vi_l0 := (vi_l0 vi)\<lparr>l0_segment_id := sid\<rparr>,
        vi_l1 := fmmap (\<lambda>s. s\<lparr>l1_segment_id := sid\<rparr>) (vi_l1 vi),
        vi_clusters := fmmap (\<lambda>c. c\<lparr>cs_segment_id := sid\<rparr>) (vi_clusters vi)\<rparr>"

definition record_vector_field ::
  "string \<Rightarrow> nat \<Rightarrow> vector_element \<Rightarrow> u64 \<Rightarrow> vector_field_config list \<Rightarrow> vector_field_config list" where
  "record_vector_field name dims element sid vfs =
     (if list_ex (\<lambda>f. vf_name f = name) vfs
      then update_slot name
             (\<lambda>f. f\<lparr>vf_dimensions := dims, vf_element := element, vf_segment_id := sid,
                     vf_segment_ids := push_segment_id (vf_segment_ids f) sid\<rparr>) vfs
      else if length vfs < MAX_VECTOR_FIELDS
      then vfs @ [\<lparr>vf_name = name, vf_dimensions = dims, vf_element = element, vf_segment_id = sid,
                    vf_segment_ids = push_segment_id [] sid\<rparr>]
      else vfs)"

text \<open>The new index of one field: built from the upserts, or the delta applied, and rebuilt when due.\<close>

definition updated_vector_index ::
  "'s ix_env \<Rightarrow> string \<Rightarrow> namespace_meta \<Rightarrow> u64 \<Rightarrow> (string \<times> document) list \<Rightarrow> string list \<Rightarrow> string \<Rightarrow> vector_index \<Rightarrow>
   ('s, vector_index) cio" where
  "updated_vector_index E ns m to_seq ups dels name vi =
     (let build = (\<lambda>pairs old. map_ok (\<lambda>b. case b of Some v \<Rightarrow> v | None \<Rightarrow> old)
                     (of_vfail (vindex_build (ie_wire E) to_seq name (metric m) pairs (schema m) (ie_ann E))))
      in if l0_num_fine_total (vi_l0 vi) = 0 then pure_io (build ups vi)
         else
           bind_io (pure_io (of_vfail (vindex_apply_delta (ie_wire E) ups dels vi)))
             (\<lambda>vi1.
                if \<not> needs_full_rebuild vi1 then pure_io (Inr vi1)
                else bind_io (s3_io (docs_at_index_cursor (ie_s3 E) (ie_codec E) (ie_policy E) ns to_seq))
                       (\<lambda>docs. pure_io (build (fm_entries docs) vi1))))"

definition index_vector_field ::
  "'s ix_env \<Rightarrow> string \<Rightarrow> namespace_meta \<Rightarrow> u64 \<Rightarrow> (string \<times> document) list \<Rightarrow> string list \<Rightarrow> string \<Rightarrow>
   vector_field_config list \<Rightarrow> ('s, vector_field_config list) cio" where
  "index_vector_field E ns m to_seq ups dels name vfs =
     bind_io (load_vector_index_full_for_field E ns m name)
       (\<lambda>loaded.
          bind_io (updated_vector_index E ns m to_seq ups dels name (case loaded of None \<Rightarrow> default_vindex | Some v \<Rightarrow> v))
            (\<lambda>vi.
               if l0_num_fine_total (vi_l0 vi) = 0 then pure_io (Inr vfs)
               else
                 (let vi' = stamp_segment to_seq vi in
                  bind_io (write_vector_index E ns name vi')
                    (\<lambda>_. pure_io (Inr (record_vector_field name (l0_dimensions (vi_l0 vi'))
                                          (vector_element_for_field (schema m) name) to_seq vfs))))))"

definition initial_vector_fields :: "namespace_meta \<Rightarrow> vector_field_config list" where
  "initial_vector_fields m =
     (if vector_fields m = [] \<and> vector_field m \<noteq> [] \<and> 0 < dimensions m
      then [\<lparr>vf_name = vector_field m, vf_dimensions = dimensions m,
             vf_element = vector_element_for_field (schema m) (vector_field m),
             vf_segment_id = vector_segment_id m, vf_segment_ids = vector_segment_ids m\<rparr>]
      else vector_fields m)"

text \<open>Segments up to \<open>to_seq\<close> are written; the metadata is not yet changed.\<close>

definition write_segments ::
  "'s ix_env \<Rightarrow> string \<Rightarrow> namespace_meta \<Rightarrow> u64 \<Rightarrow>
   (fts_segment \<times> filter_segment) \<times> (string \<times> document) list \<times> string list \<Rightarrow> ('s, vector_field_config list) cio" where
  "write_segments E ns m to_seq out =
     (let cd = ie_codec E; (fts, flt) = fst out; (ups, dels) = snd out in
      bind_io (put_encoded E (filter_segment_key ns to_seq) (filter_enc cd (flt\<lparr>fs_segment_id := to_seq\<rparr>)))
        (\<lambda>_. bind_io (put_encoded E (fts_key ns to_seq) (fts_enc cd (fts\<lparr>fts_segment.fts_segment_id := to_seq\<rparr>)))
        (\<lambda>_. fold_io (index_vector_field E ns m to_seq ups dels)
                (vector_fields_to_index (ie_wire E) (schema m) m (case ups of [] \<Rightarrow> None | (_, d) # _ \<Rightarrow> Some d))
                (initial_vector_fields m))))"

definition build_segments :: "'s ix_env \<Rightarrow> string \<Rightarrow> namespace_meta \<Rightarrow> u64 \<Rightarrow> ('s, vector_field_config list) cio" where
  "build_segments E ns m to_seq =
     (let field = primary_fts_field m in
      bind_io (load_fts_segment E ns (namespace_meta.fts_segment_id m) field)
        (\<lambda>fts0. bind_io (load_filter_segment E ns (filter_segment_id m))
           (\<lambda>flt0. bind_io (stream_index_delta_from_wal E ns (index_cursor m) (sat_add (index_cursor m) 1) to_seq
                              (case fts0 of Some f \<Rightarrow> f | None \<Rightarrow> fts_empty to_seq field)
                              (case flt0 of Some f \<Rightarrow> f | None \<Rightarrow> filter_empty to_seq) (schema m))
              (write_segments E ns m to_seq))))"

datatype step = Done "unit res" | Continue

definition publish_index ::
  "'s ix_env \<Rightarrow> string \<Rightarrow> u64 \<Rightarrow> vector_field_config list \<Rightarrow> bool \<Rightarrow> namespace_meta \<Rightarrow> string option \<Rightarrow>
   seg_cache \<times> 's \<Rightarrow> step \<times> seg_cache \<times> 's" where
  "publish_index E ns to_seq vfs again fresh etag w =
     (case meta_after_index_commit fresh to_seq to_seq to_seq vfs (ab_ann_version (ie_ann E)) of
        Inl e \<Rightarrow> (Done (Inl e), w)
      | Inr next_meta \<Rightarrow>
          (case meta_to_vec (ie_codec E) next_meta of
             None \<Rightarrow> (Done (Inl (ErrMsg ''serialize meta'')), w)
           | Some body \<Rightarrow>
               (case put_object (ie_s3 E) (meta_key ns) body (cas_cond etag) (snd w) of
                  (Inr _, s') \<Rightarrow>
                    (case maybe_compact_wal (ie_s3 E) (ie_codec E) (ie_policy E) (ie_fs E) ns (fst w) s' of
                       (_, c2, s2) \<Rightarrow> (Done (Inr ()), c2, s2))
                | (Inl e, s') \<Rightarrow>
                    (if e = PreconditionFailed \<and> again then Continue else Done (Inl (S3Failed e)), fst w, s'))))"

definition range_end :: "u64 option \<Rightarrow> namespace_meta \<Rightarrow> u64" where
  "range_end max_segments m =
     (case max_segments of
        None \<Rightarrow> wal_commit_seq m
      | Some mx \<Rightarrow> min (wal_commit_seq m) (sat_add (sat_add (index_cursor m) 1) (mx - 1)))"

definition index_attempt ::
  "'s ix_env \<Rightarrow> string \<Rightarrow> u64 option \<Rightarrow> bool \<Rightarrow> seg_cache \<times> 's \<Rightarrow> step \<times> seg_cache \<times> 's" where
  "index_attempt E ns max_segments again w =
     (case fetch_meta_io E ns w of
        (Inl e, w1) \<Rightarrow> (Done (Inl e), w1)
      | (Inr None, w1) \<Rightarrow> (Done (Inr ()), w1)
      | (Inr (Some (m, _)), w1) \<Rightarrow>
          if wal_commit_seq m \<le> index_cursor m then (Done (Inr ()), w1)
          else
            (let to_seq = range_end max_segments m
             in case build_segments E ns m to_seq w1 of
                  (Inl e, w2) \<Rightarrow> (Done (Inl e), w2)
                | (Inr vfs, w2) \<Rightarrow>
                    (case fetch_meta_io E ns w2 of
                       (Inl e, w3) \<Rightarrow> (Done (Inl e), w3)
                     | (Inr None, w3) \<Rightarrow> (Done (Inr ()), w3)
                     | (Inr (Some (f1, _)), w3) \<Rightarrow>
                         if wal_commit_seq f1 \<le> index_cursor f1 \<or> to_seq \<le> index_cursor f1 then (Done (Inr ()), w3)
                         else if wal_commit_seq f1 < to_seq then (Continue, w3)
                         else
                           (case fetch_meta_io E ns w3 of
                              (Inl e, w4) \<Rightarrow> (Done (Inl e), w4)
                            | (Inr None, w4) \<Rightarrow> (Done (Inr ()), w4)
                            | (Inr (Some (f2, etag)), w4) \<Rightarrow>
                                if to_seq \<le> index_cursor f2 then (Done (Inr ()), w4)
                                else if wal_commit_seq f2 < to_seq then (Continue, w4)
                                else publish_index E ns to_seq vfs again f2 etag w4))))"

fun index_attempts ::
  "'s ix_env \<Rightarrow> string \<Rightarrow> u64 option \<Rightarrow> nat \<Rightarrow> seg_cache \<times> 's \<Rightarrow> unit res \<times> seg_cache \<times> 's" where
  "index_attempts E ns max_segments 0 w = (Inl (ErrMsg ''meta CAS failed after index retries''), w)"
| "index_attempts E ns max_segments (Suc left) w =
     (case index_attempt E ns max_segments (0 < left) w of
        (Done r, w') \<Rightarrow> (r, w')
      | (Continue, w') \<Rightarrow> index_attempts E ns max_segments left w')"

definition index_wal_range ::
  "'s ix_env \<Rightarrow> string \<Rightarrow> u64 option \<Rightarrow> seg_cache \<times> 's \<Rightarrow> unit res \<times> seg_cache \<times> 's" where
  "index_wal_range E ns max_segments = index_attempts E ns max_segments META_RETRIES"

end
