(* ===== verification/Index_Scheduler.thy ===== *)
theory Index_Scheduler
  imports Indexer Sort_By "HOL-Library.Sublist"
begin

text \<open>
  The background loop of the indexer (\<^verbatim>\<open>src/indexer.rs\<close>): the work queue, its order, the share of
  each namespace in a tick, and the compaction pass.  The paged listing of the bucket and
  \<^verbatim>\<open>tokio::time::timeout\<close> are parameters; durations are milliseconds.
\<close>

section \<open>Shares\<close>

definition INDEX_POLL_INTERVAL :: nat where "INDEX_POLL_INTERVAL = 500"

definition MAX_INDEX_TIME_PER_NS_PER_TICK :: nat where "MAX_INDEX_TIME_PER_NS_PER_TICK = 2000"

definition HIGH_INDEX_LAG_SEGMENTS :: nat where "HIGH_INDEX_LAG_SEGMENTS = 4"

definition BURST_INDEX_LAG_SEGMENTS :: nat where "BURST_INDEX_LAG_SEGMENTS = 8"

definition MAX_SEGMENTS_BURST_PER_TICK :: nat where "MAX_SEGMENTS_BURST_PER_TICK = 8"

definition unindexed_wal_segments :: "namespace_meta \<Rightarrow> u64" where
  "unindexed_wal_segments m =
     (if wal_commit_seq m \<le> index_cursor m then 0 else wal_commit_seq m - index_cursor m)"

definition index_scheduling_lag :: "namespace_meta \<Rightarrow> u64" where
  "index_scheduling_lag m = unindexed_wal_segments m"

definition needs_indexing :: "namespace_meta \<Rightarrow> bool" where
  "needs_indexing m \<longleftrightarrow> index_cursor m < wal_commit_seq m"

definition segments_per_background_tick :: "u64 \<Rightarrow> nat \<Rightarrow> u64" where
  "segments_per_background_tick lag competing =
     (if lag = 0 then 1
      else if competing \<le> 1 \<or> BURST_INDEX_LAG_SEGMENTS \<le> lag then clamp_nat lag 1 MAX_SEGMENTS_BURST_PER_TICK
      else if HIGH_INDEX_LAG_SEGMENTS \<le> lag then 2 else 1)"

definition background_tick_time_limit :: "u64 \<Rightarrow> nat \<Rightarrow> nat option" where
  "background_tick_time_limit lag competing =
     (if competing \<le> 1 \<or> BURST_INDEX_LAG_SEGMENTS \<le> lag then None else Some MAX_INDEX_TIME_PER_NS_PER_TICK)"

definition lag_of :: "(string, u64) fmap \<Rightarrow> string \<Rightarrow> u64" where
  "lag_of lag n = (case fmlookup lag n of None \<Rightarrow> 0 | Some l \<Rightarrow> l)"

definition lag_cmp :: "(string, u64) fmap \<Rightarrow> string \<Rightarrow> string \<Rightarrow> ordering" where
  "lag_cmp lag a b = cmp_of (lag_of lag b) (lag_of lag a)"

definition sort_namespaces_by_index_lag :: "string list \<Rightarrow> (string, u64) fmap \<Rightarrow> string list" where
  "sort_namespaces_by_index_lag names lag = sort_by (lag_cmp lag) names"

text \<open>\<open>head_len\<close> is the content length of a HEAD request.\<close>

definition approx_unindexed_bytes ::
  "(string \<Rightarrow> 's \<Rightarrow> nat res \<times> 's) \<Rightarrow> string \<Rightarrow> namespace_meta \<Rightarrow> 's \<Rightarrow> nat \<times> 's" where
  "approx_unindexed_bytes head_len ns m s =
     fold (\<lambda>q (total, s). case head_len (wal_key ns q) s of
                            (Inr n, s') \<Rightarrow> (total + n, s') | (Inl _, s') \<Rightarrow> (total + 4096, s'))
       [sat_add (index_cursor m) 1..<Suc (wal_commit_seq m)] (0, s)"

section \<open>Namespaces\<close>

definition strip_suffix :: "string \<Rightarrow> string \<Rightarrow> string option" where
  "strip_suffix suf x = (if ends_with x suf then Some (take (length x - length suf) x) else None)"

definition name_of_prefix :: "string \<Rightarrow> string" where
  "name_of_prefix p =
     (case Option.bind (strip_prefix ROOT_PREFIX p) (strip_suffix ''/'') of None \<Rightarrow> p | Some n \<Rightarrow> n)"

text \<open>\<open>lister\<close> yields the common prefixes of all pages of the listing.\<close>

definition list_namespace_names :: "('s \<Rightarrow> string list res \<times> 's) \<Rightarrow> 's \<Rightarrow> string list res \<times> 's" where
  "list_namespace_names lister s =
     (case lister s of
        (Inl e, s') \<Rightarrow> (Inl e, s')
      | (Inr ps, s') \<Rightarrow> (Inr (remdups_adj (sort (filter (\<lambda>n. n \<noteq> []) (map name_of_prefix ps)))), s'))"

section \<open>The queue\<close>

record work_queue =
  wq_queue :: "string list"
  wq_queued :: "string fset"

definition wake :: "string \<Rightarrow> work_queue \<Rightarrow> work_queue" where
  "wake ns q =
     (if ns |\<in>| wq_queued q then q
      else q\<lparr>wq_queue := wq_queue q @ [ns], wq_queued := finsert ns (wq_queued q)\<rparr>)"

definition collect_active ::
  "'s ix_env \<Rightarrow> string \<Rightarrow> (string, u64) fmap \<times> string list \<Rightarrow> ('s, (string, u64) fmap \<times> string list) cio" where
  "collect_active E name acc =
     bind_io (fetch_meta_io E name)
       (\<lambda>r. case r of
          None \<Rightarrow> pure_io (Inr acc)
        | Some (m, _) \<Rightarrow>
            (let l = index_scheduling_lag m in
             pure_io (Inr (if 0 < l \<or> needs_wal_compaction m
                           then (fmupd name l (fst acc), snd acc @ [name]) else acc))))"

definition refresh_work_queue ::
  "'s ix_env \<Rightarrow> ('s \<Rightarrow> string list res \<times> 's) \<Rightarrow> work_queue \<Rightarrow> ('s, work_queue) cio" where
  "refresh_work_queue E lister q =
     bind_io (s3_io (list_namespace_names lister))
       (\<lambda>listed.
          bind_io (fold_io (collect_active E) (sorted_list_of_fset (wq_queued q |\<union>| fset_of_list listed)) (fmempty, []))
            (\<lambda>(lag, active).
               (let names = sort_namespaces_by_index_lag active lag
                in pure_io (Inr \<lparr>wq_queue = names, wq_queued = fset_of_list names\<rparr>))))"

definition timeboxed ::
  "(nat \<Rightarrow> ('w \<Rightarrow> 'a \<times> 'w) \<Rightarrow> 'w \<Rightarrow> 'a option \<times> 'w) \<Rightarrow> nat option \<Rightarrow> ('w \<Rightarrow> 'a \<times> 'w) \<Rightarrow> 'w \<Rightarrow> 'a option \<times> 'w" where
  "timeboxed timeout limit work w =
     (case limit of None \<Rightarrow> (case work w of (r, w') \<Rightarrow> (Some r, w')) | Some l \<Rightarrow> timeout l work w)"

type_synonym 's timeout = "nat \<Rightarrow> (seg_cache \<times> 's \<Rightarrow> unit res \<times> seg_cache \<times> 's) \<Rightarrow>
  seg_cache \<times> 's \<Rightarrow> unit res option \<times> seg_cache \<times> 's"

definition compact_io :: "'s ix_env \<Rightarrow> string \<Rightarrow> ('s, unit) cio" where
  "compact_io E ns w =
     (case maybe_compact_wal (ie_s3 E) (ie_codec E) (ie_policy E) (ie_fs E) ns (fst w) (snd w) of
        (_, w') \<Rightarrow> (Inr (), w'))"

definition index_namespace_timeboxed ::
  "'s ix_env \<Rightarrow> 's timeout \<Rightarrow> string \<Rightarrow> u64 \<Rightarrow> nat option \<Rightarrow> ('s, bool) cio" where
  "index_namespace_timeboxed E timeout ns max_segments limit w =
     (case timeboxed timeout limit (index_wal_range E ns (Some (max max_segments 1))) w of
        (Some (Inl e), w1) \<Rightarrow> (Inl e, w1)
      | (_, w1) \<Rightarrow>
          bind_io (fetch_meta_io E ns)
            (\<lambda>r. case r of
               None \<Rightarrow> pure_io (Inr False)
             | Some (m, _) \<Rightarrow>
                 (let still = needs_indexing m in
                  bind_io (if still then pure_io (Inr ()) else compact_io E ns)
                    (\<lambda>_. pure_io (Inr (still \<or> needs_wal_compaction m))))) w1)"

definition lag_entry :: "'s ix_env \<Rightarrow> string \<Rightarrow> (string, u64) fmap \<Rightarrow> ('s, (string, u64) fmap) cio" where
  "lag_entry E name lags =
     bind_io (fetch_meta_io E name)
       (\<lambda>r. pure_io (Inr (case r of None \<Rightarrow> lags | Some (m, _) \<Rightarrow> fmupd name (index_scheduling_lag m) lags)))"

definition turn :: "string \<Rightarrow> string list \<Rightarrow> work_queue \<Rightarrow> bool \<Rightarrow> work_queue" where
  "turn ns rest q again = (if again then q\<lparr>wq_queue := rest @ [ns]\<rparr>
     else q\<lparr>wq_queue := rest, wq_queued := wq_queued q |-| {|ns|}\<rparr>)"

text \<open>One turn of the round: an error keeps the namespace in the queue.\<close>

definition serve_front ::
  "'s ix_env \<Rightarrow> 's timeout \<Rightarrow> nat \<Rightarrow> (string, u64) fmap \<Rightarrow> work_queue \<Rightarrow> seg_cache \<times> 's \<Rightarrow> work_queue \<times> seg_cache \<times> 's" where
  "serve_front E timeout round_len lags q w =
     (case wq_queue q of
        [] \<Rightarrow> (q, w)
      | ns # rest \<Rightarrow>
          (let lag = lag_of lags ns in
           case index_namespace_timeboxed E timeout ns (segments_per_background_tick lag round_len)
                  (background_tick_time_limit lag round_len) w of
             (r, w') \<Rightarrow>
               (turn ns rest q (case r of Inr needs_more \<Rightarrow> needs_more | Inl _ \<Rightarrow> True), w')))"

definition compaction_pass :: "'s ix_env \<Rightarrow> ('s \<Rightarrow> string list res \<times> 's) \<Rightarrow> ('s, unit) cio" where
  "compaction_pass E lister =
     bind_io (s3_io (list_namespace_names lister))
       (\<lambda>names. fold_io (\<lambda>name _. bind_io (fetch_meta_io E name)
          (\<lambda>r. case r of
             None \<Rightarrow> pure_io (Inr ())
           | Some (m, _) \<Rightarrow> if needs_wal_compaction m then compact_io E name else pure_io (Inr ()))) names ())"

text \<open>The queue is shared state: it is returned also when a tick fails.\<close>

definition tick ::
  "'s ix_env \<Rightarrow> 's timeout \<Rightarrow> ('s \<Rightarrow> string list res \<times> 's) \<Rightarrow> work_queue \<Rightarrow> seg_cache \<times> 's \<Rightarrow>
   unit res \<times> work_queue \<times> seg_cache \<times> 's" where
  "tick E timeout lister q w =
     (case refresh_work_queue E lister q w of
        (Inl e, w1) \<Rightarrow> (Inl e, q, w1)
      | (Inr q1, w1) \<Rightarrow>
          (let n = length (wq_queue q1) in
           case fold_io (lag_entry E) (wq_queue q1) fmempty w1 of
             (Inl e, w2) \<Rightarrow> (Inl e, q1, w2)
           | (Inr lags, w2) \<Rightarrow>
               (case ((\<lambda>(q, w). serve_front E timeout n lags q w) ^^ n) (q1, w2) of
                  (q2, w3) \<Rightarrow> (case compaction_pass E lister w3 of (r, w4) \<Rightarrow> (r, q2, w4)))))"

section \<open>The queue is fair\<close>

definition queue_ok :: "work_queue \<Rightarrow> bool" where
  "queue_ok q \<longleftrightarrow> distinct (wq_queue q) \<and> fset_of_list (wq_queue q) = wq_queued q"

lemma queue_ok_mem: "queue_ok q \<Longrightarrow> ns |\<in>| wq_queued q \<longleftrightarrow> ns \<in> set (wq_queue q)"
  unfolding queue_ok_def by (metis fset_of_list_elem)

lemma wake_ok:
  assumes "queue_ok q"
  shows "queue_ok (wake ns q)" and "ns \<in> set (wq_queue (wake ns q))"
proof -
  have d: "distinct (wq_queue q)" and f: "fset_of_list (wq_queue q) = wq_queued q"
    using assms unfolding queue_ok_def by simp_all
  have "fset_of_list (wq_queue q @ [ns]) = finsert ns (wq_queued q)"
    unfolding f [symmetric] by (rule fset_eqI) (simp add: fset_of_list_elem)
  then show "queue_ok (wake ns q)"
    using assms d queue_ok_mem [OF assms, of ns] unfolding queue_ok_def wake_def by simp
  show "ns \<in> set (wq_queue (wake ns q))"
    using queue_ok_mem [OF assms, of ns] unfolding wake_def by simp
qed

lemma turn_ok:
  assumes "queue_ok q" and "wq_queue q = ns # rest"
  shows "queue_ok (q\<lparr>wq_queue := rest @ [ns]\<rparr>)"
    and "queue_ok (q\<lparr>wq_queue := rest, wq_queued := wq_queued q |-| {|ns|}\<rparr>)"
proof -
  have d: "distinct (ns # rest)" and q: "wq_queued q = finsert ns (fset_of_list rest)"
    using assms unfolding queue_ok_def by simp_all
  have "ns |\<notin>| fset_of_list rest" using d by (simp add: fset_of_list_elem)
  then have "finsert ns (fset_of_list rest) |-| {|ns|} = fset_of_list rest" by auto
  then show "queue_ok (q\<lparr>wq_queue := rest, wq_queued := wq_queued q |-| {|ns|}\<rparr>)"
    unfolding queue_ok_def using d q by simp
  have "fset_of_list (rest @ [ns]) = finsert ns (fset_of_list rest)"
    by (auto simp: fset_of_list_elem fset_eq_iff)
  then show "queue_ok (q\<lparr>wq_queue := rest @ [ns]\<rparr>)" unfolding queue_ok_def using d q by simp
qed

lemma serve_front_turn:
  assumes "wq_queue q = ns # rest"
  shows "\<exists>again. fst (serve_front E timeout n lags q w) = turn ns rest q again"
proof -
  define r where "r = index_namespace_timeboxed E timeout ns (segments_per_background_tick (lag_of lags ns) n)
                  (background_tick_time_limit (lag_of lags ns) n) w"
  have "fst (serve_front E timeout n lags q w)
      = turn ns rest q (case fst r of Inr needs_more \<Rightarrow> needs_more | Inl _ \<Rightarrow> True)"
    unfolding serve_front_def Let_def assms list.case r_def [symmetric] by (cases r) simp
  then show ?thesis by blast
qed

lemma turn_keeps: "queue_ok q \<Longrightarrow> wq_queue q = ns # rest \<Longrightarrow> queue_ok (turn ns rest q again)"
  unfolding turn_def by (cases again) (simp_all add: turn_ok)

lemma wq_queue_turn: "wq_queue (turn ns rest q again) = rest @ (if again then [ns] else [])"
  by (simp add: turn_def)

definition serve_round ::
  "'s ix_env \<Rightarrow> 's timeout \<Rightarrow> nat \<Rightarrow> (string, u64) fmap \<Rightarrow> nat \<Rightarrow> work_queue \<times> seg_cache \<times> 's \<Rightarrow> work_queue \<times> seg_cache \<times> 's" where
  "serve_round E timeout n lags i = (\<lambda>(q, w). serve_front E timeout n lags q w) ^^ i"

lemma serve_round_Suc:
  "fst (serve_round E timeout n lags (Suc i) x)
   = fst (serve_front E timeout n lags (fst (serve_round E timeout n lags i x)) (snd (serve_round E timeout n lags i x)))"
  by (simp add: serve_round_def split_beta)

lemma serve_round_queue:
  assumes "queue_ok q" and "i \<le> length (wq_queue q)"
  shows "queue_ok (fst (serve_round E timeout n lags i (q, w))) \<and>
    (\<exists>S. subseq S (take i (wq_queue q)) \<and>
         wq_queue (fst (serve_round E timeout n lags i (q, w))) = drop i (wq_queue q) @ S)"
  using assms(2)
proof (induction i)
  case 0
  then show ?case using assms(1) by (simp add: serve_round_def)
next
  case (Suc i)
  let ?Q = "wq_queue q" and ?x = "serve_round E timeout n lags i (q, w)"
  obtain S where ok: "queue_ok (fst ?x)" and S: "subseq S (take i ?Q)"
    and Q: "wq_queue (fst ?x) = drop i ?Q @ S"
    using Suc.IH [OF Suc_leD [OF Suc.prems]] by blast
  have d: "drop i ?Q = ?Q ! i # drop (Suc i) ?Q" using Suc.prems by (simp add: Cons_nth_drop_Suc)
  have front: "wq_queue (fst ?x) = ?Q ! i # (drop (Suc i) ?Q @ S)" unfolding Q d by (rule append_Cons)
  obtain b where t: "fst (serve_round E timeout n lags (Suc i) (q, w)) = turn (?Q ! i) (drop (Suc i) ?Q @ S) (fst ?x) b"
    unfolding serve_round_Suc using serve_front_turn [OF front, of E timeout n lags "snd ?x"] by (elim exE)
  have tk: "take (Suc i) ?Q = take i ?Q @ [?Q ! i]" using Suc.prems by (simp add: take_Suc_conv_app_nth)
  have "subseq (S @ (if b then [?Q ! i] else [])) (take (Suc i) ?Q)"
    unfolding tk by (rule list_emb_append_mono [OF S]) (cases b; simp)
  moreover have "queue_ok (turn (?Q ! i) (drop (Suc i) ?Q @ S) (fst ?x) b)" by (rule turn_keeps [OF ok front])
  ultimately show ?case unfolding t wq_queue_turn append_assoc by (intro conjI exI [of _ "S @ (if b then [?Q ! i] else [])"]) auto
qed

end
