(* ===== verification/Spec2Isabelle.thy ===== *)
theory Spec2Isabelle
  imports Wal_Correct Namespace_Correct Segment_Cache Compaction_Correct View_Correct View_Cache Export Limits
    Filter_Correct Buffer_Log Fts_Correct Vector_Encoding_Correct Vector_Query_Correct Index_Scheduler
begin

text \<open>
  Verification of openpuffer.
\<close>

end
